(* ===== verification/Elrond_Prelude.thy ===== *)
theory Elrond_Prelude
  imports Complex_Main "HOL-Library.AList" "HOL-Library.Multiset" "HOL-Library.Word" "HOL-Library.Code_Target_Nat"
begin

text \<open>
  Shared material of the Elrond development: the collections the component theories put their
  simplification rules in, the error monad that stands for Rust's \<^verbatim>\<open>Result\<close> with the
  \<^verbatim>\<open>?\<close> operator, the loops over slices that leave early on an error, the iterator
  adaptors of the standard library the program uses (\<^verbatim>\<open>min_by\<close>, \<^verbatim>\<open>find\<close>,
  \<^verbatim>\<open>position\<close>), and hash maps as association lists with distinct keys.

  A Rust \<^verbatim>\<open>HashMap\<close> iterates in an order the standard library leaves unspecified. Where
  the program's result depends on that order, the operation takes it as an argument \<open>it\<close>
  that maps the entries to the sequence the iterator yields; \<open>iter_order\<close> says that the
  sequence holds the same entries.
\<close>

named_theorems res_simps \<open>equations of the error monad\<close>
named_theorems str_simps \<open>equations of the string operations\<close>
named_theorems step_simps \<open>equations of the components' operations\<close>

type_synonym u8 = "8 word"
type_synonym u32 = "32 word"
type_synonym u64 = "64 word"

section \<open>Results\<close>

text \<open>\<open>and_then m f\<close> is the \<^verbatim>\<open>?\<close> operator followed by the rest of the function:
  an error leaves at once, a value goes on.\<close>

definition and_then :: "'e + 'a \<Rightarrow> ('a \<Rightarrow> 'e + 'b) \<Rightarrow> 'e + 'b" where
  "and_then m f = (case m of Inl e \<Rightarrow> Inl e | Inr x \<Rightarrow> f x)"

definition ok_or :: "'e \<Rightarrow> 'a option \<Rightarrow> 'e + 'a" where
  "ok_or e m = (case m of None \<Rightarrow> Inl e | Some x \<Rightarrow> Inr x)"

definition map_err :: "('e \<Rightarrow> 'f) \<Rightarrow> 'e + 'a \<Rightarrow> 'f + 'a" where
  "map_err f m = (case m of Inl e \<Rightarrow> Inl (f e) | Inr x \<Rightarrow> Inr x)"

lemma and_then_simps [simp, res_simps]:
  "and_then (Inl e) f = Inl e"
  "and_then (Inr x) f = f x"
  by (simp_all add: and_then_def)

lemma and_then_Inr_iff [res_simps]:
  "and_then m f = Inr y \<longleftrightarrow> (\<exists>x. m = Inr x \<and> f x = Inr y)"
  by (cases m) simp_all

lemma and_then_Inl_iff:
  "and_then m f = Inl e \<longleftrightarrow> m = Inl e \<or> (\<exists>x. m = Inr x \<and> f x = Inl e)"
  by (cases m) simp_all

lemma ok_or_simps [simp, res_simps]:
  "ok_or e None = Inl e"
  "ok_or e (Some x) = Inr x"
  by (simp_all add: ok_or_def)

lemma ok_or_Inr_iff [res_simps]: "ok_or e m = Inr x \<longleftrightarrow> m = Some x"
  by (cases m) simp_all

lemma map_err_simps [simp, res_simps]:
  "map_err f (Inl e) = Inl (f e)"
  "map_err f (Inr x) = Inr x"
  by (simp_all add: map_err_def)

lemma map_err_Inr_iff [res_simps]: "map_err f m = Inr x \<longleftrightarrow> m = Inr x"
  by (cases m) simp_all

text \<open>\<open>fold_res f xs s\<close> is \<^verbatim>\<open>for x in xs { ... ? ... }\<close> over a mutable state \<open>s\<close>;
  \<open>map_res f xs\<close> is \<^verbatim>\<open>.map(f).collect::<Result<Vec<_>, _>>()\<close>.\<close>

fun fold_res :: "('a \<Rightarrow> 's \<Rightarrow> 'e + 's) \<Rightarrow> 'a list \<Rightarrow> 's \<Rightarrow> 'e + 's" where
  "fold_res f [] s = Inr s"
| "fold_res f (x # xs) s = and_then (f x s) (fold_res f xs)"

fun map_res :: "('a \<Rightarrow> 'e + 'b) \<Rightarrow> 'a list \<Rightarrow> 'e + 'b list" where
  "map_res f [] = Inr []"
| "map_res f (x # xs) = and_then (f x) (\<lambda>y. and_then (map_res f xs) (\<lambda>ys. Inr (y # ys)))"

lemma fold_res_append: "fold_res f (xs @ ys) s = and_then (fold_res f xs s) (fold_res f ys)"
  by (induction xs arbitrary: s) (simp_all add: and_then_def split: sum.splits)

lemma fold_res_invariant:
  assumes "fold_res f xs s = Inr s'" and "I s"
    and "\<And>x t t'. x \<in> set xs \<Longrightarrow> I t \<Longrightarrow> f x t = Inr t' \<Longrightarrow> I t'"
  shows "I s'"
  using assms
proof (induction xs arbitrary: s)
  case Nil
  then show ?case by simp
next
  case (Cons x xs)
  from Cons.prems(1) obtain t where t: "f x s = Inr t" "fold_res f xs t = Inr s'"
    by (auto simp: and_then_Inr_iff)
  have "I t" using Cons.prems(3)[of x s t] Cons.prems(2) t(1) by simp
  show ?case by (rule Cons.IH[OF t(2) \<open>I t\<close>]) (use Cons.prems(3) in auto)
qed

lemma map_res_Inr_iff: "map_res f xs = Inr ys \<longleftrightarrow> list_all2 (\<lambda>x y. f x = Inr y) xs ys"
  by (induction xs arbitrary: ys) (auto simp: and_then_Inr_iff list_all2_Cons1)

lemma map_res_length: "map_res f xs = Inr ys \<Longrightarrow> length ys = length xs"
  by (simp add: map_res_Inr_iff list_all2_lengthD)

lemma map_res_set:
  "map_res f xs = Inr ys \<Longrightarrow> y \<in> set ys \<Longrightarrow> \<exists>x \<in> set xs. f x = Inr y"
  by (induction xs arbitrary: ys) (auto simp: and_then_Inr_iff)

section \<open>Iterator adaptors\<close>

text \<open>\<^verbatim>\<open>Iterator::min_by_key\<close> returns the first of the minimal elements.\<close>

fun min_by_key :: "('a \<Rightarrow> 'b::linorder) \<Rightarrow> 'a list \<Rightarrow> 'a option" where
  "min_by_key f [] = None"
| "min_by_key f (x # xs) =
     (case min_by_key f xs of None \<Rightarrow> Some x | Some y \<Rightarrow> if f x \<le> f y then Some x else Some y)"

lemma min_by_key_None [simp]: "min_by_key f xs = None \<longleftrightarrow> xs = []"
  by (cases xs) (auto split: option.splits)

lemma min_by_key_in: "min_by_key f xs = Some y \<Longrightarrow> y \<in> set xs"
  by (induction xs arbitrary: y) (auto split: option.splits if_splits)

lemma min_by_key_le: "min_by_key f xs = Some y \<Longrightarrow> x \<in> set xs \<Longrightarrow> f y \<le> f x"
  by (induction xs arbitrary: y) (force split: option.splits if_splits)+

text \<open>The elements before the chosen one are all strictly larger: it is the first minimum.\<close>

lemma min_by_key_first:
  "min_by_key f xs = Some y \<Longrightarrow> \<exists>us vs. xs = us @ y # vs \<and> (\<forall>u \<in> set us. f y < f u)"
proof (induction xs arbitrary: y)
  case Nil
  then show ?case by simp
next
  case (Cons x xs)
  show ?case
  proof (cases "min_by_key f xs")
    case None
    with Cons.prems have "x # xs = [] @ y # xs" by simp
    then show ?thesis by (metis empty_iff empty_set)
  next
    case (Some z)
    from Cons.IH[OF Some] obtain us vs
      where xs: "xs = us @ z # vs" and lt: "\<forall>u \<in> set us. f z < f u" by blast
    show ?thesis
    proof (cases "f x \<le> f z")
      case True
      with Some Cons.prems have "x # xs = [] @ y # xs" by simp
      then show ?thesis by (metis empty_iff empty_set)
    next
      case False
      with Some Cons.prems have "y = z" by simp
      moreover have "x # xs = (x # us) @ z # vs" using xs by simp
      moreover have "\<forall>u \<in> set (x # us). f z < f u" using lt False by auto
      ultimately show ?thesis by blast
    qed
  qed
qed

text \<open>\<^verbatim>\<open>Vec::remove(iter().position(p))\<close>: drop the first element that satisfies \<open>p\<close>.\<close>

fun remove_first :: "('a \<Rightarrow> bool) \<Rightarrow> 'a list \<Rightarrow> 'a list" where
  "remove_first p [] = []"
| "remove_first p (x # xs) = (if p x then xs else x # remove_first p xs)"

lemma remove_first_absent: "\<forall>x \<in> set xs. \<not> p x \<Longrightarrow> remove_first p xs = xs"
  by (induction xs) auto

lemma set_remove_first_subset: "set (remove_first p xs) \<subseteq> set xs"
  by (induction xs) auto

lemma distinct_map_remove_first:
  "distinct (map f xs) \<Longrightarrow> distinct (map f (remove_first p xs))"
proof (induction xs)
  case (Cons x xs)
  then show ?case using set_remove_first_subset[of p xs] by auto
qed simp

lemma length_remove_first:
  "length (remove_first p xs) = (if \<exists>x \<in> set xs. p x then length xs - 1 else length xs)"
proof (induction xs)
  case (Cons x xs)
  show ?case
  proof (cases "p x \<or> (\<forall>y \<in> set xs. \<not> p y)")
    case True
    then show ?thesis using Cons by auto
  next
    case False
    then have "xs \<noteq> []" "\<exists>y \<in> set xs. p y" "\<not> p x" by auto
    then show ?thesis using Cons by (cases xs) auto
  qed
qed simp

lemma sum_list_remove_first:
  fixes f :: "'a \<Rightarrow> nat"
  assumes "find p xs = Some y"
  shows "sum_list (map f (remove_first p xs)) + f y = sum_list (map f xs)"
  using assms by (induction xs) (auto split: if_splits)

lemma find_Some_prop: "find p xs = Some y \<Longrightarrow> y \<in> set xs \<and> p y"
  by (auto simp: find_Some_iff)

lemma find_None_prop: "find p xs = None \<longleftrightarrow> (\<forall>x \<in> set xs. \<not> p x)"
  by (auto simp: find_None_iff)

lemma remove_first_key_unique:
  assumes "distinct (map f xs)" and "x \<in> set xs"
  shows "set (remove_first (\<lambda>y. f y = f x) xs) = set xs - {x}"
  using assms by (induction xs) (auto simp: remove_first_absent image_iff)

section \<open>Hash maps\<close>

type_synonym 'v smap = "(string \<times> 'v) list"

abbreviation wf_smap :: "'v smap \<Rightarrow> bool" where
  "wf_smap m \<equiv> distinct (map fst m)"

definition iter_order :: "('a list \<Rightarrow> 'a list) \<Rightarrow> bool" where
  "iter_order it \<longleftrightarrow> (\<forall>xs. mset (it xs) = mset xs)"

lemma iter_order_set [simp]: "iter_order it \<Longrightarrow> set (it xs) = set xs"
  by (metis iter_order_def set_mset_mset)

lemma iter_order_length [simp]: "iter_order it \<Longrightarrow> length (it xs) = length xs"
  by (metis iter_order_def size_mset)

lemma iter_order_Nil [simp]: "iter_order it \<Longrightarrow> it xs = [] \<longleftrightarrow> xs = []"
  by (metis iter_order_set set_empty)

lemma iter_order_id: "iter_order (\<lambda>xs. xs)"
  by (simp add: iter_order_def)

lemma iter_order_rev: "iter_order rev"
  by (simp add: iter_order_def)

lemmas smap_simps = AList.update_conv' AList.delete_conv' AList.distinct_update
  AList.distinct_delete

lemma smap_update_length:
  "length (AList.update k v m) = (if map_of m k = None then Suc (length m) else length m)"
  by (induction m) auto

lemma smap_delete_length:
  "wf_smap m \<Longrightarrow> map_of m k \<noteq> None \<Longrightarrow> Suc (length (AList.delete k m)) = length m"
proof (induction m)
  case (Cons p m)
  show ?case
  proof (cases "fst p = k")
    case True
    with Cons.prems have "k \<notin> fst ` set m" by auto
    then have "AList.delete k m = m" by simp
    then show ?thesis using True by (cases p) simp
  next
    case False
    then show ?thesis using Cons by (cases p) auto
  qed
qed simp

lemma smap_delete_absent: "map_of m k = None \<Longrightarrow> AList.delete k m = m"
  by (simp add: map_of_eq_None_iff)

lemma wf_smap_in: "wf_smap m \<Longrightarrow> (k, v) \<in> set m \<longleftrightarrow> map_of m k = Some v"
  by simp

lemma smap_in_Some: "(k, v) \<in> set m \<Longrightarrow> map_of m k \<noteq> None"
  by (metis option.distinct(1) weak_map_of_SomeI)

lemma smap_sum_update:
  fixes g :: "'v \<Rightarrow> nat"
  shows "sum_list (map (\<lambda>(k, v). g v) (AList.update k v' m)) +
      (case map_of m k of None \<Rightarrow> 0 | Some v \<Rightarrow> g v) = sum_list (map (\<lambda>(k, v). g v) m) + g v'"
  by (induction m) auto

lemma smap_sum_delete:
  fixes g :: "'v \<Rightarrow> nat"
  shows "wf_smap m \<Longrightarrow> sum_list (map (\<lambda>(k, v). g v) (AList.delete k m)) +
      (case map_of m k of None \<Rightarrow> 0 | Some v \<Rightarrow> g v) = sum_list (map (\<lambda>(k, v). g v) m)"
proof (induction m)
  case (Cons p m)
  obtain a v where p: "p = (a, v)" by (cases p)
  show ?case
  proof (cases "a = k")
    case True
    with Cons.prems p have "AList.delete k m = m" by simp
    with True p show ?thesis by simp
  next
    case False
    with Cons p show ?thesis by auto
  qed
qed simp

lemma smap_sum_ge:
  fixes g :: "'v \<Rightarrow> nat"
  shows "map_of m k = Some v \<Longrightarrow> g v \<le> sum_list (map (\<lambda>(k, v). g v) m)"
  by (induction m) (auto split: if_splits)

end
