(* ===== verification/Rust_Text.thy ===== *)
theory Rust_Text
  imports Elrond_Prelude
begin

text \<open>
  The part of Rust's \<^verbatim>\<open>str\<close> and integer parsing the program uses. A Rust string is the
  list of its UTF-8 bytes, each one an Isabelle \<open>char\<close>. Every delimiter the program looks for
  is ASCII, so cutting the byte list cuts at the same places as cutting the character sequence;
  white space and letter case are those of the ASCII range, which is what configuration files
  and HTTP fields hold (white space outside ASCII, such as U+00A0, is not modelled as such).

  \<^verbatim>\<open>str::parse::<uN>()\<close> takes an optional \<open>+\<close>, at least one decimal digit and
  nothing else, and fails on a value that does not fit; \<open>parse_uint b\<close> is that function for
  the type with \<open>b\<close> values.
\<close>

section \<open>Characters\<close>

definition is_whitespace :: "char \<Rightarrow> bool" where
  "is_whitespace c \<longleftrightarrow> c = CHR '' '' \<or> c = CHR 0x09 \<or> c = CHR 0x0A \<or> c = CHR 0x0B \<or>
     c = CHR 0x0C \<or> c = CHR 0x0D"

definition is_ascii_digit :: "char \<Rightarrow> bool" where
  "is_ascii_digit c \<longleftrightarrow> 48 \<le> (of_char c :: nat) \<and> (of_char c :: nat) \<le> 57"

definition is_ascii_alphanumeric :: "char \<Rightarrow> bool" where
  "is_ascii_alphanumeric c \<longleftrightarrow> (let n = of_char c :: nat in
     (48 \<le> n \<and> n \<le> 57) \<or> (65 \<le> n \<and> n \<le> 90) \<or> (97 \<le> n \<and> n \<le> 122))"

definition ascii_lower :: "char \<Rightarrow> char" where
  "ascii_lower c = (let n = of_char c :: nat in if 65 \<le> n \<and> n \<le> 90 then char_of (n + 32) else c)"

definition to_ascii_lowercase :: "string \<Rightarrow> string" where
  "to_ascii_lowercase s = map ascii_lower s"

definition eq_ignore_ascii_case :: "string \<Rightarrow> string \<Rightarrow> bool" where
  "eq_ignore_ascii_case a b \<longleftrightarrow> to_ascii_lowercase a = to_ascii_lowercase b"

lemma of_char_char_of_small: "n < 256 \<Longrightarrow> (of_char (char_of n :: char) :: nat) = n"
  by simp

lemma ascii_lower_idem [simp]: "ascii_lower (ascii_lower c) = ascii_lower c"
  by (auto simp: ascii_lower_def Let_def of_char_char_of_small)

lemma to_ascii_lowercase_idem [simp]:
  "to_ascii_lowercase (to_ascii_lowercase s) = to_ascii_lowercase s"
  by (simp add: to_ascii_lowercase_def)

section \<open>Prefixes, suffixes, trimming\<close>

fun strip_prefix :: "string \<Rightarrow> string \<Rightarrow> string option" where
  "strip_prefix [] s = Some s"
| "strip_prefix (p # ps) [] = None"
| "strip_prefix (p # ps) (c # s) = (if p = c then strip_prefix ps s else None)"

definition starts_with :: "string \<Rightarrow> string \<Rightarrow> bool" where
  "starts_with s p \<longleftrightarrow> strip_prefix p s \<noteq> None"

definition trim :: "string \<Rightarrow> string" where
  "trim s = rev (dropWhile is_whitespace (rev (dropWhile is_whitespace s)))"

definition trim_start_matches :: "char \<Rightarrow> string \<Rightarrow> string" where
  "trim_start_matches c s = dropWhile (\<lambda>x. x = c) s"

definition trim_end_matches :: "char \<Rightarrow> string \<Rightarrow> string" where
  "trim_end_matches c s = rev (dropWhile (\<lambda>x. x = c) (rev s))"

lemma strip_prefix_iff [str_simps]: "strip_prefix p s = Some r \<longleftrightarrow> s = p @ r"
  by (induction p s rule: strip_prefix.induct) auto

lemma strip_prefix_append [simp]: "strip_prefix p (p @ r) = Some r"
  by (simp add: strip_prefix_iff)

lemma starts_with_iff: "starts_with s p \<longleftrightarrow> (\<exists>r. s = p @ r)"
  by (auto simp: starts_with_def strip_prefix_iff)

lemma starts_with_take: "starts_with s p \<longleftrightarrow> take (length p) s = p"
  by (auto simp: starts_with_iff) (metis append_take_drop_id)

lemma dropWhile_id: "(\<forall>c \<in> set s. \<not> P c) \<Longrightarrow> dropWhile P s = s"
  by (cases s) auto

lemma trim_id: "(\<forall>c \<in> set s. \<not> is_whitespace c) \<Longrightarrow> trim s = s"
  by (simp add: trim_def dropWhile_id)

section \<open>Splitting\<close>

fun split_once :: "char \<Rightarrow> string \<Rightarrow> (string \<times> string) option" where
  "split_once c [] = None"
| "split_once c (x # xs) =
     (if x = c then Some ([], xs)
      else case split_once c xs of None \<Rightarrow> None | Some (a, b) \<Rightarrow> Some (x # a, b))"

fun split_once_str :: "string \<Rightarrow> string \<Rightarrow> (string \<times> string) option" where
  "split_once_str p [] = (if p = [] then Some ([], []) else None)"
| "split_once_str p (x # xs) =
     (case strip_prefix p (x # xs) of
        Some r \<Rightarrow> Some ([], r)
      | None \<Rightarrow> (case split_once_str p xs of None \<Rightarrow> None | Some (a, b) \<Rightarrow> Some (x # a, b)))"

fun split_char :: "char \<Rightarrow> string \<Rightarrow> string list" where
  "split_char c [] = [[]]"
| "split_char c (x # xs) =
     (if x = c then [] # split_char c xs
      else case split_char c xs of [] \<Rightarrow> [[x]] | y # ys \<Rightarrow> (x # y) # ys)"

lemma split_once_Some_iff [str_simps]:
  "split_once c s = Some (a, b) \<longleftrightarrow> s = a @ c # b \<and> c \<notin> set a"
proof (induction s arbitrary: a)
  case (Cons x xs)
  show ?case
  proof (cases "x = c")
    case True
    then show ?thesis by (cases a) auto
  next
    case False
    show ?thesis
    proof (cases a)
      case Nil
      then show ?thesis using False by (auto split: option.splits)
    next
      case (Cons y a')
      have "split_once c (x # xs) = Some (a, b) \<longleftrightarrow> x = y \<and> split_once c xs = Some (a', b)"
        using False Cons by (auto split: option.splits)
      also have "\<dots> \<longleftrightarrow> x = y \<and> xs = a' @ c # b \<and> c \<notin> set a'"
        by (simp only: Cons.IH)
      finally show ?thesis using False Cons by auto
    qed
  qed
qed simp

lemma split_once_None_iff: "split_once c s = None \<longleftrightarrow> c \<notin> set s"
  by (induction s) (auto split: option.splits)

lemma split_char_nonempty [simp]: "split_char c s \<noteq> []"
  by (induction s) (auto split: list.splits)

lemma split_char_no_delim: "p \<in> set (split_char c s) \<Longrightarrow> c \<notin> set p"
  by (induction s arbitrary: p) (auto split: list.splits if_splits)

lemma split_char_absent: "c \<notin> set s \<Longrightarrow> split_char c s = [s]"
  by (induction s) auto

lemma split_char_append: "c \<notin> set a \<Longrightarrow> split_char c (a @ c # b) = a # split_char c b"
  by (induction a) (auto split: list.splits)

definition replace_char :: "char \<Rightarrow> string \<Rightarrow> string \<Rightarrow> string" where
  "replace_char c r s = concat (map (\<lambda>x. if x = c then r else [x]) s)"

section \<open>Unsigned integers in decimal\<close>

definition digit_value :: "char \<Rightarrow> nat" where
  "digit_value c = of_char c - 48"

definition digit_char :: "nat \<Rightarrow> char" where
  "digit_char d = char_of (48 + d)"

definition digits_value :: "string \<Rightarrow> nat" where
  "digits_value s = foldl (\<lambda>n c. 10 * n + digit_value c) 0 s"

definition strip_plus :: "string \<Rightarrow> string" where
  "strip_plus s = (case s of [] \<Rightarrow> [] | c # r \<Rightarrow> if c = CHR ''+'' then r else s)"

definition parse_uint :: "nat \<Rightarrow> string \<Rightarrow> nat option" where
  "parse_uint bound s =
     (let ds = strip_plus s
      in if ds \<noteq> [] \<and> list_all is_ascii_digit ds \<and> digits_value ds < bound
         then Some (digits_value ds) else None)"

abbreviation parse_u8 :: "string \<Rightarrow> nat option" where "parse_u8 \<equiv> parse_uint (2 ^ 8)"
abbreviation parse_u16 :: "string \<Rightarrow> nat option" where "parse_u16 \<equiv> parse_uint (2 ^ 16)"
abbreviation parse_u32 :: "string \<Rightarrow> nat option" where "parse_u32 \<equiv> parse_uint (2 ^ 32)"
abbreviation parse_u64 :: "string \<Rightarrow> nat option" where "parse_u64 \<equiv> parse_uint (2 ^ 64)"
abbreviation parse_usize :: "string \<Rightarrow> nat option" where "parse_usize \<equiv> parse_uint (2 ^ 64)"

fun show_nat :: "nat \<Rightarrow> string" where
  "show_nat n = (if n < 10 then [digit_char n] else show_nat (n div 10) @ [digit_char (n mod 10)])"

declare show_nat.simps [simp del]

lemma parse_uint_bound: "parse_uint b s = Some n \<Longrightarrow> n < b"
  by (auto simp: parse_uint_def Let_def split: if_splits)

lemma digit_char_props:
  "d < 10 \<Longrightarrow> is_ascii_digit (digit_char d)"
  "d < 10 \<Longrightarrow> digit_value (digit_char d) = d"
  by (simp_all add: is_ascii_digit_def digit_char_def digit_value_def)

lemma digits_value_snoc: "digits_value (s @ [c]) = 10 * digits_value s + digit_value c"
  by (simp add: digits_value_def)

lemma show_nat_nonempty [simp]: "show_nat n \<noteq> []"
  by (subst show_nat.simps) simp

lemma show_nat_digits: "list_all is_ascii_digit (show_nat n)"
proof (induction n rule: show_nat.induct)
  case (1 n)
  show ?case
  proof (cases "n < 10")
    case True
    then show ?thesis by (subst show_nat.simps) (simp add: digit_char_props)
  next
    case False
    with 1 show ?thesis by (subst show_nat.simps) (simp add: digit_char_props)
  qed
qed

lemma digits_value_show_nat [simp]: "digits_value (show_nat n) = n"
proof (induction n rule: show_nat.induct)
  case (1 n)
  show ?case
  proof (cases "n < 10")
    case True
    then show ?thesis
      by (subst show_nat.simps) (simp add: digits_value_def digit_char_props)
  next
    case False
    with 1 show ?thesis
      by (subst show_nat.simps) (simp add: digits_value_snoc digit_char_props)
  qed
qed

lemma plus_not_digit: "\<not> is_ascii_digit CHR ''+''"
  by (simp add: is_ascii_digit_def)

lemma strip_plus_digits: "list_all is_ascii_digit s \<Longrightarrow> strip_plus s = s"
  by (auto simp: strip_plus_def plus_not_digit split: list.splits)

lemma parse_uint_show_nat: "n < b \<Longrightarrow> parse_uint b (show_nat n) = Some n"
  by (simp add: parse_uint_def Let_def strip_plus_digits show_nat_digits)

text \<open>\<^verbatim>\<open>s.find(|c| !c.is_ascii_digit()).map(|i| s.split_at(i))\<close>.\<close>

definition split_number :: "string \<Rightarrow> (string \<times> string) option" where
  "split_number s =
     (if list_all is_ascii_digit s then None
      else Some (takeWhile is_ascii_digit s, dropWhile is_ascii_digit s))"

lemma split_number_show_nat:
  assumes "u \<noteq> []" and "\<not> is_ascii_digit (hd u)"
  shows "split_number (show_nat n @ u) = Some (show_nat n, u)"
proof -
  have all: "\<forall>c \<in> set (show_nat n). is_ascii_digit c"
    using show_nat_digits[of n] by (simp add: list_all_iff)
  have "\<not> list_all is_ascii_digit (show_nat n @ u)"
    using assms by (cases u) auto
  moreover have "takeWhile is_ascii_digit (show_nat n @ u) = show_nat n"
    using all assms by (cases u) (simp_all add: takeWhile_append)
  moreover have "dropWhile is_ascii_digit (show_nat n @ u) = u"
    using all assms by (cases u) (simp_all add: dropWhile_append)
  ultimately show ?thesis by (simp add: split_number_def)
qed

lemma parse_uint_with_unit:
  assumes "u \<noteq> []" and "\<not> is_ascii_digit (hd u)"
  shows "parse_uint b (show_nat n @ u) = None"
proof -
  obtain d ds where dn: "show_nat n = d # ds" using show_nat_nonempty[of n] by (cases "show_nat n") auto
  have "d \<noteq> CHR ''+''" using show_nat_digits[of n] plus_not_digit dn by auto
  then have "strip_plus (show_nat n @ u) = show_nat n @ u" by (simp add: strip_plus_def dn)
  moreover have "\<not> list_all is_ascii_digit (show_nat n @ u)" using assms by (cases u) auto
  ultimately show ?thesis by (simp only: parse_uint_def Let_def) simp
qed

end
