(* ===== verification/Std_Net.thy ===== *)
theory Std_Net
  imports Rust_Text
begin

text \<open>
  The part of \<^verbatim>\<open>std::net\<close> the program uses: IP addresses as their octets, their textual form
  and the parsers behind \<^verbatim>\<open>str::parse::<IpAddr>()\<close> and \<^verbatim>\<open>str::parse::<SocketAddr>()\<close>. The
  standard library's parser is a sequence of readers that consume a prefix of the input or leave
  it untouched; a reader here returns the value and the rest, or \<open>None\<close>.
\<close>

section \<open>Addresses\<close>

datatype ip_addr = V4 "u8 list" | V6 "u8 list"

fun octets :: "ip_addr \<Rightarrow> u8 list" where
  "octets (V4 os) = os"
| "octets (V6 os) = os"

fun wf_ip :: "ip_addr \<Rightarrow> bool" where
  "wf_ip (V4 os) \<longleftrightarrow> length os = 4"
| "wf_ip (V6 os) \<longleftrightarrow> length os = 16"

record socket_addr =
  sa_ip :: ip_addr
  sa_port :: nat

fun segments :: "u8 list \<Rightarrow> nat list" where
  "segments (a # b # os) = (unat a * 256 + unat b) # segments os"
| "segments os = []"

definition segment_octets :: "nat \<Rightarrow> u8 list" where
  "segment_octets n = [of_nat (n div 256), of_nat (n mod 256)]"

section \<open>Readers\<close>

definition read_given_char :: "char \<Rightarrow> string \<Rightarrow> string option" where
  "read_given_char c s = (case s of [] \<Rightarrow> None | x # r \<Rightarrow> if x = c then Some r else None)"

definition hex_value :: "char \<Rightarrow> nat option" where
  "hex_value c = (let n = of_char c :: nat in
     if 48 \<le> n \<and> n \<le> 57 then Some (n - 48)
     else if 97 \<le> n \<and> n \<le> 102 then Some (n - 87)
     else if 65 \<le> n \<and> n \<le> 70 then Some (n - 55) else None)"

definition to_digit :: "nat \<Rightarrow> char \<Rightarrow> nat option" where
  "to_digit radix c = (case hex_value c of None \<Rightarrow> None | Some d \<Rightarrow> if d < radix then Some d else None)"

definition read_number :: "nat \<Rightarrow> nat option \<Rightarrow> bool \<Rightarrow> nat \<Rightarrow> string \<Rightarrow> (nat \<times> string) option" where
  "read_number radix max_digits allow_zero_prefix bound s =
     (let ds = takeWhile (\<lambda>c. to_digit radix c \<noteq> None) s;
          n = foldl (\<lambda>a c. radix * a + the (to_digit radix c)) 0 ds
      in if ds = [] \<or> (case max_digits of None \<Rightarrow> False | Some k \<Rightarrow> k < length ds) \<or>
            (\<not> allow_zero_prefix \<and> hd ds = CHR ''0'' \<and> 1 < length ds) \<or> bound \<le> n
         then None else Some (n, dropWhile (\<lambda>c. to_digit radix c \<noteq> None) s))"

definition read_separator :: "char \<Rightarrow> nat \<Rightarrow> (string \<Rightarrow> 'a option) \<Rightarrow> string \<Rightarrow> 'a option" where
  "read_separator sep index inner s =
     (if 0 < index then (case read_given_char sep s of None \<Rightarrow> None | Some r \<Rightarrow> inner r) else inner s)"

fun read_octets :: "nat \<Rightarrow> nat \<Rightarrow> string \<Rightarrow> (u8 list \<times> string) option" where
  "read_octets i 0 s = Some ([], s)"
| "read_octets i (Suc k) s =
     (case read_separator (CHR ''.'') i (read_number 10 (Some 3) False 256) s of
        None \<Rightarrow> None
      | Some (n, r) \<Rightarrow> map_option (\<lambda>(os, r'). (of_nat n # os, r')) (read_octets (i + 1) k r))"

definition read_ipv4_addr :: "string \<Rightarrow> (u8 list \<times> string) option" where
  "read_ipv4_addr s = read_octets 0 4 s"

text \<open>The 16-bit groups of an IPv6 address from index \<open>i\<close> with \<open>k\<close> slots left: the octets
  read, whether they end in an embedded IPv4 address, and the rest.\<close>

fun read_groups :: "nat \<Rightarrow> nat \<Rightarrow> string \<Rightarrow> u8 list \<times> bool \<times> string" where
  "read_groups i 0 s = ([], False, s)"
| "read_groups i (Suc k) s =
     (case (if 0 < k then read_separator (CHR '':'') i read_ipv4_addr s else None) of
        Some (os, r) \<Rightarrow> (os, True, r)
      | None \<Rightarrow>
          (case read_separator (CHR '':'') i (read_number 16 (Some 4) True 65536) s of
             None \<Rightarrow> ([], False, s)
           | Some (g, r) \<Rightarrow>
               (let (os, v4, r') = read_groups (i + 1) k r in (segment_octets g @ os, v4, r'))))"

definition read_ipv6_addr :: "string \<Rightarrow> (u8 list \<times> string) option" where
  "read_ipv6_addr s =
     (let (hd_os, hd_v4, r) = read_groups 0 8 s
      in if length hd_os = 16 then Some (hd_os, r)
         else if hd_v4 then None
         else case read_given_char (CHR '':'') r of
                None \<Rightarrow> None
              | Some r1 \<Rightarrow>
                  (case read_given_char (CHR '':'') r1 of
                     None \<Rightarrow> None
                   | Some r2 \<Rightarrow>
                       (let (tl_os, _, r3) = read_groups 0 (8 - (length hd_os div 2 + 1)) r2
                        in Some (hd_os @ replicate (16 - length hd_os - length tl_os) 0 @ tl_os, r3))))"

definition read_ip_addr :: "string \<Rightarrow> (ip_addr \<times> string) option" where
  "read_ip_addr s =
     (case read_ipv4_addr s of
        Some (os, r) \<Rightarrow> Some (V4 os, r)
      | None \<Rightarrow> map_option (\<lambda>(os, r). (V6 os, r)) (read_ipv6_addr s))"

definition parse_ip_addr :: "string \<Rightarrow> ip_addr option" where
  "parse_ip_addr s =
     (case read_ip_addr s of None \<Rightarrow> None | Some (ip, r) \<Rightarrow> if r = [] then Some ip else None)"

definition read_port :: "string \<Rightarrow> (nat \<times> string) option" where
  "read_port s =
     (case read_given_char (CHR '':'') s of None \<Rightarrow> None | Some r \<Rightarrow> read_number 10 None True 65536 r)"

definition read_scope_id :: "string \<Rightarrow> string" where
  "read_scope_id s =
     (case read_given_char (CHR ''%'') s of
        None \<Rightarrow> s
      | Some r \<Rightarrow> (case read_number 10 None True (2 ^ 32) r of None \<Rightarrow> s | Some (_, r') \<Rightarrow> r'))"

definition read_socket_addr_v4 :: "string \<Rightarrow> (socket_addr \<times> string) option" where
  "read_socket_addr_v4 s =
     (case read_ipv4_addr s of
        None \<Rightarrow> None
      | Some (os, r) \<Rightarrow> map_option (\<lambda>(p, r'). (\<lparr>sa_ip = V4 os, sa_port = p\<rparr>, r')) (read_port r))"

definition read_socket_addr_v6 :: "string \<Rightarrow> (socket_addr \<times> string) option" where
  "read_socket_addr_v6 s =
     (case read_given_char (CHR ''['') s of
        None \<Rightarrow> None
      | Some r \<Rightarrow>
          (case read_ipv6_addr r of
             None \<Rightarrow> None
           | Some (os, r1) \<Rightarrow>
               (case read_given_char (CHR '']'') (read_scope_id r1) of
                  None \<Rightarrow> None
                | Some r2 \<Rightarrow>
                    map_option (\<lambda>(p, r'). (\<lparr>sa_ip = V6 os, sa_port = p\<rparr>, r')) (read_port r2))))"

definition parse_socket_addr :: "string \<Rightarrow> socket_addr option" where
  "parse_socket_addr s =
     (case (case read_socket_addr_v4 s of None \<Rightarrow> read_socket_addr_v6 s | Some x \<Rightarrow> Some x) of
        None \<Rightarrow> None
      | Some (a, r) \<Rightarrow> if r = [] then Some a else None)"

section \<open>Textual form\<close>

fun show_hex :: "nat \<Rightarrow> string" where
  "show_hex n =
     (let d = n mod 16; c = (if d < 10 then char_of (48 + d) else char_of (87 + d))
      in if n < 16 then [c] else show_hex (n div 16) @ [c])"

declare show_hex.simps [simp del]

fun join_with :: "string \<Rightarrow> string list \<Rightarrow> string" where
  "join_with sep [] = []"
| "join_with sep [x] = x"
| "join_with sep (x # xs) = x @ sep @ join_with sep xs"

definition show_ipv4 :: "u8 list \<Rightarrow> string" where
  "show_ipv4 os = join_with ''.'' (map (\<lambda>b. show_nat (unat b)) os)"

text \<open>The longest run of zero segments, the first one when there are several: its start and
  length.\<close>

fun zero_run :: "nat list \<Rightarrow> nat" where
  "zero_run (0 # xs) = Suc (zero_run xs)"
| "zero_run xs = 0"

fun longest_zero_run :: "nat \<Rightarrow> nat list \<Rightarrow> nat \<times> nat" where
  "longest_zero_run i [] = (0, 0)"
| "longest_zero_run i (x # xs) =
     (let n = zero_run (x # xs); (j, m) = longest_zero_run (i + 1) xs
      in if 0 < n \<and> m \<le> n then (i, n) else (j, m))"

definition show_ipv6 :: "u8 list \<Rightarrow> string" where
  "show_ipv6 os =
     (let ss = segments os
      in if take 10 os = replicate 10 0 \<and> drop 10 (take 12 os) = [255, 255]
         then ''::ffff:'' @ show_ipv4 (drop 12 os)
         else let (i, n) = longest_zero_run 0 ss
              in if 1 < n
                 then join_with '':'' (map show_hex (take i ss)) @ ''::'' @
                      join_with '':'' (map show_hex (drop (i + n) ss))
                 else join_with '':'' (map show_hex ss))"

fun show_ip :: "ip_addr \<Rightarrow> string" where
  "show_ip (V4 os) = show_ipv4 os"
| "show_ip (V6 os) = show_ipv6 os"

section \<open>Every parsed address is well-formed\<close>

lemma read_octets_length: "read_octets i k s = Some (os, r) \<Longrightarrow> length os = k"
  by (induction k arbitrary: i s os) (auto split: option.splits)

lemma segment_octets_length [simp]: "length (segment_octets n) = 2"
  by (simp add: segment_octets_def)

lemma read_groups_length: "read_groups i k s = (os, v4, r) \<Longrightarrow> length os \<le> 2 * k"
proof (induction k arbitrary: i s os v4 r)
  case (Suc k)
  show ?case
  proof (cases "if 0 < k then read_separator (CHR '':'') i read_ipv4_addr s else None")
    case (Some p)
    obtain os' r' where p: "p = (os', r')" by (cases p)
    with Some have k: "0 < k" and "\<exists>t. read_ipv4_addr t = Some (os', r')"
      by (auto simp: read_separator_def split: if_splits option.splits)
    then have "length os' = 4" by (auto simp: read_ipv4_addr_def dest: read_octets_length)
    with Suc.prems Some p k show ?thesis by simp
  next
    case None
    show ?thesis
    proof (cases "read_separator (CHR '':'') i (read_number 16 (Some 4) True 65536) s")
      case N2: None
      with None Suc.prems show ?thesis by simp
    next
      case (Some q)
      obtain g r1 where q: "q = (g, r1)" by (cases q)
      obtain os1 v1 r2 where g: "read_groups (i + 1) k r1 = (os1, v1, r2)"
        by (cases "read_groups (i + 1) k r1")
      from Suc.IH[OF g] Suc.prems None Some q g show ?thesis by auto
    qed
  qed
qed simp

lemma read_ipv6_length: "read_ipv6_addr s = Some (os, r) \<Longrightarrow> length os = 16"
proof -
  assume a: "read_ipv6_addr s = Some (os, r)"
  obtain h v r0 where h: "read_groups 0 8 s = (h, v, r0)" by (cases "read_groups 0 8 s")
  have le: "length h \<le> 16" using read_groups_length[OF h] by simp
  show ?thesis
  proof (cases "length h = 16")
    case True
    with a h show ?thesis by (simp add: read_ipv6_addr_def)
  next
    case False
    with a h obtain t w r1 r2 where
      t: "read_groups 0 (8 - (length h div 2 + 1)) r2 = (t, w, r1)"
      and os: "os = h @ replicate (16 - length h - length t) 0 @ t"
      by (auto simp: read_ipv6_addr_def Let_def split: if_splits option.splits prod.splits)
    have "length t \<le> 16 - length h" using read_groups_length[OF t] le False by auto
    then show ?thesis using os le by simp
  qed
qed

lemma parse_ip_addr_wf: "parse_ip_addr s = Some ip \<Longrightarrow> wf_ip ip"
  using read_octets_length[of 0 4 s] read_ipv6_length[of s]
  by (fastforce simp: parse_ip_addr_def read_ip_addr_def read_ipv4_addr_def
      split: option.splits if_splits)

end
