(* ===== verification/Http_Types.thy ===== *)
theory Http_Types
  imports Std_Net
begin

text \<open>
  The vocabulary of the \<^verbatim>\<open>http\<close> crate the program is written against. The crate is not part
  of the program, so its operations are arguments: \<open>header_ops\<close> collects the operations on a
  header map, of an arbitrary type, and the conversions of names and values, and
  \<open>header_laws\<close> states what the crate documents of them. A header value is the list of its
  bytes. A \<^verbatim>\<open>Uri\<close> is known by what its accessors return, a \<^verbatim>\<open>Method\<close> by its name, a
  \<^verbatim>\<open>StatusCode\<close> by its number.

  \<open>list_headers\<close> is an instance of the interface over plain lists; it shows that the laws can
  hold and lets the examples compute.
\<close>

record 'h header_ops =
  hm_empty :: 'h
  hm_get_all :: "'h \<Rightarrow> string \<Rightarrow> string list"
  hm_get :: "'h \<Rightarrow> string \<Rightarrow> string option"
  hm_contains_key :: "'h \<Rightarrow> string \<Rightarrow> bool"
  hm_insert :: "'h \<Rightarrow> string \<Rightarrow> string \<Rightarrow> 'h"
  hm_append :: "'h \<Rightarrow> string \<Rightarrow> string \<Rightarrow> 'h"
  hm_remove :: "'h \<Rightarrow> string \<Rightarrow> 'h"
  hm_iter :: "'h \<Rightarrow> (string \<times> string) list"
  hv_to_str :: "string \<Rightarrow> string option"
  hv_from_str :: "string \<Rightarrow> string option"
  hn_from_str :: "string \<Rightarrow> string option"

text \<open>The documented behaviour: names compare without regard to ASCII case, \<^verbatim>\<open>insert\<close> replaces
  all values of a name, \<^verbatim>\<open>append\<close> adds one at the end, \<^verbatim>\<open>remove\<close> drops all,
  \<^verbatim>\<open>get\<close> returns the first, iteration yields exactly the values present, the conversions do not
  alter the text they accept, and only visible characters convert to text.\<close>

definition header_laws :: "'h header_ops \<Rightarrow> bool" where
  "header_laws H \<longleftrightarrow>
     (\<forall>n. hm_get_all H (hm_empty H) n = []) \<and>
     (\<forall>h n. hm_get H h n = (case hm_get_all H h n of [] \<Rightarrow> None | v # _ \<Rightarrow> Some v)) \<and>
     (\<forall>h n. hm_contains_key H h n \<longleftrightarrow> hm_get_all H h n \<noteq> []) \<and>
     (\<forall>h n v m. hm_get_all H (hm_insert H h n v) m =
        (if eq_ignore_ascii_case n m then [v] else hm_get_all H h m)) \<and>
     (\<forall>h n v m. hm_get_all H (hm_append H h n v) m =
        (if eq_ignore_ascii_case n m then hm_get_all H h m @ [v] else hm_get_all H h m)) \<and>
     (\<forall>h n m. hm_get_all H (hm_remove H h n) m =
        (if eq_ignore_ascii_case n m then [] else hm_get_all H h m)) \<and>
     (\<forall>h n. map snd (filter (\<lambda>(k, v). eq_ignore_ascii_case k n) (hm_iter H h)) = hm_get_all H h n) \<and>
     (\<forall>v s. hv_to_str H v = Some s \<longrightarrow> s = v \<and> CHR 0x00 \<notin> set s) \<and>
     (\<forall>s v. hv_from_str H s = Some v \<longrightarrow> v = s) \<and>
     (\<forall>s n. hn_from_str H s = Some n \<longrightarrow> eq_ignore_ascii_case n s)"

lemma header_lawsD:
  assumes "header_laws H"
  shows "hm_get_all H (hm_empty H) n = []"
    and "hm_get H h n = (case hm_get_all H h n of [] \<Rightarrow> None | v # _ \<Rightarrow> Some v)"
    and "hm_contains_key H h n \<longleftrightarrow> hm_get_all H h n \<noteq> []"
    and "hm_get_all H (hm_insert H h n v) m =
           (if eq_ignore_ascii_case n m then [v] else hm_get_all H h m)"
    and "hm_get_all H (hm_append H h n v) m =
           (if eq_ignore_ascii_case n m then hm_get_all H h m @ [v] else hm_get_all H h m)"
    and "hm_get_all H (hm_remove H h n) m =
           (if eq_ignore_ascii_case n m then [] else hm_get_all H h m)"
    and "map snd (filter (\<lambda>(k, v). eq_ignore_ascii_case k n) (hm_iter H h)) = hm_get_all H h n"
    and "hv_to_str H v = Some s \<Longrightarrow> s = v \<and> CHR 0x00 \<notin> set s"
    and "hv_from_str H s = Some v \<Longrightarrow> v = s"
    and "hn_from_str H s = Some k \<Longrightarrow> eq_ignore_ascii_case k s"
  using assms by (simp_all add: header_laws_def)

lemma eq_ignore_ascii_case_refl [simp]: "eq_ignore_ascii_case n n"
  by (simp add: eq_ignore_ascii_case_def)

lemma eq_ignore_ascii_case_sym: "eq_ignore_ascii_case a b \<longleftrightarrow> eq_ignore_ascii_case b a"
  by (auto simp: eq_ignore_ascii_case_def)

lemma eq_ignore_ascii_case_trans:
  "eq_ignore_ascii_case a b \<Longrightarrow> eq_ignore_ascii_case b c \<longleftrightarrow> eq_ignore_ascii_case a c"
  by (auto simp: eq_ignore_ascii_case_def)

record http_uri =
  u_path :: string
  u_query :: "string option"
  u_path_and_query :: "string option"
  u_authority :: "string option"

text \<open>A response with a buffered body, and \<^verbatim>\<open>body::text\<close>, the constructor of the plain-text
  answers the program gives by itself (\<^verbatim>\<open>src/src/body.rs\<close>).\<close>

record 'h response =
  rs_status :: nat
  rs_headers :: 'h
  rs_body :: string

definition text_response :: "'h header_ops \<Rightarrow> nat \<Rightarrow> string \<Rightarrow> 'h response" where
  "text_response H status body =
     \<lparr>rs_status = status,
      rs_headers = hm_append H (hm_empty H) ''content-type'' ''text/plain; charset=utf-8'',
      rs_body = body\<rparr>"

section \<open>An instance of the header interface\<close>

type_synonym header_list = "(string \<times> string) list"

definition visible_ascii :: "string \<Rightarrow> bool" where
  "visible_ascii s \<longleftrightarrow>
     list_all (\<lambda>c. (32 \<le> (of_char c :: nat) \<and> (of_char c :: nat) < 127) \<or> c = CHR 0x09) s"

definition list_headers :: "header_list header_ops" where
  "list_headers = \<lparr>
     hm_empty = [],
     hm_get_all = (\<lambda>h n. map snd (filter (\<lambda>(k, v). eq_ignore_ascii_case k n) h)),
     hm_get = (\<lambda>h n. map_option snd (find (\<lambda>(k, v). eq_ignore_ascii_case k n) h)),
     hm_contains_key = (\<lambda>h n. list_ex (\<lambda>(k, v). eq_ignore_ascii_case k n) h),
     hm_insert = (\<lambda>h n v. filter (\<lambda>(k, v). \<not> eq_ignore_ascii_case k n) h @ [(n, v)]),
     hm_append = (\<lambda>h n v. h @ [(n, v)]),
     hm_remove = (\<lambda>h n. filter (\<lambda>(k, v). \<not> eq_ignore_ascii_case k n) h),
     hm_iter = (\<lambda>h. h),
     hv_to_str = (\<lambda>v. if visible_ascii v then Some v else None),
     hv_from_str = (\<lambda>s. if visible_ascii s then Some s else None),
     hn_from_str = (\<lambda>s. if s \<noteq> [] \<and> list_all (\<lambda>c. is_ascii_alphanumeric c \<or> c = CHR ''-'') s
                       then Some (to_ascii_lowercase s) else None)\<rparr>"

lemma filter_names_neg:
  "filter (\<lambda>(k, v). eq_ignore_ascii_case k m) (filter (\<lambda>(k, v). \<not> eq_ignore_ascii_case k n) h) =
   (if eq_ignore_ascii_case n m then [] else filter (\<lambda>(k, v). eq_ignore_ascii_case k m) h)"
  by (induction h) (auto simp: eq_ignore_ascii_case_def)

lemma find_as_filter:
  "map_option f (find P xs) = (case map f (filter P xs) of [] \<Rightarrow> None | v # _ \<Rightarrow> Some v)"
  by (induction xs) auto

lemma list_headers_laws: "header_laws list_headers"
  unfolding header_laws_def
proof (intro conjI allI impI)
  fix h :: header_list and n v m s :: string
  let ?F = "filter (\<lambda>(k, v). eq_ignore_ascii_case k m)"
  show "hm_get list_headers h n =
      (case hm_get_all list_headers h n of [] \<Rightarrow> None | v # _ \<Rightarrow> Some v)"
    by (simp add: list_headers_def find_as_filter)
  show "hm_contains_key list_headers h n \<longleftrightarrow> hm_get_all list_headers h n \<noteq> []"
    by (auto simp: list_headers_def list_ex_iff filter_empty_conv)
  show "hm_get_all list_headers (hm_insert list_headers h n v) m =
      (if eq_ignore_ascii_case n m then [v] else hm_get_all list_headers h m)"
    by (simp add: list_headers_def filter_names_neg del: filter_filter)
  show "hm_get_all list_headers (hm_remove list_headers h n) m =
      (if eq_ignore_ascii_case n m then [] else hm_get_all list_headers h m)"
    by (simp add: list_headers_def filter_names_neg del: filter_filter)
qed (auto simp: list_headers_def eq_ignore_ascii_case_def visible_ascii_def list_all_iff
    split: if_splits)

end
