(* ===== verification/Request_Ctx.thy ===== *)
theory Request_Ctx
  imports Http_Types
begin

text \<open>
  The per-request context of the variable engine (\<^verbatim>\<open>src/src/request_ctx.rs\<close>): the record of
  the request's parts, the lookups of a header, a query argument, a cookie and a user variable, and
  the decoder of percent-encoded query values. \<open>from_utf8_lossy\<close> is the standard library's
  conversion, which replaces each maximal invalid byte sequence by U+FFFD.

  Shown here: decoding undoes percent-encoding of any byte string, and looking up an argument in a
  query string written from a list of pairs finds the first pair with that name.
\<close>

section \<open>The context\<close>

record 'h request_ctx =
  ctx_peer :: socket_addr
  ctx_server_name :: "string option"
  ctx_method :: string
  ctx_uri :: http_uri
  ctx_headers :: 'h
  ctx_scheme :: string
  ctx_user_vars :: "string smap"

definition user_var :: "'h request_ctx \<Rightarrow> string \<Rightarrow> string option" where
  "user_var ctx name = map_of (ctx_user_vars ctx) name"

definition header :: "'h header_ops \<Rightarrow> 'h request_ctx \<Rightarrow> string \<Rightarrow> string option" where
  "header H ctx name = Option.bind (hm_get H (ctx_headers ctx) name) (hv_to_str H)"

definition host :: "'h header_ops \<Rightarrow> 'h request_ctx \<Rightarrow> string" where
  "host H ctx =
     (case Option.bind (hm_get H (ctx_headers ctx) ''host'') (hv_to_str H) of
        Some v \<Rightarrow> v
      | None \<Rightarrow>
          (case u_authority (ctx_uri ctx) of
             Some authority \<Rightarrow> authority
           | None \<Rightarrow> (case ctx_server_name ctx of None \<Rightarrow> [] | Some s \<Rightarrow> s)))"

definition request_uri :: "'h request_ctx \<Rightarrow> string" where
  "request_uri ctx =
     (case u_path_and_query (ctx_uri ctx) of Some p \<Rightarrow> p | None \<Rightarrow> u_path (ctx_uri ctx))"

section \<open>UTF-8\<close>

definition continuation :: "char \<Rightarrow> bool" where
  "continuation c \<longleftrightarrow> 128 \<le> (of_char c :: nat) \<and> (of_char c :: nat) \<le> 191"

definition replacement :: string where
  "replacement = [char_of (239 :: nat), char_of (191 :: nat), char_of (189 :: nat)]"

text \<open>The length of the sequence a lead byte starts, 0 for a byte that starts none, and whether the
  second byte is allowed after it.\<close>

definition utf8_char_width :: "char \<Rightarrow> nat" where
  "utf8_char_width c = (let n = of_char c :: nat in
     if n < 128 then 1 else if 194 \<le> n \<and> n \<le> 223 then 2 else if 224 \<le> n \<and> n \<le> 239 then 3
     else if 240 \<le> n \<and> n \<le> 244 then 4 else 0)"

definition second_ok :: "char \<Rightarrow> char \<Rightarrow> bool" where
  "second_ok c d \<longleftrightarrow> (let n = of_char c :: nat; m = of_char d :: nat in
     continuation d \<and> (n = 224 \<longrightarrow> 160 \<le> m) \<and> (n = 237 \<longrightarrow> m \<le> 159) \<and>
     (n = 240 \<longrightarrow> 144 \<le> m) \<and> (n = 244 \<longrightarrow> m \<le> 143))"

text \<open>How many of the bytes after a lead byte belong to its sequence, up to the \<open>k\<close> it wants.\<close>

definition good_tail :: "char \<Rightarrow> nat \<Rightarrow> string \<Rightarrow> nat" where
  "good_tail c k cs =
     (case cs of
        [] \<Rightarrow> 0
      | d # ds \<Rightarrow>
          if k = 0 \<or> \<not> second_ok c d then 0 else 1 + length (takeWhile continuation (take (k - 1) ds)))"

fun from_utf8_lossy :: "string \<Rightarrow> string" where
  "from_utf8_lossy [] = []"
| "from_utf8_lossy (c # cs) =
     (let w = utf8_char_width c; n = good_tail c (w - 1) cs
      in if 0 < w \<and> n = w - 1 then c # take n cs @ from_utf8_lossy (drop n cs)
         else replacement @ from_utf8_lossy (drop n cs))"

section \<open>Percent decoding\<close>

definition hex_digit :: "char \<Rightarrow> nat option" where
  "hex_digit b = (let n = of_char b :: nat in
     if 48 \<le> n \<and> n \<le> 57 then Some (n - 48)
     else if 97 \<le> n \<and> n \<le> 102 then Some (n - 97 + 10)
     else if 65 \<le> n \<and> n \<le> 70 then Some (n - 65 + 10)
     else None)"

text \<open>The bytes \<^verbatim>\<open>out\<close> collects. Both digits are below 16, so \<^verbatim>\<open>(h << 4) | l\<close> is
  \<open>16 * h + l\<close>.\<close>

fun percent_decode_bytes :: "string \<Rightarrow> string" where
  "percent_decode_bytes [] = []"
| "percent_decode_bytes (b # bs) =
     (if b = CHR ''+'' then CHR '' '' # percent_decode_bytes bs
      else if b = CHR 0x25 then
        (case bs of
           x # y # rest \<Rightarrow>
             (case (hex_digit x, hex_digit y) of
                (Some h, Some l) \<Rightarrow> char_of (16 * h + l) # percent_decode_bytes rest
              | _ \<Rightarrow> b # percent_decode_bytes bs)
         | _ \<Rightarrow> b # percent_decode_bytes bs)
      else b # percent_decode_bytes bs)"

definition percent_decode :: "string \<Rightarrow> string" where
  "percent_decode s = from_utf8_lossy (percent_decode_bytes s)"

section \<open>Query arguments and cookies\<close>

definition query_pair :: "string \<Rightarrow> string \<times> string" where
  "query_pair pair = (case split_once (CHR ''='') pair of Some kv \<Rightarrow> kv | None \<Rightarrow> (pair, []))"

fun find_arg :: "string \<Rightarrow> string list \<Rightarrow> string option" where
  "find_arg name [] = None"
| "find_arg name (pair # ps) =
     (let (k, v) = query_pair pair in if k = name then Some (percent_decode v) else find_arg name ps)"

definition query_arg :: "'h request_ctx \<Rightarrow> string \<Rightarrow> string option" where
  "query_arg ctx name =
     (case u_query (ctx_uri ctx) of None \<Rightarrow> None | Some q \<Rightarrow> find_arg name (split_char (CHR ''&'') q))"

fun find_cookie :: "string \<Rightarrow> string list \<Rightarrow> string option" where
  "find_cookie name [] = None"
| "find_cookie name (kv # kvs) =
     (case split_once (CHR ''='') (trim kv) of
        Some (k, v) \<Rightarrow> if k = name then Some v else find_cookie name kvs
      | None \<Rightarrow> find_cookie name kvs)"

definition cookie :: "'h header_ops \<Rightarrow> 'h request_ctx \<Rightarrow> string \<Rightarrow> string option" where
  "cookie H ctx name =
     (case header H ctx ''cookie'' of
        None \<Rightarrow> None
      | Some raw \<Rightarrow> find_cookie name (split_char (CHR '';'') raw))"

section \<open>Decoding undoes encoding\<close>

definition hex_char :: "nat \<Rightarrow> char" where
  "hex_char d = (if d < 10 then char_of (48 + d) else char_of (55 + d))"

definition url_encode_byte :: "char \<Rightarrow> string" where
  "url_encode_byte c =
     (if is_ascii_alphanumeric c then [c]
      else [CHR 0x25, hex_char (of_char c div 16), hex_char (of_char c mod 16)])"

definition url_encode :: "string \<Rightarrow> string" where
  "url_encode s = concat (map url_encode_byte s)"

lemma hex_digit_hex_char: "d < 16 \<Longrightarrow> hex_digit (hex_char d) = Some d"
  by (auto simp: hex_digit_def hex_char_def Let_def)

lemma of_char_div_16: "(of_char c :: nat) div 16 < 16"
  using nat_of_char_less_256[of c] by (simp add: less_mult_imp_div_less)

lemma alphanumeric_plain:
  "is_ascii_alphanumeric c \<Longrightarrow> c \<noteq> CHR ''+'' \<and> c \<noteq> CHR 0x25 \<and> c \<noteq> CHR ''&'' \<and> c \<noteq> CHR ''=''"
  by (auto simp: is_ascii_alphanumeric_def)

lemma percent_decode_bytes_encode: "percent_decode_bytes (url_encode s) = s"
proof (induction s)
  case (Cons c s)
  have "16 * ((of_char c :: nat) div 16) + of_char c mod 16 = of_char c" by simp
  then show ?case using Cons
    by (simp add: url_encode_def url_encode_byte_def hex_digit_hex_char of_char_div_16
        alphanumeric_plain)
qed (simp add: url_encode_def)

lemma hex_char_not_amp: "d < 16 \<Longrightarrow> CHR ''&'' \<noteq> hex_char d"
proof
  assume "d < 16" and "CHR ''&'' = hex_char d"
  then have "hex_digit (CHR ''&'') = Some d" using hex_digit_hex_char by simp
  then show False by (simp add: hex_digit_def)
qed

lemma url_encode_no_amp: "CHR ''&'' \<notin> set (url_encode s)"
proof (induction s)
  case (Cons c s)
  have "CHR ''&'' \<noteq> hex_char (of_char c div 16)" "CHR ''&'' \<noteq> hex_char (of_char c mod 16)"
    by (rule hex_char_not_amp, simp add: of_char_div_16)+
  then show ?case
    using Cons alphanumeric_plain[of "CHR ''&''"]
    by (auto simp: url_encode_def url_encode_byte_def)
qed (simp add: url_encode_def)

lemma split_char_join:
  "xs \<noteq> [] \<Longrightarrow> (\<forall>x \<in> set xs. c \<notin> set x) \<Longrightarrow> split_char c (join_with [c] xs) = xs"
proof (induction xs)
  case (Cons x xs)
  then show ?case by (cases xs) (auto simp: split_char_absent split_char_append)
qed simp

definition encode_query :: "(string \<times> string) list \<Rightarrow> string" where
  "encode_query kvs = join_with ''&'' (map (\<lambda>(k, v). k @ ''='' @ url_encode v) kvs)"

lemma query_pair_encoded: "CHR ''='' \<notin> set k \<Longrightarrow> query_pair (k @ CHR ''='' # v) = (k, v)"
proof -
  assume "CHR ''='' \<notin> set k"
  then have "split_once (CHR ''='') (k @ CHR ''='' # v) = Some (k, v)"
    by (simp add: split_once_Some_iff)
  then show ?thesis by (simp add: query_pair_def)
qed

lemma find_arg_encoded:
  "(\<forall>(k, v) \<in> set kvs. CHR ''='' \<notin> set k) \<Longrightarrow>
   find_arg name (map (\<lambda>(k, v). k @ ''='' @ url_encode v) kvs) =
     map_option from_utf8_lossy (map_of kvs name)"
  by (induction kvs)
    (auto simp: query_pair_encoded percent_decode_def percent_decode_bytes_encode)

text \<open>Percent decoding undoes percent encoding: the query value written for any byte string
  decodes to these bytes, read as UTF-8.\<close>

theorem percent_decode_url_encode: "percent_decode (url_encode s) = from_utf8_lossy s"
  by (simp add: percent_decode_def percent_decode_bytes_encode)

text \<open>\<^verbatim>\<open>$arg_NAME\<close> finds the right argument: in a query string written from a list of
  name-value pairs whose names hold no delimiter, the lookup returns the value of the first pair
  with that name, decoded, and nothing when no pair has it.\<close>

theorem query_arg_encode_query:
  assumes "u_query (ctx_uri ctx) = Some (encode_query kvs)" and "kvs \<noteq> []"
    and "\<forall>(k, v) \<in> set kvs. CHR ''='' \<notin> set k \<and> CHR ''&'' \<notin> set k"
  shows "query_arg ctx name = map_option from_utf8_lossy (map_of kvs name)"
proof -
  let ?ps = "map (\<lambda>(k, v). k @ ''='' @ url_encode v) kvs"
  have "\<forall>p \<in> set ?ps. CHR ''&'' \<notin> set p"
    using assms(3) url_encode_no_amp by fastforce
  then have "split_char (CHR ''&'') (encode_query kvs) = ?ps"
    using split_char_join[of ?ps "CHR ''&''"] assms(2) by (simp add: encode_query_def)
  moreover have "\<forall>(k, v) \<in> set kvs. CHR ''='' \<notin> set k" using assms(3) by fastforce
  ultimately show ?thesis using assms(1) find_arg_encoded by (simp add: query_arg_def)
qed

definition demo_ctx :: "header_list request_ctx" where
  "demo_ctx = \<lparr>
     ctx_peer = \<lparr>sa_ip = V4 [10, 0, 0, 7], sa_port = 5000\<rparr>,
     ctx_server_name = Some ''srv'',
     ctx_method = ''GET'',
     ctx_uri = \<lparr>u_path = ''/p'', u_query = Some ''a=x%20y&b=z'',
       u_path_and_query = Some ''/p?a=x%20y&b=z'', u_authority = None\<rparr>,
     ctx_headers = [(''host'', ''example.test''), (''cookie'', ''s=1; t=2'')],
     ctx_scheme = ''http'',
     ctx_user_vars = [(''tier'', ''gold'')]\<rparr>"

theorem query_arg_encode_query_witness:
  "query_arg demo_ctx ''a'' = Some ''x y'' \<and> cookie list_headers demo_ctx ''t'' = Some ''2''"
proof -
  have q: "u_query (ctx_uri demo_ctx) = Some (encode_query [(''a'', ''x y''), (''b'', ''z'')])"
    by code_simp
  have "query_arg demo_ctx ''a'' =
      map_option from_utf8_lossy (map_of [(''a'', ''x y''), (''b'', ''z'')] ''a'')"
    by (rule query_arg_encode_query[OF q]) simp_all
  also have "\<dots> = Some ''x y''" by code_simp
  finally have "query_arg demo_ctx ''a'' = Some ''x y''" .
  moreover have "cookie list_headers demo_ctx ''t'' = Some ''2''" by code_simp
  ultimately show ?thesis by (rule conjI)
qed

end
