(* ===== verification/Template.thy ===== *)
theory Template
  imports Request_Ctx
begin

text \<open>
  Variable interpolation (\<^verbatim>\<open>src/src/template.rs\<close>): a template is a sequence of literal
  segments and variable references, parsed once from a configuration value and rendered against a
  request. \<open>parse_segments\<close> is the loop of \<^verbatim>\<open>Template::parse\<close> with its two mutable
  variables, the pending literal and the rest of the input.

  Shown here: parsing ends and yields a normal form (no empty literal, no two adjacent ones); every
  template in normal form is the result of parsing the text \<open>unparse\<close> writes for it; and a value
  without a dollar sign renders as itself.
\<close>

section \<open>Templates\<close>

datatype var_ref =
    Host | RemoteAddr | RequestUri | Uri | RequestMethod | Args | Scheme | ServerName
  | Arg string | Http string | Cookie string | Unknown string

datatype segment = Literal string | Var var_ref

type_synonym template = "segment list"

definition classify :: "string \<Rightarrow> var_ref" where
  "classify name =
     (case strip_prefix ''arg_'' name of Some rest \<Rightarrow> Arg rest
      | None \<Rightarrow>
     (case strip_prefix ''http_'' name of Some rest \<Rightarrow> Http rest
      | None \<Rightarrow>
     (case strip_prefix ''cookie_'' name of Some rest \<Rightarrow> Cookie rest
      | None \<Rightarrow>
        if name = ''host'' then Host
        else if name = ''remote_addr'' then RemoteAddr
        else if name = ''request_uri'' then RequestUri
        else if name = ''uri'' \<or> name = ''document_uri'' then Uri
        else if name = ''request_method'' then RequestMethod
        else if name = ''args'' \<or> name = ''query_string'' then Args
        else if name = ''scheme'' then Scheme
        else if name = ''server_name'' then ServerName
        else Unknown name)))"

definition ident_char :: "char \<Rightarrow> bool" where
  "ident_char c \<longleftrightarrow> is_ascii_alphanumeric c \<or> c = CHR ''_''"

text \<open>The name after a dollar sign, whether it is recognised, and the rest of the input.\<close>

definition var_name :: "string \<Rightarrow> string \<times> bool \<times> string" where
  "var_name cs =
     (if cs \<noteq> [] \<and> hd cs = CHR ''{'' then
        (let n = takeWhile (\<lambda>c. c \<noteq> CHR ''}'') (tl cs);
             rest = dropWhile (\<lambda>c. c \<noteq> CHR ''}'') (tl cs)
         in (n, rest \<noteq> [], tl rest))
      else
        (let n = takeWhile ident_char cs in (n, n \<noteq> [], dropWhile ident_char cs)))"

definition flush :: "string \<Rightarrow> segment list" where
  "flush lit = (if lit = [] then [] else [Literal lit])"

lemma var_name_shrinks: "var_name cs = (n, ok, rest) \<Longrightarrow> length rest \<le> length cs"
proof -
  assume v: "var_name cs = (n, ok, rest)"
  show ?thesis
  proof (cases "cs \<noteq> [] \<and> hd cs = CHR ''{''")
    case True
    then obtain r where cs: "cs = CHR ''{'' # r" by (cases cs) auto
    with v have "rest = tl (dropWhile (\<lambda>c. c \<noteq> CHR ''}'') r)" by (simp add: var_name_def Let_def)
    then have "length rest \<le> length (dropWhile (\<lambda>c. c \<noteq> CHR ''}'') r)" by simp
    also have "\<dots> \<le> length r" by (rule length_dropWhile_le)
    finally show ?thesis using cs by simp
  next
    case False
    then have "rest = dropWhile ident_char cs" using v by (auto simp: var_name_def Let_def)
    then show ?thesis by (simp add: length_dropWhile_le)
  qed
qed

function parse_segments :: "string \<Rightarrow> string \<Rightarrow> segment list" where
  "parse_segments lit [] = flush lit"
| "parse_segments lit (c # cs) =
     (if c \<noteq> CHR ''$'' then parse_segments (lit @ [c]) cs
      else case var_name cs of
             (name, recognized, rest) \<Rightarrow>
               if \<not> recognized then parse_segments (lit @ CHR ''$'' # name) rest
               else flush lit @ Var (classify name) # parse_segments [] rest)"
  by pat_completeness auto

termination parse_segments
  by (relation "measure (\<lambda>(lit, cs). length cs)")
    (auto simp: le_imp_less_Suc dest!: var_name_shrinks[OF sym])

definition template_parse :: "string \<Rightarrow> template" where
  "template_parse input = parse_segments [] input"

definition is_literal :: "template \<Rightarrow> bool" where
  "is_literal t = list_all (\<lambda>s. case s of Literal _ \<Rightarrow> True | Var _ \<Rightarrow> False) t"

section \<open>Rendering\<close>

definition or_empty :: "string option \<Rightarrow> string" where
  "or_empty v = (case v of None \<Rightarrow> [] | Some s \<Rightarrow> s)"

fun render_var :: "'h header_ops \<Rightarrow> 'h request_ctx \<Rightarrow> var_ref \<Rightarrow> string" where
  "render_var H ctx Host = host H ctx"
| "render_var H ctx RemoteAddr = show_ip (sa_ip (ctx_peer ctx))"
| "render_var H ctx RequestUri = request_uri ctx"
| "render_var H ctx Uri = u_path (ctx_uri ctx)"
| "render_var H ctx RequestMethod = ctx_method ctx"
| "render_var H ctx Args = or_empty (u_query (ctx_uri ctx))"
| "render_var H ctx Scheme = ctx_scheme ctx"
| "render_var H ctx ServerName = or_empty (ctx_server_name ctx)"
| "render_var H ctx (Arg name) = or_empty (query_arg ctx name)"
| "render_var H ctx (Http name) = or_empty (header H ctx (replace_char (CHR ''_'') ''-'' name))"
| "render_var H ctx (Cookie name) = or_empty (cookie H ctx name)"
| "render_var H ctx (Unknown name) = or_empty (user_var ctx name)"

fun render :: "'h header_ops \<Rightarrow> 'h request_ctx \<Rightarrow> template \<Rightarrow> string" where
  "render H ctx [] = []"
| "render H ctx (Literal s # t) = s @ render H ctx t"
| "render H ctx (Var v # t) = render_var H ctx v @ render H ctx t"

section \<open>Normal form\<close>

fun normal :: "template \<Rightarrow> bool" where
  "normal [] = True"
| "normal (Literal s # t) \<longleftrightarrow> s \<noteq> [] \<and> (case t of Literal _ # _ \<Rightarrow> False | _ \<Rightarrow> True) \<and> normal t"
| "normal (Var v # t) = normal t"

lemma normal_flush_Var: "normal t \<Longrightarrow> normal (flush lit @ Var v # t)"
  by (simp add: flush_def)

lemma parse_segments_normal: "normal (parse_segments lit cs)"
  by (induction lit cs rule: parse_segments.induct)
    (auto simp: normal_flush_Var flush_def split: prod.splits)

lemma parse_segments_plain:
  "CHR ''$'' \<notin> set s \<Longrightarrow> parse_segments lit (s @ cs) = parse_segments (lit @ s) cs"
  by (induction s arbitrary: lit) auto

section \<open>Reading back\<close>

fun var_text :: "var_ref \<Rightarrow> string" where
  "var_text Host = ''host''"
| "var_text RemoteAddr = ''remote_addr''"
| "var_text RequestUri = ''request_uri''"
| "var_text Uri = ''uri''"
| "var_text RequestMethod = ''request_method''"
| "var_text Args = ''args''"
| "var_text Scheme = ''scheme''"
| "var_text ServerName = ''server_name''"
| "var_text (Arg n) = ''arg_'' @ n"
| "var_text (Http n) = ''http_'' @ n"
| "var_text (Cookie n) = ''cookie_'' @ n"
| "var_text (Unknown n) = n"

fun unparse :: "template \<Rightarrow> string" where
  "unparse [] = []"
| "unparse (Literal s # t) = s @ unparse t"
| "unparse (Var v # t) = ''${'' @ var_text v @ ''}'' @ unparse t"

text \<open>What a template's segments must satisfy to have a text: literals without a dollar sign,
  names without a closing brace, and an unknown name that is not a known one.\<close>

fun writable :: "segment \<Rightarrow> bool" where
  "writable (Literal s) \<longleftrightarrow> CHR ''$'' \<notin> set s"
| "writable (Var v) \<longleftrightarrow> CHR ''}'' \<notin> set (var_text v) \<and> classify (var_text v) = v"

lemma classify_var_text: "(\<forall>n. v \<noteq> Unknown n) \<Longrightarrow> classify (var_text v) = v"
  by (cases v) (simp_all add: classify_def)

lemma var_name_braced:
  assumes "CHR ''}'' \<notin> set n"
  shows "var_name (CHR ''{'' # n @ CHR ''}'' # cs) = (n, True, cs)"
proof -
  have "\<forall>c \<in> set n. c \<noteq> CHR ''}''" using assms by auto
  then have "takeWhile (\<lambda>c. c \<noteq> CHR ''}'') (n @ CHR ''}'' # cs) = n"
    and "dropWhile (\<lambda>c. c \<noteq> CHR ''}'') (n @ CHR ''}'' # cs) = CHR ''}'' # cs"
    by (simp_all add: takeWhile_append dropWhile_append)
  then show ?thesis by (simp add: var_name_def)
qed

lemma parse_segments_unparse:
  assumes "normal t" and "list_all writable t"
    and "lit \<noteq> [] \<longrightarrow> (case t of Literal _ # _ \<Rightarrow> False | _ \<Rightarrow> True)"
  shows "parse_segments lit (unparse t) = flush lit @ t"
  using assms
proof (induction t arbitrary: lit rule: unparse.induct)
  case (2 s t)
  then have "lit = []" and s: "s \<noteq> []" "CHR ''$'' \<notin> set s" by auto
  with "2.prems" "2.IH"[of s] show ?case
    by (auto simp: parse_segments_plain flush_def)
next
  case (3 v t)
  then have "parse_segments [] (unparse t) = t" by (auto simp: flush_def)
  with "3.prems" show ?case by (simp add: var_name_braced)
qed simp

text \<open>Template parsing yields a normal form: no segment is an empty literal and no two literals
  are adjacent, for every configuration value.\<close>

theorem template_parse_normal: "normal (template_parse input)"
  by (simp add: template_parse_def parse_segments_normal del: parse_segments.simps)

text \<open>Template parsing reads back every template: a template in normal form whose literals hold
  no dollar sign and whose names hold no closing brace is the result of parsing the text written
  for it, so every such sequence of literals and variables can be configured.\<close>

theorem template_parse_unparse:
  assumes "normal t" and "list_all writable t"
  shows "template_parse (unparse t) = t"
  using parse_segments_unparse[OF assms, of "[]"]
  by (simp add: template_parse_def flush_def del: parse_segments.simps)

theorem template_parse_unparse_witness:
  "template_parse ''${scheme}://${host}${arg_id}'' =
     [Var Scheme, Literal ''://'', Var Host, Var (Arg ''id'')]"
proof -
  let ?t = "[Var Scheme, Literal ''://'', Var Host, Var (Arg ''id'')]"
  have "normal ?t" "list_all writable ?t" by code_simp+
  from template_parse_unparse[OF this] show ?thesis by simp
qed

text \<open>A value without a dollar sign is a literal and renders as itself for every request.\<close>

theorem render_plain:
  assumes "CHR ''$'' \<notin> set s"
  shows "is_literal (template_parse s) \<and> render H ctx (template_parse s) = s"
proof -
  have "template_parse s = flush s"
    using parse_segments_plain[OF assms, of "[]" "[]"] by (simp add: template_parse_def)
  then show ?thesis by (simp add: flush_def is_literal_def)
qed

theorem render_plain_witness:
  "is_literal (template_parse ''ok'') \<and>
   render list_headers demo_ctx (template_parse ''ok'') = ''ok''"
  by (rule render_plain) simp

text \<open>A braced name that is never closed loses its opening brace: the value renders with the
  dollar sign and the name but without the brace that was written.\<close>

theorem template_unclosed_brace:
  assumes "CHR ''}'' \<notin> set n"
  shows "template_parse (''${'' @ n) = [Literal (CHR ''$'' # n)]"
proof -
  have "\<forall>c \<in> set n. c \<noteq> CHR ''}''" using assms by auto
  then have "var_name (CHR ''{'' # n) = (n, False, [])"
    by (simp add: var_name_def takeWhile_eq_all_conv[THEN iffD2] dropWhile_eq_Nil_conv[THEN iffD2])
  then show ?thesis by (simp add: template_parse_def flush_def)
qed

theorem template_unclosed_brace_witness:
  "template_parse ''${host'' = [Literal ''$host'']"
  using template_unclosed_brace[of "''host''"] by simp

end
