(* ===== verification/Config_Ast.thy ===== *)
theory Config_Ast
  imports Template
begin

text \<open>
  The typed configuration model (\<^verbatim>\<open>src/src/config/ast.rs\<close>): one record per struct, one
  datatype per enum, with the fields and constructors of the source. Durations are numbers of
  milliseconds. The fields of a \<^verbatim>\<open>Location\<close> that its directives set one by one are the record
  \<open>loc_opts\<close>, which the finished \<open>location\<close> and the state of its construction both extend.
  A request rate is a rational number where the source has an \<^verbatim>\<open>f64\<close>.
\<close>

type_synonym duration = nat

definition from_millis :: "nat \<Rightarrow> duration" where
  "from_millis n = n"

definition from_secs :: "nat \<Rightarrow> duration" where
  "from_secs n = 1000 * n"

section \<open>Upstreams\<close>

datatype lb_method = RoundRobin | LeastConn | IpHash

record health_check_cfg =
  hc_uri :: string
  hc_interval :: duration
  hc_timeout :: duration
  hc_fails :: nat
  hc_passes :: nat
  hc_expected_status :: nat

definition default_health_check :: health_check_cfg where
  "default_health_check = \<lparr>hc_uri = ''/'', hc_interval = from_secs 5, hc_timeout = from_secs 2,
     hc_fails = 2, hc_passes = 2, hc_expected_status = 200\<rparr>"

record upstream_server =
  us_addr :: string
  us_weight :: nat
  us_max_fails :: nat
  us_fail_timeout :: duration
  us_backup :: bool
  us_down :: bool

definition default_upstream_server :: upstream_server where
  "default_upstream_server = \<lparr>us_addr = [], us_weight = 1, us_max_fails = 1,
     us_fail_timeout = from_secs 10, us_backup = False, us_down = False\<rparr>"

record upstream =
  up_name :: string
  up_method :: lb_method
  up_servers :: "upstream_server list"
  up_health_check :: "health_check_cfg option"

section \<open>Zones and maps\<close>

record cache_zone =
  cz_name :: string
  cz_max_bytes :: nat

record limit_req_zone_decl =
  lrz_name :: string
  lrz_key_template :: template
  lrz_rate_per_sec :: rat
  lrz_max_entries :: nat

record limit_conn_zone_decl =
  lcz_name :: string
  lcz_key_template :: template
  lcz_max_entries :: nat

datatype map_pattern = PLiteral string | PDefault

record map_rule =
  mr_pattern :: map_pattern
  mr_value :: template

record map_decl =
  md_source :: template
  md_output_name :: string
  md_rules :: "map_rule list"

section \<open>Locations\<close>

datatype location_kind = Exact | Prefix | Regex string bool

datatype try_files_entry = TPath template | TStatus nat

datatype action =
    Return nat template
  | ProxyPass string
  | Root string
  | Alias string
  | Metrics
  | TryFiles string "try_files_entry list"

record loc_opts =
  loc_set_headers :: "(string \<times> template) list"
  loc_add_headers :: "(string \<times> template) list"
  loc_expires :: "duration option"
  loc_gzip :: "bool option"
  loc_autoindex :: bool
  loc_auth_basic_realm :: "string option"
  loc_auth_basic_user_file :: "string option"
  loc_limit_req :: "(string \<times> nat) option"
  loc_limit_conn :: "(string \<times> nat) option"
  loc_access_rules :: "(bool \<times> string) list"
  loc_proxy_connect_timeout :: "duration option"
  loc_proxy_read_timeout :: "duration option"
  loc_auth_request :: "template option"
  loc_mirrors :: "template list"
  loc_proxy_ssl_verify :: bool
  loc_proxy_ssl_certificate :: "string option"
  loc_proxy_ssl_certificate_key :: "string option"
  loc_proxy_cache :: "string option"
  loc_proxy_cache_key :: "template option"
  loc_proxy_cache_valid :: "(nat list \<times> duration) list"

record location = loc_opts +
  loc_kind :: location_kind
  loc_path :: string
  loc_action :: action

section \<open>Servers\<close>

datatype tls_version = Tls12 | Tls13

record server =
  srv_listen :: "socket_addr option"
  srv_server_name :: "string option"
  srv_root :: "string option"
  srv_locations :: "location list"
  srv_tls :: bool
  srv_http3 :: bool
  srv_ssl_certificate :: "string option"
  srv_ssl_certificate_key :: "string option"
  srv_ssl_protocols :: "tls_version list"
  srv_gzip :: "bool option"
  srv_gzip_types :: "string list"
  srv_gzip_min_length :: "nat option"
  srv_add_headers :: "(string \<times> template) list"
  srv_client_max_body_size :: "nat option"

definition default_server :: server where
  "default_server = \<lparr>srv_listen = None, srv_server_name = None, srv_root = None,
     srv_locations = [], srv_tls = False, srv_http3 = False, srv_ssl_certificate = None,
     srv_ssl_certificate_key = None, srv_ssl_protocols = [], srv_gzip = None,
     srv_gzip_types = [], srv_gzip_min_length = None, srv_add_headers = [],
     srv_client_max_body_size = None\<rparr>"

record stream_server =
  ss_listen :: "socket_addr option"
  ss_proxy_pass :: "string option"
  ss_udp :: bool

definition default_stream_server :: stream_server where
  "default_stream_server = \<lparr>ss_listen = None, ss_proxy_pass = None, ss_udp = False\<rparr>"

section \<open>The whole configuration\<close>

record http_block =
  http_access_log :: "string option"
  http_upstreams :: "upstream list"
  http_servers :: "server list"
  http_cache_zones :: "cache_zone list"
  http_limit_req_zones :: "limit_req_zone_decl list"
  http_limit_conn_zones :: "limit_conn_zone_decl list"
  http_maps :: "map_decl list"

definition default_http :: http_block where
  "default_http = \<lparr>http_access_log = None, http_upstreams = [], http_servers = [],
     http_cache_zones = [], http_limit_req_zones = [], http_limit_conn_zones = [],
     http_maps = []\<rparr>"

record stream_block =
  st_upstreams :: "upstream list"
  st_servers :: "stream_server list"

definition default_stream :: stream_block where
  "default_stream = \<lparr>st_upstreams = [], st_servers = []\<rparr>"

record config =
  cfg_worker_processes :: "string option"
  cfg_pid :: "string option"
  cfg_error_log :: "string option"
  cfg_user :: "string option"
  cfg_group :: "string option"
  cfg_worker_rlimit_nofile :: "nat option"
  cfg_http :: "http_block option"
  cfg_stream :: "stream_block option"

definition default_config :: config where
  "default_config = \<lparr>cfg_worker_processes = None, cfg_pid = None, cfg_error_log = None,
     cfg_user = None, cfg_group = None, cfg_worker_rlimit_nofile = None, cfg_http = None,
     cfg_stream = None\<rparr>"

end
