(* ===== verification/Config_Lexer.thy ===== *)
theory Config_Lexer
  imports Rust_Text
begin

text \<open>
  The tokenizer of the configuration language (\<^verbatim>\<open>src/src/config/lexer.rs\<close>). The iterator
  over the characters of the input is the list of the characters that are left; \<open>lex_from\<close> is
  the main loop, started at line 1 by \<open>lex\<close>, and \<open>lex_quoted\<close> the loop that reads a quoted
  string. The error values of the three textual stages (lexer, parser, include expansion) are the
  constructors of \<open>config_error\<close>; each carries what its message interpolates.

  Shown here: the loop ends; the line numbers of the tokens never decrease; and the text \<open>print_tokens\<close> writes for any
  sequence of tokens is read back as that sequence, whatever the words contain.
\<close>

section \<open>Tokens\<close>

datatype tok_kind = Word string | OpenBrace | CloseBrace | Semicolon

record token =
  t_kind :: tok_kind
  t_line :: nat

datatype config_error =
    Unterminated_string nat
  | Missing_close_brace
  | Unexpected_close_brace nat
  | Unexpected_semicolon nat
  | Unexpected_open_brace nat
  | Expected_semicolon_or_brace nat
  | Unexpected_eof_in_directive nat string
  | Cannot_read_config string
  | Include_requires_path nat
  | Include_not_found nat string
  | Include_cycle nat string
  | Include_unreadable nat string
  | Include_fuel

section \<open>The lexer\<close>

definition newline :: char where
  "newline = CHR 0x0A"

definition escaped :: "char \<Rightarrow> char" where
  "escaped c =
     (if c = CHR ''n'' then CHR 0x0A else if c = CHR ''t'' then CHR 0x09
      else if c = CHR ''r'' then CHR 0x0D else c)"

text \<open>The \<^verbatim>\<open>loop\<close> over a quoted string: the resolved text, the line reached and the input
  after the closing quote; \<open>None\<close> when the input ends first. An escaped newline is pushed
  without advancing the line counter, as in the source.\<close>

fun lex_quoted :: "char \<Rightarrow> nat \<Rightarrow> string \<Rightarrow> (string \<times> nat \<times> string) option" where
  "lex_quoted quote line [] = None"
| "lex_quoted quote line (ch # cs) =
     (if ch = quote then Some ([], line, cs)
      else if ch = CHR 0x5C then
        (case cs of
           [] \<Rightarrow> None
         | e # cs' \<Rightarrow> map_option (\<lambda>(s, l, r). (escaped e # s, l, r)) (lex_quoted quote line cs'))
      else if ch = newline then
        map_option (\<lambda>(s, l, r). (ch # s, l, r)) (lex_quoted quote (line + 1) cs)
      else map_option (\<lambda>(s, l, r). (ch # s, l, r)) (lex_quoted quote line cs))"

definition word_end :: "char \<Rightarrow> bool" where
  "word_end c \<longleftrightarrow> is_whitespace c \<or> c = CHR ''{'' \<or> c = CHR ''}'' \<or> c = CHR '';'' \<or> c = CHR ''#''"

definition push_token :: "tok_kind \<Rightarrow> nat \<Rightarrow> config_error + token list \<Rightarrow> config_error + token list"
  where "push_token k line r = and_then r (\<lambda>ts. Inr (\<lparr>t_kind = k, t_line = line\<rparr> # ts))"

lemma lex_quoted_shrinks: "lex_quoted q l cs = Some (s, l', r) \<Longrightarrow> length r < length cs"
proof (induction q l cs arbitrary: s rule: lex_quoted.induct)
  case (2 quote line ch cs)
  from 2 show ?case by (fastforce split: if_splits list.splits)
qed simp

function lex_from :: "nat \<Rightarrow> string \<Rightarrow> config_error + token list" where
  "lex_from line [] = Inr []"
| "lex_from line (c # cs) =
     (if c = newline then lex_from (line + 1) cs
      else if is_whitespace c then lex_from line cs
      else if c = CHR ''#'' then lex_from line (dropWhile (\<lambda>x. x \<noteq> newline) cs)
      else if c = CHR ''{'' then push_token OpenBrace line (lex_from line cs)
      else if c = CHR ''}'' then push_token CloseBrace line (lex_from line cs)
      else if c = CHR '';'' then push_token Semicolon line (lex_from line cs)
      else if c = CHR 0x22 \<or> c = CHR 0x27 then
        (case lex_quoted c line cs of
           None \<Rightarrow> Inl (Unterminated_string line)
         | Some (s, line', rest) \<Rightarrow> push_token (Word s) line (lex_from line' rest))
      else push_token (Word (takeWhile (\<lambda>x. \<not> word_end x) (c # cs))) line
             (lex_from line (dropWhile (\<lambda>x. \<not> word_end x) cs)))"
  by pat_completeness auto

termination lex_from
  by (relation "measure (\<lambda>(line, cs). length cs)")
    (auto simp: le_imp_less_Suc length_dropWhile_le less_SucI dest: lex_quoted_shrinks)

definition lex :: "string \<Rightarrow> config_error + token list" where
  "lex input = lex_from 1 input"

section \<open>Lines\<close>

lemma lex_quoted_line: "lex_quoted q l cs = Some (s, l', r) \<Longrightarrow> l \<le> l'"
proof (induction q l cs arbitrary: s rule: lex_quoted.induct)
  case (2 quote line ch cs)
  from 2 show ?case by (fastforce split: if_splits list.splits)
qed simp

lemma push_token_Inr:
  "push_token k l m = Inr ts \<longleftrightarrow> (\<exists>us. m = Inr us \<and> ts = \<lparr>t_kind = k, t_line = l\<rparr> # us)"
  by (auto simp: push_token_def and_then_Inr_iff)

text \<open>The line numbers of the tokens never decrease and start at the current line.\<close>

definition lines_ok :: "nat \<Rightarrow> token list \<Rightarrow> bool" where
  "lines_ok l ts \<longleftrightarrow> sorted (map t_line ts) \<and> (\<forall>t \<in> set ts. l \<le> t_line t)"

lemma lines_ok_mono: "lines_ok m ts \<Longrightarrow> l \<le> m \<Longrightarrow> lines_ok l ts"
  by (auto simp: lines_ok_def)

lemma lines_ok_push:
  assumes "push_token k l m = Inr ts" and "\<And>us. m = Inr us \<Longrightarrow> lines_ok l' us" and "l \<le> l'"
  shows "lines_ok l ts"
  using assms by (fastforce simp: push_token_Inr lines_ok_def)

lemma lines_ok_push_same:
  "push_token k l m = Inr ts \<Longrightarrow> (\<And>us. m = Inr us \<Longrightarrow> lines_ok l us) \<Longrightarrow> lines_ok l ts"
  by (rule lines_ok_push[where l' = l]) simp_all

lemma lex_from_lines: "lex_from l cs = Inr ts \<Longrightarrow> lines_ok l ts"
proof (induction l cs arbitrary: ts rule: lex_from.induct)
  case (1 line)
  then show ?case by (simp add: lines_ok_def)
next
  case (2 line c cs)
  have next_line: "lines_ok line us" if "lines_ok (Suc line) us" for us
    using that by (rule lines_ok_mono) simp
  have quoted: "lines_ok line us" if "push_token (Word s) line (lex_from l' r) = Inr us"
    and "lex_quoted c line cs = Some (s, l', r)"
    and "\<And>us. lex_from l' r = Inr us \<Longrightarrow> lines_ok l' us" for s l' r us
    using that(1,3) lex_quoted_line[OF that(2)] by (rule lines_ok_push)
  from 2 show ?case
    by (simp split: if_splits option.splits prod.splits)
      ((erule lines_ok_push_same, simp) | (simp add: next_line) | (rule quoted, assumption, simp, blast))+
qed

section \<open>Reading back what is written\<close>

text \<open>The quoted form of a word: the closing quote and the backslash are escaped, everything
  else, line ends included, stands for itself.\<close>

definition quote_char :: "char \<Rightarrow> string" where
  "quote_char c = (if c = CHR 0x22 \<or> c = CHR 0x5C then [CHR 0x5C, c] else [c])"

definition quote_word :: "string \<Rightarrow> string" where
  "quote_word s = CHR 0x22 # concat (map quote_char s) @ [CHR 0x22]"

fun print_token :: "tok_kind \<Rightarrow> string" where
  "print_token (Word s) = quote_word s"
| "print_token OpenBrace = ''{''"
| "print_token CloseBrace = ''}''"
| "print_token Semicolon = '';''"

definition print_tokens :: "tok_kind list \<Rightarrow> string" where
  "print_tokens ks = concat (map (\<lambda>k. print_token k @ '' '') ks)"

fun newlines :: "tok_kind \<Rightarrow> nat" where
  "newlines (Word s) = count_list s newline"
| "newlines _ = 0"

fun lines_from :: "nat \<Rightarrow> tok_kind list \<Rightarrow> token list" where
  "lines_from l [] = []"
| "lines_from l (k # ks) = \<lparr>t_kind = k, t_line = l\<rparr> # lines_from (l + newlines k) ks"

lemma lex_quoted_quote:
  "lex_quoted (CHR 0x22) l (concat (map quote_char s) @ CHR 0x22 # r)
     = Some (s, l + count_list s newline, r)"
  by (induction s arbitrary: l) (auto simp: quote_char_def escaped_def newline_def)

lemma lex_from_space: "lex_from l (CHR '' '' # cs) = lex_from l cs"
  by (simp add: newline_def is_whitespace_def)

lemma lex_from_token:
  "lex_from l (print_token k @ CHR '' '' # cs) = push_token k l (lex_from (l + newlines k) cs)"
proof (cases k)
  case (Word s)
  then show ?thesis
    by (simp add: quote_word_def newline_def is_whitespace_def lex_quoted_quote [unfolded newline_def]
        lex_from_space del: lex_from.simps)
      (simp add: newline_def is_whitespace_def lex_quoted_quote [unfolded newline_def])
qed (simp_all add: newline_def is_whitespace_def)

lemma lex_from_print: "lex_from l (print_tokens ks) = Inr (lines_from l ks)"
proof (induction ks arbitrary: l)
  case (Cons k ks)
  have "print_tokens (k # ks) = print_token k @ CHR '' '' # print_tokens ks"
    by (simp add: print_tokens_def)
  then show ?case
    by (simp add: lex_from_token Cons.IH push_token_def del: lex_from.simps)
qed (simp add: print_tokens_def)

lemma kinds_lines_from [simp]: "map t_kind (lines_from l ks) = ks"
  by (induction ks arbitrary: l) simp_all

text \<open>The lexer reads back every sequence of tokens. Writing each word in double quotes with
  quotes and backslashes escaped, and the punctuation as it stands, gives a text that \<open>lex\<close>
  turns into exactly those tokens, on the lines the text puts them on.\<close>

theorem lex_print_tokens: "lex (print_tokens ks) = Inr (lines_from 1 ks)"
  by (simp add: lex_def lex_from_print del: lex_from.simps)

text \<open>Diagnostics are ordered: when the lexer succeeds, the line numbers it attaches to the
  tokens never decrease and are at least 1.\<close>

theorem lex_lines_ordered:
  assumes "lex input = Inr ts"
  shows "sorted (map t_line ts) \<and> (\<forall>t \<in> set ts. 1 \<le> t_line t)"
  using lex_from_lines[of 1 input ts] assms by (simp add: lex_def lines_ok_def)

theorem lex_lines_ordered_witness:
  "sorted (map t_line (lines_from 1 [Word [newline], Semicolon])) \<and>
   1 \<le> t_line (hd (lines_from 1 [Word [newline], Semicolon]))"
proof -
  have "lex (print_tokens [Word [newline], Semicolon]) = Inr (lines_from 1 [Word [newline], Semicolon])"
    by (simp only: lex_def lex_from_print)
  from lex_lines_ordered[OF this] show ?thesis by simp
qed

end
