(* ===== verification/Config_Parser.thy ===== *)
theory Config_Parser
  imports Config_Lexer
begin

text \<open>
  The recursive-descent parser of the configuration language
  (\<^verbatim>\<open>src/src/config/parser.rs\<close>). The cursor \<^verbatim>\<open>pos\<close> into the token slice is the list of the
  tokens that are left, so \<open>parse_block\<close> returns the directives it read together with the rest.
  \<open>parse_args\<close> is the inner loop that collects the arguments of one directive up to \<open>;\<close> or
  \<open>{\<close>.

  The grammar is given independently by \<open>flatten\<close>, which writes a directive tree as the
  sequence of its tokens. Shown here: the parser ends, accepts exactly the sequences that are the
  tokens of a tree, returns the only tree with these tokens, up to the line numbers,
  and reads back the text \<open>print_config\<close> writes for any tree.
\<close>

section \<open>Directives\<close>

datatype directive =
  Directive (d_name: string) (d_args: "string list") (d_block: "directive list option") (d_line: nat)

section \<open>The parser\<close>

text \<open>The arguments of a directive: the words up to the terminator, whether the terminator opens
  a block, and the tokens after it. \<open>name\<close> and \<open>line\<close> are only used in the error.\<close>

fun parse_args :: "string \<Rightarrow> nat \<Rightarrow> token list \<Rightarrow>
    config_error + (string list \<times> bool \<times> token list)" where
  "parse_args name line [] = Inl (Unexpected_eof_in_directive line name)"
| "parse_args name line (t # ts) =
     (case t_kind t of
        Word w \<Rightarrow> and_then (parse_args name line ts) (\<lambda>(args, blk, rest). Inr (w # args, blk, rest))
      | Semicolon \<Rightarrow> Inr ([], False, ts)
      | OpenBrace \<Rightarrow> Inr ([], True, ts)
      | CloseBrace \<Rightarrow> Inl (Expected_semicolon_or_brace (t_line t)))"

lemma parse_args_shrinks:
  "parse_args name line ts = Inr (args, blk, rest) \<Longrightarrow> length rest < length ts"
  by (induction ts arbitrary: args) (fastforce simp: and_then_Inr_iff split: tok_kind.splits)+

text \<open>\<open>nested\<close> tells whether a closing brace or the end of the input ends the block.\<close>

function parse_block :: "bool \<Rightarrow> token list \<Rightarrow> config_error + (directive list \<times> token list)" where
  "parse_block nested [] = (if nested then Inl Missing_close_brace else Inr ([], []))"
| "parse_block nested (t # ts) =
     (case t_kind t of
        CloseBrace \<Rightarrow> if nested then Inr ([], ts) else Inl (Unexpected_close_brace (t_line t))
      | Semicolon \<Rightarrow> Inl (Unexpected_semicolon (t_line t))
      | OpenBrace \<Rightarrow> Inl (Unexpected_open_brace (t_line t))
      | Word name \<Rightarrow>
          (case parse_args name (t_line t) ts of
             Inl e \<Rightarrow> Inl e
           | Inr (args, blk, rest) \<Rightarrow>
               if blk then
                 (case parse_block True rest of
                    Inl e \<Rightarrow> Inl e
                  | Inr (b, rest') \<Rightarrow>
                      (case parse_block nested rest' of
                         Inl e \<Rightarrow> Inl e
                       | Inr (dirs, r) \<Rightarrow> Inr (Directive name args (Some b) (t_line t) # dirs, r)))
               else
                 (case parse_block nested rest of
                    Inl e \<Rightarrow> Inl e
                  | Inr (dirs, r) \<Rightarrow> Inr (Directive name args None (t_line t) # dirs, r))))"
  by pat_completeness auto

lemma parse_block_shrinks_dom:
  "parse_block_dom (nested, ts) \<Longrightarrow> parse_block nested ts = Inr (ds, rest) \<Longrightarrow> length rest \<le> length ts"
proof (induction nested ts arbitrary: ds rest rule: parse_block.pinduct)
  case (1 nested)
  then show ?case by (simp add: parse_block.psimps split: if_splits)
next
  case (2 nested t ts)
  show ?case
  proof (cases "t_kind t")
    case (Word name)
    with "2.hyps" "2.prems" obtain args blk r1
      where a: "parse_args name (t_line t) ts = Inr (args, blk, r1)"
      by (auto simp: parse_block.psimps split: sum.splits)
    note shrink = parse_args_shrinks[OF a]
    show ?thesis
    proof (cases blk)
      case False
      with "2.hyps" "2.prems" Word a obtain ds' where "parse_block nested r1 = Inr (ds', rest)"
        by (auto simp: parse_block.psimps split: sum.splits)
      with "2.IH"(3)[OF Word a refl refl False] shrink show ?thesis by fastforce
    next
      case True
      with "2.hyps" "2.prems" Word a obtain b r2 ds'
        where b: "parse_block True r1 = Inr (b, r2)" and "parse_block nested r2 = Inr (ds', rest)"
        by (auto simp: parse_block.psimps split: sum.splits)
      with "2.IH"(1)[OF Word a refl refl True b] "2.IH"(2)[OF Word a refl refl True b refl] shrink
      show ?thesis by fastforce
    qed
  qed (use "2.hyps" "2.prems" in \<open>auto simp: parse_block.psimps split: if_splits\<close>)
qed

termination parse_block
  by (relation "measure (\<lambda>(nested, ts). length ts)")
    (auto dest!: parse_args_shrinks parse_block_shrinks_dom)

definition parse :: "token list \<Rightarrow> config_error + directive list" where
  "parse tokens = and_then (parse_block False tokens) (\<lambda>(dirs, rest). Inr dirs)"

section \<open>The grammar\<close>

fun flatten :: "directive list \<Rightarrow> tok_kind list" where
  "flatten [] = []"
| "flatten (Directive n as None l # ds) = Word n # map Word as @ Semicolon # flatten ds"
| "flatten (Directive n as (Some b) l # ds) =
     Word n # map Word as @ OpenBrace # flatten b @ CloseBrace # flatten ds"

text \<open>The tree without its line numbers.\<close>

fun erase_lines :: "directive list \<Rightarrow> directive list" where
  "erase_lines [] = []"
| "erase_lines (Directive n as None l # ds) = Directive n as None 0 # erase_lines ds"
| "erase_lines (Directive n as (Some b) l # ds) =
     Directive n as (Some (erase_lines b)) 0 # erase_lines ds"

lemma flatten_erase_lines: "flatten (erase_lines ds) = flatten ds"
  by (induction ds rule: flatten.induct) simp_all

section \<open>Soundness\<close>

lemma parse_args_sound:
  "parse_args name line ts = Inr (args, blk, rest) \<Longrightarrow>
   map t_kind ts = map Word args @ (if blk then OpenBrace else Semicolon) # map t_kind rest"
  by (induction ts arbitrary: args) (auto simp: and_then_Inr_iff split: tok_kind.splits)

definition block_end :: "bool \<Rightarrow> token list \<Rightarrow> tok_kind list" where
  "block_end nested rest = (if nested then CloseBrace # map t_kind rest else [])"

lemma parse_block_sound:
  "parse_block nested ts = Inr (ds, rest) \<Longrightarrow>
   map t_kind ts = flatten ds @ block_end nested rest \<and> (\<not> nested \<longrightarrow> rest = [])"
proof (induction nested ts arbitrary: ds rest rule: parse_block.induct)
  case (1 nested)
  then show ?case by (auto simp: block_end_def split: if_splits)
next
  case (2 nested t ts)
  show ?case
  proof (cases "t_kind t")
    case (Word name)
    with "2.prems" obtain args blk r1 where a: "parse_args name (t_line t) ts = Inr (args, blk, r1)"
      by (auto split: sum.splits)
    note args = parse_args_sound[OF a]
    show ?thesis
    proof (cases blk)
      case False
      with "2.prems" Word a obtain ds' where d: "parse_block nested r1 = Inr (ds', rest)"
        and ds: "ds = Directive name args None (t_line t) # ds'"
        by (auto split: sum.splits)
      from "2.IH"(3)[OF Word a refl refl False d] args False Word ds show ?thesis by simp
    next
      case True
      with "2.prems" Word a obtain b r2 ds'
        where b: "parse_block True r1 = Inr (b, r2)" and d: "parse_block nested r2 = Inr (ds', rest)"
          and ds: "ds = Directive name args (Some b) (t_line t) # ds'"
        by (auto split: sum.splits)
      from "2.IH"(1)[OF Word a refl refl True b] "2.IH"(2)[OF Word a refl refl True b refl d]
        args True Word ds
      show ?thesis by (simp add: block_end_def)
    qed
  qed (use "2.prems" in \<open>auto simp: block_end_def split: if_splits\<close>)
qed

section \<open>Completeness\<close>

lemma parse_args_complete:
  assumes "map t_kind ts = map Word args @ k # ks" and "k = Semicolon \<or> k = OpenBrace"
  shows "\<exists>rest. parse_args name line ts = Inr (args, k = OpenBrace, rest) \<and> map t_kind rest = ks"
  using assms
proof (induction args arbitrary: ts)
  case Nil
  then show ?case by (cases ts) auto
next
  case (Cons a args)
  then obtain t ts' where ts: "ts = t # ts'" and t: "t_kind t = Word a"
    and ts': "map t_kind ts' = map Word args @ k # ks" by auto
  from Cons.IH[OF ts' Cons.prems(2)] ts t show ?case by auto
qed

lemma parse_block_complete:
  assumes "map t_kind ts = flatten ds @ ks" and "ks = (if nested then CloseBrace # ks' else [])"
  shows "\<exists>ds' rest. parse_block nested ts = Inr (ds', rest) \<and>
           erase_lines ds' = erase_lines ds \<and> (nested \<longrightarrow> map t_kind rest = ks')"
  using assms
proof (induction ds arbitrary: nested ts ks ks' rule: flatten.induct)
  case 1
  then show ?case by (cases ts; cases nested) auto
next
  case (2 n as l ds)
  from "2.prems"(1) obtain t ts' where ts: "ts = t # ts'" and t: "t_kind t = Word n"
    and ts': "map t_kind ts' = map Word as @ Semicolon # (flatten ds @ ks)" by auto
  from parse_args_complete[OF ts'] obtain r1 where
    a: "parse_args n (t_line t) ts' = Inr (as, False, r1)" "map t_kind r1 = flatten ds @ ks"
    by fastforce
  from "2.IH"[OF a(2) "2.prems"(2)] ts t a(1) show ?case by auto
next
  case (3 n as b l ds)
  from "3.prems"(1) obtain t ts' where ts: "ts = t # ts'" and t: "t_kind t = Word n"
    and ts': "map t_kind ts' = map Word as @ OpenBrace # (flatten b @ CloseBrace # flatten ds @ ks)"
    by auto
  from parse_args_complete[OF ts'] obtain r1 where
    a: "parse_args n (t_line t) ts' = Inr (as, True, r1)"
      "map t_kind r1 = flatten b @ CloseBrace # flatten ds @ ks" by fastforce
  from "3.IH"(1)[OF a(2), of True] obtain b' r2 where
    b: "parse_block True r1 = Inr (b', r2)" "erase_lines b' = erase_lines b"
      "map t_kind r2 = flatten ds @ ks" by auto
  from "3.IH"(2)[OF b(3) "3.prems"(2)] ts t a(1) b show ?case by auto
qed

lemma parse_Inr: "parse ts = Inr ds \<longleftrightarrow> (\<exists>rest. parse_block False ts = Inr (ds, rest))"
  by (auto simp: parse_def and_then_Inr_iff)

definition print_config :: "directive list \<Rightarrow> string" where
  "print_config ds = print_tokens (flatten ds)"

lemma parse_complete:
  "map t_kind ts = flatten ds \<Longrightarrow> \<exists>ds'. parse ts = Inr ds' \<and> erase_lines ds' = erase_lines ds"
  using parse_block_complete[of ts ds "[]" False] by (auto simp: parse_Inr)

text \<open>C1: The parser accepts exactly the language of the grammar: it succeeds on a token sequence
  if and only if the sequence is what \<open>flatten\<close> writes for some directive tree, and the tree
  it returns is, up to line numbers, every tree with these tokens (the grammar is unambiguous).\<close>

theorem parse_exact:
  "(\<exists>ds'. parse ts = Inr ds' \<and> erase_lines ds' = erase_lines ds) \<longleftrightarrow> map t_kind ts = flatten ds"
proof
  assume "\<exists>ds'. parse ts = Inr ds' \<and> erase_lines ds' = erase_lines ds"
  then obtain ds' where p: "parse ts = Inr ds'" and e: "erase_lines ds' = erase_lines ds" by blast
  from p have "map t_kind ts = flatten ds'"
    using parse_block_sound[of False ts ds'] by (auto simp: parse_Inr block_end_def)
  then show "map t_kind ts = flatten ds"
    using e flatten_erase_lines by metis
qed (rule parse_complete)

text \<open>C15: The text round trip of the configuration front end: lexing and parsing the text written
  for any directive tree gives back that tree, up to line numbers.\<close>

theorem parse_print_config:
  "\<exists>ds'. and_then (lex (print_config ds)) parse = Inr ds' \<and> erase_lines ds' = erase_lines ds"
  using parse_complete[of "lines_from 1 (flatten ds)" ds]
  by (simp add: print_config_def lex_def lex_from_print del: lex_from.simps)

end
