(* ===== verification/Config_Include.thy ===== *)
theory Config_Include
  imports Config_Parser
begin

text \<open>
  Reading a configuration file and expanding its \<^verbatim>\<open>include\<close> directives
  (\<^verbatim>\<open>load\<close> and \<^verbatim>\<open>expand_includes\<close> of \<^verbatim>\<open>src/src/config/mod.rs\<close>). The file system is
  an argument: what \<^verbatim>\<open>canonicalize\<close> and \<^verbatim>\<open>read_to_string\<close> return for a path. Paths are
  strings of a Unix system; \<open>path_join\<close> and \<open>path_parent\<close> are the operations of
  \<^verbatim>\<open>std::path\<close> on them (\<open>path_parent\<close> on the normalised absolute paths
  \<^verbatim>\<open>canonicalize\<close> returns). The set \<^verbatim>\<open>visited\<close> of the files being expanded is a list and is
  threaded through the calls as the mutable reference is.

  The recursion of the source ends because a file cannot be entered twice; here it carries a bound
  on the include depth, \<open>Include_fuel\<close> being the value of a run that needs more. Shown here: the
  number of readable files is always enough and more fuel never changes a result; the expansion
  leaves no \<^verbatim>\<open>include\<close> at any depth; it gives the set of visited files back as it was; and it
  is the identity on a tree without includes.
\<close>

section \<open>Paths and files\<close>

record file_system =
  canonicalize :: "string \<Rightarrow> string option"
  read_to_string :: "string \<Rightarrow> string option"

definition is_absolute :: "string \<Rightarrow> bool" where
  "is_absolute p \<longleftrightarrow> starts_with p ''/''"

definition path_join :: "string \<Rightarrow> string \<Rightarrow> string" where
  "path_join base p =
     (if is_absolute p \<or> base = [] then p
      else if last base = CHR ''/'' then base @ p else base @ ''/'' @ p)"

definition path_parent :: "string \<Rightarrow> string option" where
  "path_parent p =
     (case split_once (CHR ''/'') (rev p) of
        None \<Rightarrow> if p = [] then None else Some []
      | Some (name, pre) \<Rightarrow>
          if name = [] \<and> pre = [] then None
          else if pre = [] then Some ''/'' else Some (rev pre))"

definition parent_or_dot :: "string \<Rightarrow> string" where
  "parent_or_dot p = (case path_parent p of None \<Rightarrow> ''.'' | Some q \<Rightarrow> q)"

section \<open>Expanding includes\<close>

text \<open>The file an \<^verbatim>\<open>include\<close> directive names: its canonical path and its directives.\<close>

definition open_include :: "file_system \<Rightarrow> directive \<Rightarrow> string \<Rightarrow> string list \<Rightarrow>
    config_error + (string \<times> directive list)" where
  "open_include fs d base visited =
     (case d_args d of
        [] \<Rightarrow> Inl (Include_requires_path (d_line d))
      | raw # _ \<Rightarrow>
          (let candidate = (if is_absolute raw then raw else path_join base raw)
           in case canonicalize fs candidate of
                None \<Rightarrow> Inl (Include_not_found (d_line d) raw)
              | Some path \<Rightarrow>
                  if path \<in> set visited then Inl (Include_cycle (d_line d) path)
                  else case read_to_string fs path of
                         None \<Rightarrow> Inl (Include_unreadable (d_line d) path)
                       | Some text \<Rightarrow>
                           and_then (lex text) (\<lambda>tokens.
                           and_then (parse tokens) (\<lambda>sub. Inr (path, sub)))))"

text \<open>\<open>expand_one\<close> is the body of the \<^verbatim>\<open>for\<close> loop: the directives that replace \<open>d\<close>.\<close>

fun expand_one :: "file_system \<Rightarrow> nat \<Rightarrow> directive \<Rightarrow> string \<Rightarrow> string list \<Rightarrow>
      config_error + (directive list \<times> string list)"
  and expand_includes :: "file_system \<Rightarrow> nat \<Rightarrow> directive list \<Rightarrow> string \<Rightarrow> string list \<Rightarrow>
      config_error + (directive list \<times> string list)" where
  "expand_one fs fuel (Directive name args blk line) base visited =
     (if name = ''include'' then
        (case open_include fs (Directive name args blk line) base visited of
           Inl e \<Rightarrow> Inl e
         | Inr (path, sub) \<Rightarrow>
             (case fuel of
                0 \<Rightarrow> Inl Include_fuel
              | Suc fuel' \<Rightarrow>
                  (case expand_includes fs fuel' sub (parent_or_dot path) (path # visited) of
                     Inl e \<Rightarrow> Inl e
                   | Inr (expanded, visited') \<Rightarrow> Inr (expanded, removeAll path visited'))))
      else
        (case blk of
           None \<Rightarrow> Inr ([Directive name args None line], visited)
         | Some b \<Rightarrow>
             (case expand_includes fs fuel b base visited of
                Inl e \<Rightarrow> Inl e
              | Inr (b', visited') \<Rightarrow> Inr ([Directive name args (Some b') line], visited'))))"
| "expand_includes fs fuel [] base visited = Inr ([], visited)"
| "expand_includes fs fuel (d # ds) base visited =
     (case expand_one fs fuel d base visited of
        Inl e \<Rightarrow> Inl e
      | Inr (out, visited') \<Rightarrow>
          (case expand_includes fs fuel ds base visited' of
             Inl e \<Rightarrow> Inl e
           | Inr (out', visited'') \<Rightarrow> Inr (out @ out', visited'')))"

definition load_directives :: "file_system \<Rightarrow> nat \<Rightarrow> string \<Rightarrow> config_error + directive list" where
  "load_directives fs fuel path =
     and_then (ok_or (Cannot_read_config path) (canonicalize fs path)) (\<lambda>abs.
     and_then (ok_or (Cannot_read_config abs) (read_to_string fs abs)) (\<lambda>text.
     and_then (lex text) (\<lambda>tokens.
     and_then (parse tokens) (\<lambda>dirs.
     and_then (expand_includes fs fuel dirs (parent_or_dot abs) [abs]) (\<lambda>(dirs', visited).
     Inr dirs')))))"

section \<open>No include is left and the visited set is restored\<close>

fun no_include :: "directive list \<Rightarrow> bool" where
  "no_include [] = True"
| "no_include (Directive n as None l # ds) \<longleftrightarrow> n \<noteq> ''include'' \<and> no_include ds"
| "no_include (Directive n as (Some b) l # ds) \<longleftrightarrow>
     n \<noteq> ''include'' \<and> no_include b \<and> no_include ds"

lemma no_include_append: "no_include (xs @ ys) \<longleftrightarrow> no_include xs \<and> no_include ys"
  by (induction xs rule: no_include.induct) auto

lemma open_include_unvisited: "open_include fs d base vis = Inr (path, sub) \<Longrightarrow> path \<notin> set vis"
  by (auto simp: open_include_def and_then_Inr_iff Let_def
      split: list.splits option.splits if_splits)

lemma open_include_readable:
  "open_include fs d base vis = Inr (path, sub) \<Longrightarrow> read_to_string fs path \<noteq> None"
  by (auto simp: open_include_def and_then_Inr_iff Let_def
      split: list.splits option.splits if_splits)

lemma expand_result:
  "expand_one fs fuel d base vis = Inr (out, vis') \<Longrightarrow> vis' = vis \<and> no_include out"
  "expand_includes fs fuel ds base vis = Inr (out, vis') \<Longrightarrow> vis' = vis \<and> no_include out"
proof (induction fs fuel d base vis and fs fuel ds base vis arbitrary: out vis' and out vis'
    rule: expand_one_expand_includes.induct)
  case (1 fs fuel name args blk line base visited)
  show ?case
  proof (cases "name = ''include''")
    case True
    with "1.prems" obtain path sub f ex v where
      o: "open_include fs (Directive name args blk line) base visited = Inr (path, sub)"
      and f: "fuel = Suc f"
      and e: "expand_includes fs f sub (parent_or_dot path) (path # visited) = Inr (ex, v)"
      and r: "out = ex" "vis' = removeAll path v"
      by (auto split: sum.splits nat.splits)
    from "1.IH"(1)[OF True o refl f e] r open_include_unvisited[OF o] show ?thesis by simp
  next
    case False
    show ?thesis
    proof (cases blk)
      case None
      with False "1.prems" show ?thesis by auto
    next
      case (Some b)
      with False "1.prems" obtain b' where e: "expand_includes fs fuel b base visited = Inr (b', vis')"
        and out: "out = [Directive name args (Some b') line]"
        by (auto split: sum.splits)
      from "1.IH"(2)[OF False Some e] out False show ?thesis by simp
    qed
  qed
next
  case (2 fs fuel base visited)
  then show ?case by simp
next
  case (3 fs fuel d ds base visited)
  from "3.prems" obtain o1 v1 o2 where
    a: "expand_one fs fuel d base visited = Inr (o1, v1)"
    and b: "expand_includes fs fuel ds base v1 = Inr (o2, vis')" and o: "out = o1 @ o2"
    by (auto split: sum.splits)
  from "3.IH"(1)[OF a] "3.IH"(2)[OF a refl b] o show ?case by (simp add: no_include_append)
qed

lemma expand_no_include:
  "no_include ds \<Longrightarrow> expand_includes fs fuel ds base vis = Inr (ds, vis)"
  by (induction ds rule: no_include.induct) auto

section \<open>Fuel\<close>

text \<open>The files that can still be entered: readable and not being expanded.\<close>

definition readable :: "file_system \<Rightarrow> string set" where
  "readable fs = {p. read_to_string fs p \<noteq> None}"

lemma push_token_Inl: "push_token k l m = Inl e \<longleftrightarrow> m = Inl e"
  by (auto simp: push_token_def and_then_Inl_iff)

lemma lex_from_error: "lex_from l cs = Inl e \<Longrightarrow> e \<noteq> Include_fuel"
proof (induction l cs rule: lex_from.induct)
  case (2 line c cs)
  then show ?case
    by (simp add: push_token_Inl split: if_splits option.splits prod.splits) auto
qed simp

lemma parse_args_error: "parse_args n l ts = Inl e \<Longrightarrow> e \<noteq> Include_fuel"
  by (induction ts) (auto simp: and_then_Inl_iff split: tok_kind.splits)

lemma parse_block_error: "parse_block nested ts = Inl e \<Longrightarrow> e \<noteq> Include_fuel"
proof (induction nested ts rule: parse_block.induct)
  case (2 nested t ts)
  then show ?case
    by (auto split: tok_kind.splits if_splits sum.splits prod.splits dest: parse_args_error)
qed (simp split: if_splits)

lemma open_include_error: "open_include fs d base vis \<noteq> Inl Include_fuel"
  by (auto simp: open_include_def Let_def and_then_Inl_iff lex_def parse_def
      split: list.splits option.splits if_splits dest: lex_from_error parse_block_error)

lemma card_readable_enter:
  assumes "finite (readable fs)" and "open_include fs d base vis = Inr (path, sub)"
    and "card (readable fs - set vis) \<le> fuel"
  shows "\<exists>f. fuel = Suc f \<and> card (readable fs - set (path # vis)) \<le> f"
proof -
  have "path \<in> readable fs - set vis"
    using open_include_unvisited[OF assms(2)] open_include_readable[OF assms(2)]
    by (simp add: readable_def)
  moreover have "readable fs - set (path # vis) = (readable fs - set vis) - {path}" by auto
  ultimately have "Suc (card (readable fs - set (path # vis))) = card (readable fs - set vis)"
    using assms(1) by (metis card_Suc_Diff1 finite_Diff)
  then show ?thesis using assms(3) by (cases fuel) auto
qed

lemma expand_fuel_enough:
  "finite (readable fs) \<Longrightarrow> card (readable fs - set vis) \<le> fuel \<Longrightarrow>
     expand_one fs fuel d base vis \<noteq> Inl Include_fuel"
  "finite (readable fs) \<Longrightarrow> card (readable fs - set vis) \<le> fuel \<Longrightarrow>
     expand_includes fs fuel ds base vis \<noteq> Inl Include_fuel"
proof (induction fs fuel d base vis and fs fuel ds base vis
    rule: expand_one_expand_includes.induct)
  case (1 fs fuel name args blk line base visited)
  show ?case
  proof (cases "name = ''include''")
    case True
    show ?thesis
    proof (cases "open_include fs (Directive name args blk line) base visited")
      case (Inl e)
      with open_include_error have "e \<noteq> Include_fuel" by metis
      with Inl True show ?thesis by simp
    next
      case (Inr p)
      then obtain path sub where
        o: "open_include fs (Directive name args blk line) base visited = Inr (path, sub)"
        by (cases p) auto
      from card_readable_enter[OF "1.prems"(1) o "1.prems"(2)] obtain f where
        f: "fuel = Suc f" "card (readable fs - set (path # visited)) \<le> f" by blast
      from "1.IH"(1)[OF True o refl f(1) "1.prems"(1) f(2)] True o f(1)
      show ?thesis by (auto split: sum.splits)
    qed
  next
    case False
    show ?thesis
    proof (cases blk)
      case (Some b)
      with "1.IH"(2)[OF False Some "1.prems"] False show ?thesis by (auto split: sum.splits)
    qed (use False in simp)
  qed
next
  case (2 fs fuel base visited)
  then show ?case by simp
next
  case (3 fs fuel d ds base visited)
  have "expand_includes fs fuel ds base v1 \<noteq> Inl Include_fuel"
    if a: "expand_one fs fuel d base visited = Inr (o1, v1)" for o1 v1
    using "3.IH"(2)[OF a refl] expand_result(1)[OF a] "3.prems" by simp
  with "3.IH"(1)[OF "3.prems"] show ?case by (auto split: sum.splits)
qed

lemma expand_fuel_mono:
  "expand_one fs fuel d base vis = r \<Longrightarrow> r \<noteq> Inl Include_fuel \<Longrightarrow> fuel \<le> fuel' \<Longrightarrow>
     expand_one fs fuel' d base vis = r"
  "expand_includes fs fuel ds base vis = r \<Longrightarrow> r \<noteq> Inl Include_fuel \<Longrightarrow> fuel \<le> fuel' \<Longrightarrow>
     expand_includes fs fuel' ds base vis = r"
proof (induction fs fuel d base vis and fs fuel ds base vis arbitrary: fuel' r and fuel' r
    rule: expand_one_expand_includes.induct)
  case (1 fs fuel name args blk line base visited)
  show ?case
  proof (cases "name = ''include''")
    case True
    show ?thesis
    proof (cases "open_include fs (Directive name args blk line) base visited")
      case (Inl e)
      with True "1.prems" show ?thesis by simp
    next
      case (Inr p)
      then obtain path sub where
        o: "open_include fs (Directive name args blk line) base visited = Inr (path, sub)"
        by (cases p) auto
      with True "1.prems" obtain f f' where f: "fuel = Suc f" "fuel' = Suc f'" "f \<le> f'"
        by (cases fuel; cases fuel') auto
      have "expand_includes fs f sub (parent_or_dot path) (path # visited) \<noteq> Inl Include_fuel"
        using "1.prems" True o f(1) by auto
      from "1.IH"(1)[OF True o refl f(1) refl this f(3)] True o f(1,2) "1.prems"(1)
      show ?thesis by simp
    qed
  next
    case False
    show ?thesis
    proof (cases blk)
      case (Some b)
      have "expand_includes fs fuel b base visited \<noteq> Inl Include_fuel"
        using "1.prems" False Some by auto
      from "1.IH"(2)[OF False Some refl this "1.prems"(3)] False Some "1.prems"(1)
      show ?thesis by simp
    qed (use False "1.prems" in simp)
  qed
next
  case (2 fs fuel base visited)
  then show ?case by simp
next
  case (3 fs fuel d ds base visited)
  have "expand_one fs fuel d base visited \<noteq> Inl Include_fuel" using "3.prems" by auto
  note one = "3.IH"(1)[OF refl this "3.prems"(3)]
  show ?case
  proof (cases "expand_one fs fuel d base visited")
    case (Inl e)
    then have "r = Inl e" using "3.prems"(1) by simp
    moreover have "expand_one fs fuel' d base visited = Inl e" using one Inl by simp
    ultimately show ?thesis by simp
  next
    case (Inr p)
    then obtain o1 v1 where a: "expand_one fs fuel d base visited = Inr (o1, v1)"
      by (cases p) auto
    have "expand_includes fs fuel ds base v1 \<noteq> Inl Include_fuel" using "3.prems" a by auto
    from "3.IH"(2)[OF a refl refl this "3.prems"(3)] one a "3.prems"(1) show ?thesis by simp
  qed
qed

section \<open>Loading\<close>

lemma load_directives_Inr:
  "load_directives fs fuel path = Inr ds \<Longrightarrow>
   \<exists>dirs abs. expand_includes fs fuel dirs (parent_or_dot abs) [abs] = Inr (ds, [abs])"
  by (auto simp: load_directives_def and_then_Inr_iff ok_or_Inr_iff dest: expand_result(2))

text \<open>Expansion is complete: when a configuration file loads, no \<^verbatim>\<open>include\<close> directive is left
  in the tree, at the top level or inside any block, however deeply the files nest.\<close>

theorem load_no_include: "load_directives fs fuel path = Inr ds \<Longrightarrow> no_include ds"
  by (auto dest!: load_directives_Inr expand_result(2))

definition demo_fs :: file_system where
  "demo_fs = \<lparr>
     canonicalize = (\<lambda>p. if p \<in> {''/e/main'', ''/e/inc'', ''/e/loop''} then Some p else None),
     read_to_string = (\<lambda>p. if p = ''/e/main'' then Some ''http { include inc; }''
       else if p = ''/e/inc'' then Some ''server { }''
       else if p = ''/e/loop'' then Some ''include loop;'' else None)\<rparr>"

theorem load_no_include_witness:
  "load_directives demo_fs 1 ''/e/main'' =
     Inr [Directive ''http'' [] (Some [Directive ''server'' [] (Some []) 1]) 1] \<and>
   no_include [Directive ''http'' [] (Some [Directive ''server'' [] (Some []) 1]) 1]"
proof -
  have l: "load_directives demo_fs 1 ''/e/main'' =
      Inr [Directive ''http'' [] (Some [Directive ''server'' [] (Some []) 1]) 1]"
    by code_simp
  show ?thesis using l load_no_include[OF l] by (rule conjI)
qed

text \<open>C35: The expansion ends: with as many levels as the file system has readable files the include
  depth bound is never hit, and any larger bound gives the same result, value or error, for every
  file. So a cycle of includes is always reported instead of being followed.\<close>

theorem load_fuel_enough:
  assumes "finite (readable fs)" and "card (readable fs) \<le> fuel"
  shows "load_directives fs fuel path \<noteq> Inl Include_fuel \<and>
         load_directives fs fuel path = load_directives fs (card (readable fs)) path"
proof -
  have enough: "expand_includes fs f ds base vis \<noteq> Inl Include_fuel"
    if "card (readable fs) \<le> f" for f ds base vis
    using expand_fuel_enough(2)[OF assms(1)] that assms(1)
    by (meson card_mono Diff_subset le_trans)
  have same: "expand_includes fs fuel ds base vis = expand_includes fs (card (readable fs)) ds base vis"
    for ds base vis
    using expand_fuel_mono(2)[OF refl enough[OF order_refl] assms(2)] .
  have "load_directives fs fuel path \<noteq> Inl Include_fuel"
    using enough[OF assms(2)]
    by (auto simp: load_directives_def and_then_Inl_iff ok_or_def lex_def parse_def
        dest: lex_from_error parse_block_error split: option.splits)
  then show ?thesis by (simp add: load_directives_def same)
qed

lemma readable_demo: "readable demo_fs = {''/e/main'', ''/e/inc'', ''/e/loop''}"
  by (auto simp: readable_def demo_fs_def)

theorem load_fuel_enough_witness:
  "load_directives demo_fs 7 ''/e/loop'' = Inl (Include_cycle 1 ''/e/loop'') \<and>
   load_directives demo_fs 7 ''/e/loop'' = load_directives demo_fs 3 ''/e/loop''"
proof -
  have "card (readable demo_fs) = 3" by (simp add: readable_demo)
  moreover have "finite (readable demo_fs)" by (simp add: readable_demo)
  moreover have "load_directives demo_fs 7 ''/e/loop'' = Inl (Include_cycle 1 ''/e/loop'')"
    by code_simp
  ultimately show ?thesis using load_fuel_enough[of demo_fs 7 "''/e/loop''"] by simp
qed

end
