(* ===== verification/Metrics.thy ===== *)
theory Metrics
  imports Rust_Text
begin

text \<open>
  The process-wide counters (\<^verbatim>\<open>src/src/metrics.rs\<close>). The \<^verbatim>\<open>static\<close> atomics are the
  fields of one record of 64-bit words, threaded through the operations that update them;
  \<^verbatim>\<open>fetch_add\<close> and \<^verbatim>\<open>fetch_sub\<close> wrap around as word addition and subtraction do. The RAII
  guards are the pair of operations that run when one is made and when it is dropped.
  \<open>metrics_render\<close> writes the Prometheus text; the uptime, a clock reading printed with three
  decimals, is passed in as text.

  Shown here: the request counter is always the sum of the counters of the five status classes,
  whatever sequence of operations runs.
\<close>

section \<open>Counters\<close>

record metrics =
  m_reqs :: u64
  m_resp_1xx :: u64
  m_resp_2xx :: u64
  m_resp_3xx :: u64
  m_resp_4xx :: u64
  m_resp_5xx :: u64
  m_conns_accepted :: u64
  m_active_conns :: u64
  m_proxy_attempts :: u64
  m_proxy_failures :: u64
  m_tls_ok :: u64
  m_tls_fail :: u64
  m_stream_accepted :: u64
  m_stream_active :: u64
  m_stream_bytes_to_up :: u64
  m_stream_bytes_from_up :: u64
  m_cache_hits :: u64
  m_cache_misses :: u64
  m_cache_bypass :: u64
  m_cache_bytes :: u64
  m_cache_entries :: u64
  m_cache_evicted_bytes :: u64
  m_limit_req_allowed :: u64
  m_limit_req_denied :: u64
  m_limit_conn_allowed :: u64
  m_limit_conn_denied :: u64
  m_mirror_attempts :: u64
  m_mirror_failures :: u64

definition initial_metrics :: metrics where
  "initial_metrics = \<lparr>m_reqs = 0, m_resp_1xx = 0, m_resp_2xx = 0,
     m_resp_3xx = 0, m_resp_4xx = 0, m_resp_5xx = 0,
     m_conns_accepted = 0, m_active_conns = 0, m_proxy_attempts = 0,
     m_proxy_failures = 0, m_tls_ok = 0, m_tls_fail = 0,
     m_stream_accepted = 0, m_stream_active = 0, m_stream_bytes_to_up = 0,
     m_stream_bytes_from_up = 0, m_cache_hits = 0, m_cache_misses = 0,
     m_cache_bypass = 0, m_cache_bytes = 0, m_cache_entries = 0,
     m_cache_evicted_bytes = 0, m_limit_req_allowed = 0, m_limit_req_denied = 0,
     m_limit_conn_allowed = 0, m_limit_conn_denied = 0, m_mirror_attempts = 0,
     m_mirror_failures = 0\<rparr>"

definition record_request :: "nat \<Rightarrow> metrics \<Rightarrow> metrics" where
  "record_request status m =
     (let m = m\<lparr>m_reqs := m_reqs m + 1\<rparr>; k = status div 100
      in if k = 1 then m\<lparr>m_resp_1xx := m_resp_1xx m + 1\<rparr>
         else if k = 2 then m\<lparr>m_resp_2xx := m_resp_2xx m + 1\<rparr>
         else if k = 3 then m\<lparr>m_resp_3xx := m_resp_3xx m + 1\<rparr>
         else if k = 4 then m\<lparr>m_resp_4xx := m_resp_4xx m + 1\<rparr>
         else m\<lparr>m_resp_5xx := m_resp_5xx m + 1\<rparr>)"

definition record_conn_accepted :: "metrics \<Rightarrow> metrics" where
  "record_conn_accepted m = m\<lparr>m_conns_accepted := m_conns_accepted m + 1\<rparr>"

definition record_proxy_attempt :: "metrics \<Rightarrow> metrics" where
  "record_proxy_attempt m = m\<lparr>m_proxy_attempts := m_proxy_attempts m + 1\<rparr>"

definition record_proxy_failure :: "metrics \<Rightarrow> metrics" where
  "record_proxy_failure m = m\<lparr>m_proxy_failures := m_proxy_failures m + 1\<rparr>"

definition record_tls_handshake_success :: "metrics \<Rightarrow> metrics" where
  "record_tls_handshake_success m = m\<lparr>m_tls_ok := m_tls_ok m + 1\<rparr>"

definition record_tls_handshake_failure :: "metrics \<Rightarrow> metrics" where
  "record_tls_handshake_failure m = m\<lparr>m_tls_fail := m_tls_fail m + 1\<rparr>"

definition record_stream_accepted :: "metrics \<Rightarrow> metrics" where
  "record_stream_accepted m = m\<lparr>m_stream_accepted := m_stream_accepted m + 1\<rparr>"

definition record_cache_hit :: "metrics \<Rightarrow> metrics" where
  "record_cache_hit m = m\<lparr>m_cache_hits := m_cache_hits m + 1\<rparr>"

definition record_cache_miss :: "metrics \<Rightarrow> metrics" where
  "record_cache_miss m = m\<lparr>m_cache_misses := m_cache_misses m + 1\<rparr>"

definition record_cache_bypass :: "metrics \<Rightarrow> metrics" where
  "record_cache_bypass m = m\<lparr>m_cache_bypass := m_cache_bypass m + 1\<rparr>"

definition record_limit_req_allowed :: "metrics \<Rightarrow> metrics" where
  "record_limit_req_allowed m = m\<lparr>m_limit_req_allowed := m_limit_req_allowed m + 1\<rparr>"

definition record_limit_req_denied :: "metrics \<Rightarrow> metrics" where
  "record_limit_req_denied m = m\<lparr>m_limit_req_denied := m_limit_req_denied m + 1\<rparr>"

definition record_limit_conn_allowed :: "metrics \<Rightarrow> metrics" where
  "record_limit_conn_allowed m = m\<lparr>m_limit_conn_allowed := m_limit_conn_allowed m + 1\<rparr>"

definition record_limit_conn_denied :: "metrics \<Rightarrow> metrics" where
  "record_limit_conn_denied m = m\<lparr>m_limit_conn_denied := m_limit_conn_denied m + 1\<rparr>"

definition record_mirror_attempt :: "metrics \<Rightarrow> metrics" where
  "record_mirror_attempt m = m\<lparr>m_mirror_attempts := m_mirror_attempts m + 1\<rparr>"

definition record_mirror_failure :: "metrics \<Rightarrow> metrics" where
  "record_mirror_failure m = m\<lparr>m_mirror_failures := m_mirror_failures m + 1\<rparr>"

definition record_stream_bytes :: "u64 \<Rightarrow> u64 \<Rightarrow> metrics \<Rightarrow> metrics" where
  "record_stream_bytes to_upstream from_upstream m =
     m\<lparr>m_stream_bytes_to_up := m_stream_bytes_to_up m + to_upstream,
       m_stream_bytes_from_up := m_stream_bytes_from_up m + from_upstream\<rparr>"

definition record_cache_evict :: "nat \<Rightarrow> metrics \<Rightarrow> metrics" where
  "record_cache_evict bytes m = m\<lparr>m_cache_evicted_bytes := m_cache_evicted_bytes m + of_nat bytes\<rparr>"

definition set_cache_bytes :: "nat \<Rightarrow> metrics \<Rightarrow> metrics" where
  "set_cache_bytes v m = m\<lparr>m_cache_bytes := of_nat v\<rparr>"

definition set_cache_entries :: "nat \<Rightarrow> metrics \<Rightarrow> metrics" where
  "set_cache_entries v m = m\<lparr>m_cache_entries := of_nat v\<rparr>"

definition stream_guard_new :: "metrics \<Rightarrow> metrics" where
  "stream_guard_new m = m\<lparr>m_stream_active := m_stream_active m + 1\<rparr>"

definition stream_guard_drop :: "metrics \<Rightarrow> metrics" where
  "stream_guard_drop m = m\<lparr>m_stream_active := m_stream_active m - 1\<rparr>"

definition conn_guard_new :: "metrics \<Rightarrow> metrics" where
  "conn_guard_new m = m\<lparr>m_active_conns := m_active_conns m + 1\<rparr>"

definition conn_guard_drop :: "metrics \<Rightarrow> metrics" where
  "conn_guard_drop m = m\<lparr>m_active_conns := m_active_conns m - 1\<rparr>"

section \<open>Exposition\<close>

definition writeln :: "string \<Rightarrow> string" where
  "writeln s = s @ [CHR 0x0A]"

definition show_u64 :: "u64 \<Rightarrow> string" where
  "show_u64 w = show_nat (unat w)"

definition counter_table :: "metrics \<Rightarrow> (string \<times> u64 \<times> string) list" where
  "counter_table m = [
     (''elrond_requests_total'', m_reqs m,
      ''Total HTTP requests handled.''),
     (''elrond_connections_accepted_total'', m_conns_accepted m,
      ''Total connections accepted by every listener.''),
     (''elrond_proxy_attempts_total'', m_proxy_attempts m,
      ''Total proxy attempts (including retries).''),
     (''elrond_proxy_failures_total'', m_proxy_failures m,
      ''Total proxy attempts that failed at the connection level.''),
     (''elrond_tls_handshakes_total'', m_tls_ok m,
      ''Successful TLS handshakes.''),
     (''elrond_tls_handshake_failures_total'', m_tls_fail m,
      ''Failed TLS handshakes.''),
     (''elrond_stream_connections_accepted_total'', m_stream_accepted m,
      ''Total TCP stream connections accepted.''),
     (''elrond_stream_bytes_client_to_upstream_total'', m_stream_bytes_to_up m,
      ''Total bytes piped from stream clients to upstreams.''),
     (''elrond_stream_bytes_upstream_to_client_total'', m_stream_bytes_from_up m,
      ''Total bytes piped from stream upstreams back to clients.''),
     (''elrond_cache_hits_total'', m_cache_hits m,
      ''Proxy cache hits.''),
     (''elrond_cache_misses_total'', m_cache_misses m,
      ''Proxy cache misses.''),
     (''elrond_cache_bypass_total'', m_cache_bypass m,
      ''Proxy cache bypasses (safety guard tripped).''),
     (''elrond_cache_evicted_bytes_total'', m_cache_evicted_bytes m,
      ''Bytes removed from the proxy cache through eviction or expiry.''),
     (''elrond_limit_req_allowed_total'', m_limit_req_allowed m,
      ''Requests allowed by limit_req.''),
     (''elrond_limit_req_denied_total'', m_limit_req_denied m,
      ''Requests denied (503) by limit_req.''),
     (''elrond_limit_conn_allowed_total'', m_limit_conn_allowed m,
      ''Connections allowed by limit_conn.''),
     (''elrond_limit_conn_denied_total'', m_limit_conn_denied m,
      ''Connections denied (503) by limit_conn.''),
     (''elrond_mirror_attempts_total'', m_mirror_attempts m,
      ''Mirror (shadow) requests dispatched.''),
     (''elrond_mirror_failures_total'', m_mirror_failures m,
      ''Mirror requests that errored, timed out, or had a bad URL.'')]"

definition render_counter :: "string \<times> u64 \<times> string \<Rightarrow> string" where
  "render_counter c = (case c of (name, v, help) \<Rightarrow>
     writeln (''# HELP '' @ name @ '' '' @ help) @
     writeln (''# TYPE '' @ name @ '' counter'') @
     writeln (name @ '' '' @ show_u64 v))"

definition class_line :: "string \<Rightarrow> u64 \<Rightarrow> string" where
  "class_line c v = writeln (''elrond_responses_total{status_class='' @ [CHR 0x22] @ c @ [CHR 0x22] @
     ''} '' @ show_u64 v)"

definition render_gauge :: "string \<Rightarrow> string \<Rightarrow> string \<Rightarrow> string" where
  "render_gauge name help v =
     writeln (''# HELP '' @ name @ '' '' @ help) @
     writeln (''# TYPE '' @ name @ '' gauge'') @
     writeln (name @ '' '' @ v)"

definition metrics_render :: "string \<Rightarrow> string \<Rightarrow> metrics \<Rightarrow> string" where
  "metrics_render uptime version m =
     writeln ''# HELP elrond_build_info Build info.'' @
     writeln ''# TYPE elrond_build_info gauge'' @
     writeln (''elrond_build_info{version='' @ [CHR 0x22] @ version @ [CHR 0x22] @ ''} 1'') @
     render_gauge ''elrond_uptime_seconds'' ''Process uptime in seconds.'' uptime @
     concat (map render_counter (counter_table m)) @
     writeln ''# HELP elrond_responses_total Responses by status class.'' @
     writeln ''# TYPE elrond_responses_total counter'' @
     class_line ''1xx'' (m_resp_1xx m) @
     class_line ''2xx'' (m_resp_2xx m) @
     class_line ''3xx'' (m_resp_3xx m) @
     class_line ''4xx'' (m_resp_4xx m) @
     class_line ''5xx'' (m_resp_5xx m) @
     render_gauge ''elrond_active_connections'' ''Currently open client connections.''
       (show_u64 (m_active_conns m)) @
     render_gauge ''elrond_stream_active_connections'' ''Currently open stream (TCP) connections.''
       (show_u64 (m_stream_active m)) @
     render_gauge ''elrond_cache_bytes'' ''Bytes currently held in the proxy cache.''
       (show_u64 (m_cache_bytes m)) @
     render_gauge ''elrond_cache_entries'' ''Number of entries currently in the proxy cache.''
       (show_u64 (m_cache_entries m))"

section \<open>Sequences of operations\<close>

text \<open>The operations that touch the request counters or the connection gauge, and all the
  others.\<close>

inductive metrics_step :: "metrics \<Rightarrow> metrics \<Rightarrow> bool" where
  request: "metrics_step m (record_request status m)"

| conn_accepted: "metrics_step m (record_conn_accepted m)"
| proxy_attempt: "metrics_step m (record_proxy_attempt m)"
| proxy_failure: "metrics_step m (record_proxy_failure m)"
| tls_handshake_success: "metrics_step m (record_tls_handshake_success m)"
| tls_handshake_failure: "metrics_step m (record_tls_handshake_failure m)"
| stream_accepted: "metrics_step m (record_stream_accepted m)"
| cache_hit: "metrics_step m (record_cache_hit m)"
| cache_miss: "metrics_step m (record_cache_miss m)"
| cache_bypass: "metrics_step m (record_cache_bypass m)"
| limit_req_allowed: "metrics_step m (record_limit_req_allowed m)"
| limit_req_denied: "metrics_step m (record_limit_req_denied m)"
| limit_conn_allowed: "metrics_step m (record_limit_conn_allowed m)"
| limit_conn_denied: "metrics_step m (record_limit_conn_denied m)"
| mirror_attempt: "metrics_step m (record_mirror_attempt m)"
| mirror_failure: "metrics_step m (record_mirror_failure m)"
| stream_bytes: "metrics_step m (record_stream_bytes a b m)"
| cache_evict: "metrics_step m (record_cache_evict n m)"
| cache_bytes: "metrics_step m (set_cache_bytes n m)"
| cache_entries: "metrics_step m (set_cache_entries n m)"
| stream_new: "metrics_step m (stream_guard_new m)"
| stream_drop: "metrics_step m (stream_guard_drop m)"
| conn_new: "metrics_step m (conn_guard_new m)"
| conn_drop: "metrics_step m (conn_guard_drop m)"

definition responses_total :: "metrics \<Rightarrow> u64" where
  "responses_total m =
     m_resp_1xx m + m_resp_2xx m + m_resp_3xx m + m_resp_4xx m + m_resp_5xx m"

lemmas metrics_defs = record_conn_accepted_def record_proxy_attempt_def record_proxy_failure_def
  record_tls_handshake_success_def record_tls_handshake_failure_def record_stream_accepted_def
  record_cache_hit_def record_cache_miss_def record_cache_bypass_def
  record_limit_req_allowed_def record_limit_req_denied_def record_limit_conn_allowed_def
  record_limit_conn_denied_def record_mirror_attempt_def record_mirror_failure_def record_stream_bytes_def
  record_cache_evict_def set_cache_bytes_def set_cache_entries_def stream_guard_new_def
  stream_guard_drop_def conn_guard_new_def conn_guard_drop_def

lemma metrics_step_balance:
  "metrics_step m m' \<Longrightarrow> m_reqs m = responses_total m \<Longrightarrow> m_reqs m' = responses_total m'"
proof (induction rule: metrics_step.induct)
  case (request m status)
  then show ?case by (simp add: record_request_def responses_total_def Let_def)
qed (simp_all add: metrics_defs responses_total_def)

text \<open>The request counter is the sum of the counters of the five status classes after any
  sequence of operations on the metrics, wrap-around included.\<close>

theorem requests_balance:
  assumes "metrics_step\<^sup>*\<^sup>* initial_metrics m"
  shows "m_reqs m = responses_total m"
  using assms
proof (induction rule: rtranclp_induct)
  case base
  show ?case by (simp add: initial_metrics_def responses_total_def)
next
  case (step m m')
  then show ?case by (blast intro: metrics_step_balance)
qed

theorem requests_balance_witness:
  "m_reqs (record_request 404 (record_request 200 initial_metrics)) =
     responses_total (record_request 404 (record_request 200 initial_metrics))"
proof (rule requests_balance)
  have "metrics_step initial_metrics (record_request 200 initial_metrics)" by (rule request)
  moreover have "metrics_step (record_request 200 initial_metrics)
      (record_request 404 (record_request 200 initial_metrics))" by (rule request)
  ultimately show "metrics_step\<^sup>*\<^sup>* initial_metrics
      (record_request 404 (record_request 200 initial_metrics))"
    by (meson r_into_rtranclp rtranclp.rtrancl_into_rtrancl)
qed

end
