(* ===== verification/Limit.thy ===== *)
theory Limit
  imports Template Metrics
begin

text \<open>
  Request-rate and connection limiting (\<^verbatim>\<open>src/src/limit.rs\<close>). A \<open>limit_req_zone\<close> keeps a
  token bucket per key, a \<open>limit_conn_zone\<close> the number of live guards per key. Each operation
  takes the state its mutex protects and returns the new one, together with the global counters; a
  lock is taken for the whole of an operation, so a sequence of calls is an interleaving at this
  granularity (a poisoned lock, left by a thread that panicked, is not modelled). An
  \<^verbatim>\<open>Instant\<close> is a number of nanoseconds and the \<^verbatim>\<open>f64\<close> tokens are rational numbers, so
  rounding is not modelled; \<open>parse_f64\<close> reads the finite decimal numbers (Rust also accepts
  the spellings of infinities and NaN).

  Shown here: a zone never holds more buckets than its cap; over any run without eviction the
  number of accepted requests of a key is at most its burst plus one plus the rate times the
  elapsed time, and the first \<open>burst + 1\<close> requests of a key are always accepted; and for
  connections the stored count is exactly the number of live guards and stays within the limit,
  through any sequence of acquisitions, refusals and drops.
\<close>

section \<open>Rates\<close>

definition approx_bytes_per_entry :: nat where
  "approx_bytes_per_entry = 64"

definition strip_sign :: "string \<Rightarrow> bool \<times> string" where
  "strip_sign s =
     (case s of
        [] \<Rightarrow> (False, [])
      | c # r \<Rightarrow> if c = CHR ''-'' then (True, r) else if c = CHR ''+'' then (False, r) else (False, s))"

definition parse_exponent :: "string \<Rightarrow> int option" where
  "parse_exponent s =
     (case s of
        [] \<Rightarrow> Some 0
      | c # r \<Rightarrow>
          (let (neg, ds) = strip_sign r
           in if (c = CHR ''e'' \<or> c = CHR ''E'') \<and> ds \<noteq> [] \<and> list_all is_ascii_digit ds
              then Some (if neg then - int (digits_value ds) else int (digits_value ds))
              else None))"

definition scale10 :: "int \<Rightarrow> rat \<Rightarrow> rat" where
  "scale10 e x = (if 0 \<le> e then x * 10 ^ nat e else x / 10 ^ nat (- e))"

definition parse_f64 :: "string \<Rightarrow> rat option" where
  "parse_f64 s =
     (let (neg, r) = strip_sign s;
          ip = takeWhile is_ascii_digit r;
          r1 = dropWhile is_ascii_digit r;
          (fp, r2) = (if r1 \<noteq> [] \<and> hd r1 = CHR ''.''
                      then (takeWhile is_ascii_digit (tl r1), dropWhile is_ascii_digit (tl r1))
                      else ([], r1))
      in if ip = [] \<and> fp = [] then None
         else map_option
                (\<lambda>e. (if neg then -1 else 1) *
                      scale10 (e - int (length fp)) (of_nat (digits_value (ip @ fp))))
                (parse_exponent r2))"

definition parse_rate :: "string \<Rightarrow> rat option" where
  "parse_rate s =
     (case split_once_str ''r/'' (trim s) of
        None \<Rightarrow> None
      | Some (num, unit) \<Rightarrow>
          (case parse_f64 num of
             None \<Rightarrow> None
           | Some n \<Rightarrow>
               if unit = ''s'' then Some n else if unit = ''m'' then Some (n / 60) else None))"

section \<open>Token buckets\<close>

record bucket =
  b_tokens :: rat
  b_last :: nat

record limit_req_zone =
  z_name :: string
  z_key_template :: template
  z_rate_per_sec :: rat
  z_max_entries :: nat
  z_buckets :: "bucket smap"

definition limit_req_zone_new :: "string \<Rightarrow> template \<Rightarrow> rat \<Rightarrow> nat \<Rightarrow> limit_req_zone" where
  "limit_req_zone_new name key_template rate_per_sec max_entries =
     \<lparr>z_name = name, z_key_template = key_template, z_rate_per_sec = rate_per_sec,
      z_max_entries = max_entries, z_buckets = []\<rparr>"

definition secs :: "nat \<Rightarrow> rat" where
  "secs ns = of_nat ns / 10 ^ 9"

text \<open>Make room: at the cap, a new key evicts the least recently touched bucket.\<close>

definition evict_oldest :: "((string \<times> bucket) list \<Rightarrow> (string \<times> bucket) list) \<Rightarrow> nat \<Rightarrow> string \<Rightarrow>
    bucket smap \<Rightarrow> bucket smap" where
  "evict_oldest it max_entries key bs =
     (if map_of bs key = None \<and> max_entries \<le> length bs
      then case min_by_key (\<lambda>(k, b). b_last b) (it bs) of
             None \<Rightarrow> bs
           | Some (k, _) \<Rightarrow> AList.delete k bs
      else bs)"

definition refill :: "rat \<Rightarrow> rat \<Rightarrow> nat \<Rightarrow> bucket \<Rightarrow> bucket" where
  "refill rate capacity now b =
     \<lparr>b_tokens = min (b_tokens b + secs (now - b_last b) * rate) capacity, b_last = now\<rparr>"

definition allow :: "((string \<times> bucket) list \<Rightarrow> (string \<times> bucket) list) \<Rightarrow> nat \<Rightarrow> string \<Rightarrow> nat \<Rightarrow>
    limit_req_zone \<times> metrics \<Rightarrow> bool \<times> limit_req_zone \<times> metrics" where
  "allow it now key burst s =
     (case s of (z, m) \<Rightarrow>
       (let capacity = of_nat burst + 1;
            bs = evict_oldest it (z_max_entries z) key (z_buckets z);
            b0 = (case map_of bs key of
                    Some b \<Rightarrow> b
                  | None \<Rightarrow> \<lparr>b_tokens = capacity, b_last = now\<rparr>);
            b = refill (z_rate_per_sec z) capacity now b0
        in if 1 \<le> b_tokens b
           then (True,
                 z\<lparr>z_buckets := AList.update key (b\<lparr>b_tokens := b_tokens b - 1\<rparr>) bs\<rparr>,
                 record_limit_req_allowed m)
           else (False, z\<lparr>z_buckets := AList.update key b bs\<rparr>, record_limit_req_denied m)))"

definition deny_response :: "'h header_ops \<Rightarrow> 'h response" where
  "deny_response H = text_response H 503 (''503 Service Unavailable'' @ [CHR 0x0A])"

definition enforce :: "'h header_ops \<Rightarrow> ((string \<times> bucket) list \<Rightarrow> (string \<times> bucket) list) \<Rightarrow> nat \<Rightarrow>
    nat \<Rightarrow> 'h request_ctx \<Rightarrow> limit_req_zone \<times> metrics \<Rightarrow>
    'h response option \<times> limit_req_zone \<times> metrics" where
  "enforce H it now burst ctx s =
     (let key = render H ctx (z_key_template (fst s));
          (ok, s') = allow it now key burst s
      in (if ok then None else Some (deny_response H), s'))"

section \<open>Connection counters\<close>

record limit_conn_zone =
  cn_name :: string
  cn_key_template :: template
  cn_max_entries :: nat
  cn_counts :: "u32 smap"

definition limit_conn_zone_new :: "string \<Rightarrow> template \<Rightarrow> nat \<Rightarrow> limit_conn_zone" where
  "limit_conn_zone_new name key_template max_entries =
     \<lparr>cn_name = name, cn_key_template = key_template, cn_max_entries = max_entries, cn_counts = []\<rparr>"

definition evict_dead :: "((string \<times> u32) list \<Rightarrow> (string \<times> u32) list) \<Rightarrow> nat \<Rightarrow> string \<Rightarrow>
    u32 smap \<Rightarrow> u32 smap" where
  "evict_dead it max_entries key cs =
     (if map_of cs key = None \<and> max_entries \<le> length cs
      then case find (\<lambda>(k, v). v = 0) (it cs) of
             None \<Rightarrow> cs
           | Some (k, _) \<Rightarrow> AList.delete k cs
      else cs)"

text \<open>\<open>True\<close> stands for the guard, which is known by its key.\<close>

definition try_acquire :: "((string \<times> u32) list \<Rightarrow> (string \<times> u32) list) \<Rightarrow> string \<Rightarrow> u32 \<Rightarrow>
    limit_conn_zone \<times> metrics \<Rightarrow> bool \<times> limit_conn_zone \<times> metrics" where
  "try_acquire it key max_conn s =
     (case s of (z, m) \<Rightarrow>
       (let cs = evict_dead it (cn_max_entries z) key (cn_counts z);
            count = (case map_of cs key of Some v \<Rightarrow> v | None \<Rightarrow> 0)
        in if max_conn \<le> count
           then (False, z\<lparr>cn_counts := AList.update key count cs\<rparr>, record_limit_conn_denied m)
           else (True, z\<lparr>cn_counts := AList.update key (count + 1) cs\<rparr>,
                 record_limit_conn_allowed m)))"

definition conn_guard_release :: "string \<Rightarrow> limit_conn_zone \<Rightarrow> limit_conn_zone" where
  "conn_guard_release key z =
     (case map_of (cn_counts z) key of
        None \<Rightarrow> z
      | Some v \<Rightarrow> z\<lparr>cn_counts := AList.update key (if v = 0 then 0 else v - 1) (cn_counts z)\<rparr>)"

definition enforce_conn :: "'h header_ops \<Rightarrow> ((string \<times> u32) list \<Rightarrow> (string \<times> u32) list) \<Rightarrow> u32 \<Rightarrow>
    'h request_ctx \<Rightarrow> limit_conn_zone \<times> metrics \<Rightarrow>
    ('h response + string) \<times> limit_conn_zone \<times> metrics" where
  "enforce_conn H it max_conn ctx s =
     (let key = render H ctx (cn_key_template (fst s));
          (ok, s') = try_acquire it key max_conn s
      in (if ok then Inr key else Inl (deny_response H), s'))"

section \<open>The interface of an eviction policy\<close>

text \<open>What both zones rely on when they make room for a new key: \<open>evict\<close> leaves the map as it is
  when the key is present or the map is below its cap, never touches the entry of the key itself,
  and only ever drops entries.\<close>

locale key_eviction =
  fixes evict :: "((string \<times> 'v) list \<Rightarrow> (string \<times> 'v) list) \<Rightarrow> nat \<Rightarrow> string \<Rightarrow> 'v smap \<Rightarrow> 'v smap"
  assumes keeps_wf: "iter_order it \<Longrightarrow> wf_smap m \<Longrightarrow> wf_smap (evict it n k m)"
    and no_need: "map_of m k \<noteq> None \<or> length m < n \<Longrightarrow> evict it n k m = m"
    and only_drops: "iter_order it \<Longrightarrow> wf_smap m \<Longrightarrow>
      map_of (evict it n k m) k' = None \<or> map_of (evict it n k m) k' = map_of m k'"
    and key_kept: "iter_order it \<Longrightarrow> wf_smap m \<Longrightarrow> map_of (evict it n k m) k = map_of m k"
begin

lemma store_wf: "iter_order it \<Longrightarrow> wf_smap m \<Longrightarrow> wf_smap (AList.update k v (evict it n k m))"
  by (simp add: keeps_wf distinct_update)

text \<open>While the keys in use fit the cap, storing an entry is an ordinary map update.\<close>

lemma store_fits:
  assumes "wf_smap m" and "finite K" and "fst ` set m \<subseteq> K" and "k \<in> K" and "card K \<le> n"
  shows "evict it n k m = m" and "fst ` set (AList.update k v m) \<subseteq> K"
proof -
  have "length m < n" if "map_of m k = None"
  proof -
    have "k \<notin> fst ` set m" using that by (simp add: map_of_eq_None_iff)
    then have "fst ` set m \<subset> K" using assms(3,4) by blast
    then have "card (fst ` set m) < card K" using assms(2) by (simp add: psubset_card_mono)
    moreover have "card (fst ` set m) = length m"
      using assms(1) by (metis distinct_card length_map list.set_map)
    ultimately show ?thesis using assms(5) by simp
  qed
  then show "evict it n k m = m" using no_need by blast
  show "fst ` set (AList.update k v m) \<subseteq> K" using assms(3,4) by (auto simp: dom_update)
qed

end

text \<open>A policy that always finds a victim keeps the number of entries within the cap (within one
  entry, for a cap of zero).\<close>

locale capped_eviction = key_eviction +
  assumes makes_room: "iter_order it \<Longrightarrow> wf_smap m \<Longrightarrow> map_of m k = None \<Longrightarrow> n \<le> length m \<Longrightarrow> m \<noteq> [] \<Longrightarrow>
      length (evict it n k m) < length m"
begin

lemma store_capped:
  assumes "iter_order it" and "wf_smap m" and "length m \<le> max 1 n"
  shows "length (AList.update k v (evict it n k m)) \<le> max 1 n"
proof (cases "map_of m k = None")
  case False
  then have "evict it n k m = m" using no_need by blast
  with False assms(3) show ?thesis by (auto simp: smap_update_length)
next
  case True
  then have absent: "map_of (evict it n k m) k = None" using key_kept[OF assms(1,2)] by simp
  show ?thesis
  proof (cases "length m < n")
    case True
    then show ?thesis using no_need[of m k n it] absent by (simp add: smap_update_length)
  next
    case False
    show ?thesis
    proof (cases "m = []")
      case True
      have "evict it n k [] = []"
      proof (rule ccontr)
        assume "evict it n k [] \<noteq> []"
        then obtain a v where "(a, v) \<in> set (evict it n k [])"
          by (metis last_in_set surj_pair)
        then have "map_of (evict it n k []) a \<noteq> None" by (rule smap_in_Some)
        then show False using only_drops[OF assms(1), of "[]" n k a] by simp
      qed
      then show ?thesis using True by simp
    next
      case False
      then have "length (evict it n k m) < length m"
        using makes_room assms(1,2) True \<open>\<not> length m < n\<close> by simp
      then show ?thesis using absent assms(3) by (simp add: smap_update_length)
    qed
  qed
qed

end

lemma iter_order_victim:
  assumes "iter_order it" and "x \<in> set (it m)"
  shows "map_of m (fst x) \<noteq> None"
  using assms smap_in_Some[of "fst x" "snd x" m] by simp

lemma delete_other: "map_of m k = None \<Longrightarrow> map_of m j \<noteq> None \<Longrightarrow> map_of (AList.delete j m) k = None"
  by (simp add: AList.delete_conv')

lemma evict_oldest_cases:
  assumes "iter_order it"
  obtains "evict_oldest it n k m = m" "map_of m k \<noteq> None \<or> length m < n \<or> m = []"
  | j where "evict_oldest it n k m = AList.delete j m" "map_of m j \<noteq> None" "map_of m k = None"
proof (cases "map_of m k = None \<and> n \<le> length m \<and> m \<noteq> []")
  case False
  then have "evict_oldest it n k m = m"
    using iter_order_Nil[OF assms, of "[]"] by (auto simp: evict_oldest_def)
  then show ?thesis using that(1) False by force
next
  case True
  then obtain x where x: "min_by_key (\<lambda>(k, b). b_last b) (it m) = Some x"
    using assms by (metis iter_order_Nil min_by_key_None option.exhaust)
  have "map_of m (fst x) \<noteq> None"
    using iter_order_victim[OF assms min_by_key_in[OF x]] .
  with True x show ?thesis using that(2)[of "fst x"] by (simp add: evict_oldest_def split: prod.splits)
qed

interpretation req: capped_eviction evict_oldest
proof
  fix it :: "(string \<times> bucket) list \<Rightarrow> (string \<times> bucket) list" and m :: "bucket smap" and n k k'
  show "evict_oldest it n k m = m" if "map_of m k \<noteq> None \<or> length m < n"
    using that by (auto simp: evict_oldest_def)
  assume it: "iter_order it" and wf: "wf_smap m"
  show "wf_smap (evict_oldest it n k m)"
    by (rule evict_oldest_cases[OF it, of n k m]) (simp_all add: wf distinct_delete)
  show "map_of (evict_oldest it n k m) k' = None \<or> map_of (evict_oldest it n k m) k' = map_of m k'"
    by (rule evict_oldest_cases[OF it, of n k m]) (auto simp: AList.delete_conv')
  show "map_of (evict_oldest it n k m) k = map_of m k"
    by (rule evict_oldest_cases[OF it, of n k m]) (auto simp: AList.delete_conv')
  show "length (evict_oldest it n k m) < length m"
    if "map_of m k = None" "n \<le> length m" "m \<noteq> []"
    by (rule evict_oldest_cases[OF it, of n k m])
      (use that smap_delete_length[OF wf] in \<open>auto simp: less_eq_Suc_le\<close>)
qed

lemma evict_dead_cases:
  assumes "iter_order it" and "wf_smap m"
  obtains "evict_dead it n k m = m"
  | j where "evict_dead it n k m = AList.delete j m" "map_of m j = Some 0" "map_of m k = None"
proof (cases "map_of m k = None \<and> n \<le> length m \<and> find (\<lambda>(k, v). v = 0) (it m) \<noteq> None")
  case False
  then have "evict_dead it n k m = m"
    by (cases "find (\<lambda>(k, v). v = 0) (it m)") (auto simp: evict_dead_def)
  then show ?thesis using that(1) by simp
next
  case True
  then obtain x where x: "find (\<lambda>(k, v). v = 0) (it m) = Some x" by blast
  then have "(fst x, 0) \<in> set m"
    using find_Some_prop[OF x] assms(1) by (cases x) auto
  then have "map_of m (fst x) = Some 0" using assms(2) by (rule map_of_is_SomeI[rotated])
  with True x show ?thesis using that(2)[of "fst x"] by (simp add: evict_dead_def split: prod.splits)
qed

interpretation conn: key_eviction evict_dead
proof
  fix it :: "(string \<times> u32) list \<Rightarrow> (string \<times> u32) list" and m :: "u32 smap" and n k k'
  show "evict_dead it n k m = m" if "map_of m k \<noteq> None \<or> length m < n"
    using that by (auto simp: evict_dead_def)
  assume it: "iter_order it" and wf: "wf_smap m"
  show "wf_smap (evict_dead it n k m)"
    by (rule evict_dead_cases[OF it wf, of n k]) (simp_all add: wf distinct_delete)
  show "map_of (evict_dead it n k m) k' = None \<or> map_of (evict_dead it n k m) k' = map_of m k'"
    by (rule evict_dead_cases[OF it wf, of n k]) (auto simp: AList.delete_conv')
  show "map_of (evict_dead it n k m) k = map_of m k"
    by (rule evict_dead_cases[OF it wf, of n k]) (auto simp: AList.delete_conv')
qed

section \<open>Rate limiting over a run\<close>

text \<open>A run of requests against one zone, all with the same burst: the time, the key and the
  decision of each.\<close>

fun allow_run :: "((string \<times> bucket) list \<Rightarrow> (string \<times> bucket) list) \<Rightarrow> nat \<Rightarrow> (nat \<times> string) list \<Rightarrow>
    limit_req_zone \<times> metrics \<Rightarrow> bool list \<times> limit_req_zone \<times> metrics" where
  "allow_run it burst [] s = ([], s)"
| "allow_run it burst ((now, key) # reqs) s =
     (let (ok, s') = allow it now key burst s; (oks, s'') = allow_run it burst reqs s'
      in (ok # oks, s''))"

text \<open>The number of accepted requests of a key.\<close>

fun accepted :: "string \<Rightarrow> (nat \<times> string) list \<Rightarrow> bool list \<Rightarrow> nat" where
  "accepted k ((t, key) # reqs) (ok # oks) =
     (if key = k \<and> ok then 1 else 0) + accepted k reqs oks"
| "accepted k _ _ = 0"

definition bucket_or_full :: "nat \<Rightarrow> nat \<Rightarrow> bucket smap \<Rightarrow> string \<Rightarrow> bucket" where
  "bucket_or_full burst now bs key =
     (case map_of bs key of Some b \<Rightarrow> b | None \<Rightarrow> \<lparr>b_tokens = of_nat burst + 1, b_last = now\<rparr>)"

lemma allow_eq:
  assumes "evict_oldest it (z_max_entries z) key (z_buckets z) = z_buckets z"
  shows "allow it now key burst (z, m) =
    (let b = refill (z_rate_per_sec z) (of_nat burst + 1) now
               (bucket_or_full burst now (z_buckets z) key);
         ok = (1 \<le> b_tokens b);
         b' = (if ok then b\<lparr>b_tokens := b_tokens b - 1\<rparr> else b)
     in (ok, z\<lparr>z_buckets := AList.update key b' (z_buckets z)\<rparr>,
         if ok then record_limit_req_allowed m else record_limit_req_denied m))"
  using assms by (simp add: allow_def bucket_or_full_def Let_def)

text \<open>What a bucket can still pay out until time \<open>t\<close>.\<close>

definition budget :: "rat \<Rightarrow> nat \<Rightarrow> bucket \<Rightarrow> rat" where
  "budget rate t b = b_tokens b + secs (t - b_last b) * rate"

lemma secs_mono: "a \<le> b \<Longrightarrow> secs a \<le> secs b"
  by (simp add: secs_def divide_right_mono)

lemma secs_nonneg [simp]: "0 \<le> secs a"
  by (simp add: secs_def)

lemma secs_add: "secs (a + b) = secs a + secs b"
  by (simp add: secs_def add_divide_distrib)

lemma budget_refill:
  assumes "0 \<le> rate" and "b_last b \<le> now" and "now \<le> t"
  shows "budget rate t (refill rate cap now b) \<le> budget rate t b"
proof -
  have "t - b_last b = (now - b_last b) + (t - now)" using assms(2,3) by simp
  then have "secs (t - b_last b) * rate = secs (now - b_last b) * rate + secs (t - now) * rate"
    by (simp add: secs_add distrib_right)
  then show ?thesis by (simp add: budget_def refill_def)
qed

lemma refill_nonneg:
  "0 \<le> rate \<Longrightarrow> 0 \<le> b_tokens b \<Longrightarrow> 0 \<le> cap \<Longrightarrow> 0 \<le> b_tokens (refill rate cap now b)"
  by (simp add: refill_def)

definition run_inv :: "string set \<Rightarrow> nat \<Rightarrow> bucket smap \<Rightarrow> bool" where
  "run_inv K t0 bs \<longleftrightarrow> wf_smap bs \<and> fst ` set bs \<subseteq> K \<and>
     (\<forall>k b. map_of bs k = Some b \<longrightarrow> b_last b \<le> t0 \<and> 0 \<le> b_tokens b)"

lemma bucket_or_full_inv:
  "run_inv K t0 bs \<Longrightarrow> t0 \<le> now \<Longrightarrow>
   b_last (bucket_or_full burst now bs k) \<le> now \<and> 0 \<le> b_tokens (bucket_or_full burst now bs k)"
  unfolding run_inv_def bucket_or_full_def by (cases "map_of bs k") fastforce+

lemma run_inv_update:
  assumes "run_inv K t0 bs" and "t0 \<le> now" and "b_last b = now" and "0 \<le> b_tokens b"
    and "fst ` set (AList.update key b bs) \<subseteq> K"
  shows "run_inv K now (AList.update key b bs)"
  unfolding run_inv_def
proof (intro conjI allI impI)
  show "wf_smap (AList.update key b bs)"
    using assms(1) by (simp add: run_inv_def distinct_update)
  fix k c
  assume "map_of (AList.update key b bs) k = Some c"
  then have c: "(if k = key then Some b else map_of bs k) = Some c" by (simp add: update_conv')
  have "b_last c \<le> t0 \<and> 0 \<le> b_tokens c" if "map_of bs k = Some c"
    using assms(1) that unfolding run_inv_def by blast
  then have "b_last c \<le> now \<and> 0 \<le> b_tokens c"
    using assms(2-4) c by (cases "k = key") simp_all
  then show "b_last c \<le> now" and "0 \<le> b_tokens c" by simp_all
qed (rule assms(5))

text \<open>One request of a run: the decision and the bucket of its key; the other buckets stay.\<close>

lemma allow_step:
  assumes "run_inv K t0 (z_buckets z)" and "finite K" and "key \<in> K" and "card K \<le> z_max_entries z"
    and "0 \<le> z_rate_per_sec z" and "t0 \<le> now"
  obtains ok z' m' b' where "allow it now key burst (z, m) = (ok, z', m')"
    and "z_max_entries z' = z_max_entries z" and "z_rate_per_sec z' = z_rate_per_sec z"
    and "z_buckets z' = AList.update key b' (z_buckets z)"
    and "run_inv K now (z_buckets z')"
    and "b' = (let b = refill (z_rate_per_sec z) (of_nat burst + 1) now
                         (bucket_or_full burst now (z_buckets z) key)
               in if ok then b\<lparr>b_tokens := b_tokens b - 1\<rparr> else b)"
    and "ok \<longleftrightarrow> 1 \<le> b_tokens (refill (z_rate_per_sec z) (of_nat burst + 1) now
                         (bucket_or_full burst now (z_buckets z) key))"
proof -
  let ?b = "refill (z_rate_per_sec z) (of_nat burst + 1) now
              (bucket_or_full burst now (z_buckets z) key)"
  let ?ok = "1 \<le> b_tokens ?b"
  let ?b' = "if ?ok then ?b\<lparr>b_tokens := b_tokens ?b - 1\<rparr> else ?b"
  let ?z' = "z\<lparr>z_buckets := AList.update key ?b' (z_buckets z)\<rparr>"
  have wf: "wf_smap (z_buckets z)" and sub: "fst ` set (z_buckets z) \<subseteq> K"
    using assms(1) by (auto simp: run_inv_def)
  have nonneg: "0 \<le> b_tokens ?b"
    using bucket_or_full_inv[OF assms(1,6)] assms(5) by (simp add: refill_nonneg)
  have "b_last ?b' = now" "0 \<le> b_tokens ?b'" using nonneg by (auto simp: refill_def)
  moreover have "fst ` set (AList.update key ?b' (z_buckets z)) \<subseteq> K"
    by (rule req.store_fits(2)[OF wf assms(2) sub assms(3,4)])
  ultimately have inv: "run_inv K now (z_buckets ?z')"
    using run_inv_update[OF assms(1,6)] by simp
  have "evict_oldest it (z_max_entries z) key (z_buckets z) = z_buckets z"
    by (rule req.store_fits(1)[OF wf assms(2) sub assms(3,4)])
  note eq = allow_eq[OF this, of now burst m]
  show ?thesis
    by (rule that[of ?ok ?z' _ ?b'])
      (use eq inv in \<open>auto simp: Let_def simp del: One_nat_def\<close>)
qed

lemma bucket_or_full_update:
  "bucket_or_full burst now (AList.update key b bs) k =
     (if k = key then b else bucket_or_full burst now bs k)"
  by (simp add: bucket_or_full_def update_conv')

lemma budget_later:
  "0 \<le> rate \<Longrightarrow> t0 \<le> now \<Longrightarrow>
   budget rate t (bucket_or_full burst now bs k) \<le> budget rate t (bucket_or_full burst t0 bs k)"
  by (auto simp: bucket_or_full_def budget_def secs_mono mult_right_mono split: option.splits)

lemma accepted_bound:
  assumes "run_inv K t0 (z_buckets z)" and "finite K" and "snd ` set reqs \<subseteq> K"
    and "card K \<le> z_max_entries z" and "0 \<le> z_rate_per_sec z"
    and "sorted (map fst reqs)" and "\<forall>(t, k) \<in> set reqs. t0 \<le> t \<and> t \<le> tend" and "t0 \<le> tend"
    and "allow_run it burst reqs (z, m) = (oks, s')"
  shows "of_nat (accepted k reqs oks) \<le>
    budget (z_rate_per_sec z) tend (bucket_or_full burst t0 (z_buckets z) k)"
  using assms
proof (induction reqs arbitrary: t0 z m oks)
  case Nil
  then show ?case
    using bucket_or_full_inv[OF Nil.prems(1) order_refl, of burst k] by (simp add: budget_def)
next
  case (Cons r reqs)
  obtain now key where r: "r = (now, key)" by (cases r)
  let ?rate = "z_rate_per_sec z"
  have now: "t0 \<le> now" "now \<le> tend" and key: "key \<in> K"
    using Cons.prems(3,7) r by auto
  obtain ok z' m' b' where a: "allow it now key burst (z, m) = (ok, z', m')"
    and z': "z_max_entries z' = z_max_entries z" "z_rate_per_sec z' = ?rate"
    and bs: "z_buckets z' = AList.update key b' (z_buckets z)" "run_inv K now (z_buckets z')"
    and b': "b' = (let b = refill ?rate (of_nat burst + 1) now
                         (bucket_or_full burst now (z_buckets z) key)
               in if ok then b\<lparr>b_tokens := b_tokens b - 1\<rparr> else b)"
    using allow_step[OF Cons.prems(1,2) key Cons.prems(4,5) now(1)] by metis
  obtain oks' where oks: "allow_run it burst reqs (z', m') = (oks', s')" "oks = ok # oks'"
    using Cons.prems(9) r a by (auto split: prod.splits)
  have times: "\<forall>(t, k) \<in> set reqs. now \<le> t \<and> t \<le> tend" using Cons.prems(6,7) r by auto
  have IH: "of_nat (accepted k reqs oks') \<le>
      budget ?rate tend (bucket_or_full burst now (z_buckets z') k)"
    using Cons.IH[OF bs(2) Cons.prems(2) _ _ _ _ times now(2) oks(1)] Cons.prems(3-6) z' by auto
  show ?case
  proof (cases "key = k")
    case True
    have "budget ?rate tend (refill ?rate (of_nat burst + 1) now
        (bucket_or_full burst now (z_buckets z) k)) \<le>
        budget ?rate tend (bucket_or_full burst now (z_buckets z) k)"
      using budget_refill[OF Cons.prems(5) _ now(2)] bucket_or_full_inv[OF Cons.prems(1) now(1)]
      by blast
    also have "\<dots> \<le> budget ?rate tend (bucket_or_full burst t0 (z_buckets z) k)"
      by (rule budget_later[OF Cons.prems(5) now(1)])
    finally show ?thesis
      using IH True r oks(2) bs(1) b'
      by (auto simp: bucket_or_full_update budget_def Let_def split: if_splits)
  next
    case False
    then have "accepted k (r # reqs) oks = accepted k reqs oks'" using r oks(2) by simp
    moreover have "bucket_or_full burst now (z_buckets z') k = bucket_or_full burst now (z_buckets z) k"
      using False bs(1) by (simp add: bucket_or_full_update)
    ultimately show ?thesis
      using IH budget_later[OF Cons.prems(5) now(1), of tend burst "z_buckets z" k] by simp
  qed
qed

definition requests_of :: "string \<Rightarrow> (nat \<times> string) list \<Rightarrow> nat" where
  "requests_of k reqs = length (filter (\<lambda>(t, key). key = k) reqs)"

lemma requests_of_Cons:
  "requests_of k ((t, key) # reqs) = (if key = k then 1 else 0) + requests_of k reqs"
  by (simp add: requests_of_def)

lemma accepted_all:
  assumes "run_inv K t0 (z_buckets z)" and "finite K" and "snd ` set reqs \<subseteq> K"
    and "card K \<le> z_max_entries z" and "0 \<le> z_rate_per_sec z"
    and "sorted (map fst reqs)" and "\<forall>(t, k) \<in> set reqs. t0 \<le> t"
    and "of_nat (requests_of k reqs) \<le> b_tokens (bucket_or_full burst t0 (z_buckets z) k)"
    and "requests_of k reqs \<le> burst + 1"
    and "allow_run it burst reqs (z, m) = (oks, s')"
  shows "accepted k reqs oks = requests_of k reqs"
  using assms
proof (induction reqs arbitrary: t0 z m oks)
  case Nil
  then show ?case by (simp add: requests_of_def)
next
  case (Cons r reqs)
  obtain now key where r: "r = (now, key)" by (cases r)
  let ?rate = "z_rate_per_sec z"
  let ?old = "bucket_or_full burst now (z_buckets z) key"
  let ?b = "refill ?rate (of_nat burst + 1) now ?old"
  have now: "t0 \<le> now" and key: "key \<in> K"
    using Cons.prems(3,7) r by auto
  obtain ok z' m' b' where a: "allow it now key burst (z, m) = (ok, z', m')"
    and z': "z_max_entries z' = z_max_entries z" "z_rate_per_sec z' = ?rate"
    and bs: "z_buckets z' = AList.update key b' (z_buckets z)" "run_inv K now (z_buckets z')"
    and b': "b' = (let b = ?b in if ok then b\<lparr>b_tokens := b_tokens b - 1\<rparr> else b)"
    and ok: "ok \<longleftrightarrow> 1 \<le> b_tokens ?b"
    using allow_step[OF Cons.prems(1,2) key Cons.prems(4,5) now] by metis
  obtain oks' where oks: "allow_run it burst reqs (z', m') = (oks', s')" "oks = ok # oks'"
    using Cons.prems(10) r a by (auto split: prod.splits)
  have times: "\<forall>(t, k) \<in> set reqs. now \<le> t" using Cons.prems(6) r by auto
  have full: "b_tokens (bucket_or_full burst now (z_buckets z) k) =
      b_tokens (bucket_or_full burst t0 (z_buckets z) k)"
    by (simp add: bucket_or_full_def split: option.splits)
  have tok: "of_nat (requests_of k reqs) \<le> b_tokens (bucket_or_full burst now (z_buckets z') k) \<and>
      (key = k \<longrightarrow> ok)"
  proof (cases "key = k")
    case True
    have "1 + of_nat (requests_of k reqs) \<le> b_tokens ?old"
      using Cons.prems(8) True r full by (simp add: requests_of_Cons)
    moreover have "0 \<le> secs (now - b_last ?old) * ?rate" using Cons.prems(5) by simp
    moreover have "(of_nat (requests_of k reqs) :: rat) \<le> of_nat burst"
      using Cons.prems(9) True r by (simp add: requests_of_Cons)
    ultimately have "1 + of_nat (requests_of k reqs) \<le> b_tokens ?b"
      by (simp add: refill_def)
    moreover have "(0 :: rat) \<le> of_nat (requests_of k reqs)" by simp
    ultimately show ?thesis using True ok b' bs(1) by (simp add: bucket_or_full_update Let_def)
  next
    case False
    then show ?thesis using Cons.prems(8) r bs(1) full
      by (simp add: requests_of_Cons bucket_or_full_update)
  qed
  have "accepted k reqs oks' = requests_of k reqs"
    using Cons.IH[OF bs(2) Cons.prems(2) _ _ _ _ times _ _ oks(1)] Cons.prems(3-6,9) z' tok r
    by (auto simp: requests_of_Cons split: if_splits)
  then show ?case using tok r oks(2) by (simp add: requests_of_Cons)
qed

lemma run_inv_fresh: "run_inv K t0 (z_buckets (limit_req_zone_new name tmpl rate n))"
  by (simp add: run_inv_def limit_req_zone_new_def)


definition demo_reqs :: "(nat \<times> string) list" where
  "demo_reqs = [(0, ''a''), (0, ''a''), (1000000000, ''b''), (1000000000, ''a''), (1000000000, ''a'')]"

definition demo_zone :: limit_req_zone where
  "demo_zone = limit_req_zone_new ''z'' [Var RemoteAddr] 1 2"

lemma demo_keys: "card (snd ` set demo_reqs) \<le> 2"
proof -
  have "snd ` set demo_reqs = {''a'', ''b''}" by (auto simp: demo_reqs_def)
  then show ?thesis by simp
qed


text \<open>The burst is honoured: a key that sends at most \<open>burst + 1\<close> requests in a run that
  starts on a fresh zone has every one of them accepted, whatever other keys do.\<close>

theorem limit_req_burst_accepted:
  assumes "0 \<le> rate" and "card (snd ` set reqs) \<le> n" and "sorted (map fst reqs)"
    and "requests_of k reqs \<le> burst + 1"
    and "allow_run it burst reqs (limit_req_zone_new name tmpl rate n, m) = (oks, s')"
  shows "accepted k reqs oks = requests_of k reqs"
proof (rule accepted_all[OF run_inv_fresh _ order_refl _ _ assms(3) _ _ assms(4,5), of 0])
  have "(of_nat (requests_of k reqs) :: rat) \<le> of_nat (burst + 1)"
    using assms(4) by (simp only: of_nat_le_iff)
  then show "of_nat (requests_of k reqs) \<le> b_tokens (bucket_or_full burst 0
      (z_buckets (limit_req_zone_new name tmpl rate n)) k)"
    by (simp add: limit_req_zone_new_def bucket_or_full_def)
qed (use assms(1,2) in \<open>simp_all add: limit_req_zone_new_def\<close>)

theorem limit_req_burst_accepted_witness:
  "accepted ''b'' demo_reqs
     (fst (allow_run (\<lambda>xs. xs) 0 demo_reqs (limit_req_zone_new ''z'' [] 1 2, initial_metrics))) = 1"
proof -
  have "sorted (map fst demo_reqs)"
      "requests_of ''b'' demo_reqs \<le> 0 + 1" "requests_of ''b'' demo_reqs = 1"
    by (simp_all add: demo_reqs_def requests_of_def)
  then show ?thesis
    using limit_req_burst_accepted[OF zero_le_one demo_keys, of "''b''" 0 "\<lambda>xs. xs" "''z''" "[]"]
    by (metis prod.collapse)
qed

section \<open>The entry cap\<close>

lemma allow_buckets:
  "\<exists>b. z_buckets (fst (snd (allow it now key burst (z, m)))) =
     AList.update key b (evict_oldest it (z_max_entries z) key (z_buckets z))"
  "z_max_entries (fst (snd (allow it now key burst (z, m)))) = z_max_entries z"
  by (auto simp: allow_def Let_def)

text \<open>The memory of a zone is bounded: no request, whatever its key and burst, takes the number
  of buckets beyond the entry cap, and the keys stay distinct.\<close>

theorem limit_req_entry_cap:
  assumes "iter_order it" and "wf_smap (z_buckets z)"
    and "length (z_buckets z) \<le> z_max_entries z" and "0 < z_max_entries z"
    and "allow it now key burst (z, m) = (ok, z', m')"
  shows "wf_smap (z_buckets z') \<and> length (z_buckets z') \<le> z_max_entries z'"
proof -
  obtain b where b: "z_buckets z' = AList.update key b (evict_oldest it (z_max_entries z) key (z_buckets z))"
    using allow_buckets(1)[of it now key burst z m] assms(5) by auto
  have "z_max_entries z' = z_max_entries z"
    using allow_buckets(2)[of it now key burst z m] assms(5) by simp
  then show ?thesis
    using req.store_wf[OF assms(1,2)] req.store_capped[OF assms(1,2), of "z_max_entries z"] assms(3,4) b
    by (simp add: max_def split: if_splits)
qed

theorem limit_req_entry_cap_witness:
  "length (z_buckets (fst (snd (allow rev 9 ''c'' 0
     (demo_zone\<lparr>z_buckets := [(''a'', \<lparr>b_tokens = 0, b_last = 5\<rparr>), (''b'', \<lparr>b_tokens = 1, b_last = 4\<rparr>)]\<rparr>,
      initial_metrics))))) \<le> 2"
proof -
  let ?z = "demo_zone\<lparr>z_buckets := [(''a'', \<lparr>b_tokens = 0, b_last = 5\<rparr>), (''b'', \<lparr>b_tokens = 1, b_last = 4\<rparr>)]\<rparr>"
  obtain ok z' m' where a: "allow rev 9 ''c'' 0 (?z, initial_metrics) = (ok, z', m')"
    by (metis prod.exhaust)
  have "wf_smap (z_buckets z') \<and> length (z_buckets z') \<le> z_max_entries z'"
    by (rule limit_req_entry_cap[OF iter_order_rev _ _ _ a])
      (simp_all add: demo_zone_def limit_req_zone_new_def)
  moreover have "z_max_entries z' = 2"
    using allow_buckets(2)[of rev 9 "''c''" 0 ?z initial_metrics] a
    by (simp add: demo_zone_def limit_req_zone_new_def)
  ultimately show ?thesis using a by simp
qed

section \<open>Connections and their guards\<close>

text \<open>The zone with the multiset of the keys of the live guards. Every acquisition asks for at most
  \<open>cap\<close> connections of its key.\<close>

inductive conn_step :: "u32 \<Rightarrow> limit_conn_zone \<times> string multiset \<Rightarrow> limit_conn_zone \<times> string multiset \<Rightarrow> bool"
  for cap where
  acquired: "iter_order it \<Longrightarrow> max_conn \<le> cap \<Longrightarrow> try_acquire it key max_conn (z, m) = (True, z', m') \<Longrightarrow>
     conn_step cap (z, G) (z', add_mset key G)"
| refused: "iter_order it \<Longrightarrow> try_acquire it key max_conn (z, m) = (False, z', m') \<Longrightarrow>
     conn_step cap (z, G) (z', G)"
| dropped: "conn_step cap (z, add_mset key G) (conn_guard_release key z, G)"

definition conn_count :: "limit_conn_zone \<Rightarrow> string \<Rightarrow> nat" where
  "conn_count z key = (case map_of (cn_counts z) key of None \<Rightarrow> 0 | Some v \<Rightarrow> unat v)"

definition conn_inv :: "u32 \<Rightarrow> limit_conn_zone \<times> string multiset \<Rightarrow> bool" where
  "conn_inv cap s \<longleftrightarrow> wf_smap (cn_counts (fst s)) \<and>
     (\<forall>key. conn_count (fst s) key = count (snd s) key \<and> count (snd s) key \<le> unat cap)"

lemma evict_dead_count:
  assumes "iter_order it" and "wf_smap cs"
  shows "(case map_of (evict_dead it n key cs) k of None \<Rightarrow> 0 | Some v \<Rightarrow> unat v) =
         (case map_of cs k of None \<Rightarrow> 0 | Some v \<Rightarrow> unat v)"
  by (rule evict_dead_cases[OF assms, of n key]) (auto simp: AList.delete_conv')

lemma try_acquire_counts:
  assumes "iter_order it" and "wf_smap (cn_counts z)"
    and "try_acquire it key max_conn (z, m) = (ok, z', m')"
  shows "wf_smap (cn_counts z')"
    and "conn_count z' k = conn_count z k + (if ok \<and> k = key then 1 else 0)"
    and "ok \<longleftrightarrow> conn_count z key < unat max_conn"
proof -
  let ?cs = "evict_dead it (cn_max_entries z) key (cn_counts z)"
  let ?c = "case map_of ?cs key of Some v \<Rightarrow> v | None \<Rightarrow> 0"
  have same: "(case map_of ?cs j of None \<Rightarrow> 0 | Some v \<Rightarrow> unat v) = conn_count z j" for j
    using evict_dead_count[OF assms(1,2)] by (simp add: conn_count_def)
  have c: "unat ?c = conn_count z key"
    using same[of key] by (cases "map_of ?cs key") simp_all
  have ok: "ok \<longleftrightarrow> ?c < max_conn" using assms(3) by (auto simp: try_acquire_def Let_def split: if_splits)
  have z': "cn_counts z' = AList.update key (if ok then ?c + 1 else ?c) ?cs"
    using assms(3) by (auto simp: try_acquire_def Let_def split: if_splits)
  show "wf_smap (cn_counts z')" using conn.store_wf[OF assms(1,2)] z' by simp
  show "ok \<longleftrightarrow> conn_count z key < unat max_conn" using ok c by (simp add: word_less_nat_alt)
  have "unat (?c + 1) = unat ?c + 1" if ok
  proof -
    have "unat ?c + 1 < 2 ^ 32"
      using that ok unsigned_less[of max_conn, where 'a = nat] by (simp add: word_less_nat_alt)
    then show ?thesis by (simp add: unat_word_ariths(1))
  qed
  then show "conn_count z' k = conn_count z k + (if ok \<and> k = key then 1 else 0)"
    using same[of k] c z' by (auto simp: conn_count_def update_conv')
qed

lemma conn_guard_release_counts:
  assumes "wf_smap (cn_counts z)"
  shows "wf_smap (cn_counts (conn_guard_release key z))"
    and "conn_count (conn_guard_release key z) k = conn_count z k - (if k = key then 1 else 0)"
proof -
  have "unat (v - 1) = unat v - 1" if "v \<noteq> 0" for v :: u32
    using that by (simp add: unat_minus_one)
  then show "conn_count (conn_guard_release key z) k = conn_count z k - (if k = key then 1 else 0)"
    by (auto simp: conn_guard_release_def conn_count_def update_conv' split: option.splits)
  show "wf_smap (cn_counts (conn_guard_release key z))"
    using assms by (simp add: conn_guard_release_def distinct_update split: option.splits)
qed

lemma conn_step_inv: "conn_step cap s s' \<Longrightarrow> conn_inv cap s \<Longrightarrow> conn_inv cap s'"
proof (induction rule: conn_step.induct)
  case (acquired it max_conn key z m z' m' G)
  then have wf: "wf_smap (cn_counts z)" by (simp add: conn_inv_def)
  note t = try_acquire_counts[OF acquired(1) wf acquired(3)]
  have "unat max_conn \<le> unat cap" using acquired(2) by (simp add: word_le_nat_alt)
  then have "count G key + 1 \<le> unat cap" using t(3) acquired.prems by (simp add: conn_inv_def)
  then show ?case using t acquired.prems by (auto simp: conn_inv_def)
next
  case (refused it key max_conn z m z' m' G)
  then have wf: "wf_smap (cn_counts z)" by (simp add: conn_inv_def)
  show ?case
    using try_acquire_counts[OF refused(1) wf refused(2)] refused.prems by (simp add: conn_inv_def)
next
  case (dropped z key G)
  then have wf: "wf_smap (cn_counts z)" by (simp add: conn_inv_def)
  show ?case
    unfolding conn_inv_def fst_conv snd_conv
  proof (intro conjI allI)
    fix k
    have k: "conn_count z k = count (add_mset key G) k" "count (add_mset key G) k \<le> unat cap"
      using dropped.prems by (simp_all only: conn_inv_def fst_conv snd_conv)
    show "conn_count (conn_guard_release key z) k = count G k"
      using conn_guard_release_counts(2)[OF wf, of key k] k(1) by simp
    show "count G k \<le> unat cap" using k(2) by (simp split: if_splits)
  qed (rule conn_guard_release_counts(1)[OF wf])
qed

lemma conn_reachable_inv:
  assumes "(conn_step cap)\<^sup>*\<^sup>* (limit_conn_zone_new name tmpl n, {#}) s"
  shows "conn_inv cap s"
  using assms
proof (induction rule: rtranclp_induct)
  case base
  show ?case by (simp add: conn_inv_def limit_conn_zone_new_def conn_count_def)
qed (rule conn_step_inv)

text \<open>C33: Connection counting is exact: after any sequence of acquisitions, refusals and guard drops
  on a fresh zone, in any interleaving, the stored count of every key is the number of its live
  guards and never exceeds the largest limit in use; the 32-bit counter does not wrap.\<close>

theorem limit_conn_exact:
  assumes "(conn_step cap)\<^sup>*\<^sup>* (limit_conn_zone_new name tmpl n, {#}) (z, G)"
  shows "conn_count z key = count G key \<and> count G key \<le> unat cap"
  using conn_reachable_inv[OF assms] by (simp add: conn_inv_def)

theorem limit_conn_exact_witness:
  "\<exists>z. (conn_step 1)\<^sup>*\<^sup>* (limit_conn_zone_new ''c'' [] 8, {#}) (z, {#''a''#}) \<and> conn_count z ''a'' = 1"
proof -
  let ?z = "limit_conn_zone_new ''c'' [] 8"
  obtain z' m' where a: "try_acquire (\<lambda>xs. xs) ''a'' 1 (?z, initial_metrics) = (True, z', m')"
    by (simp add: try_acquire_def limit_conn_zone_new_def evict_dead_def)
  have "conn_step 1 (?z, {#}) (z', {#''a''#})"
    by (rule conn_step.acquired[OF iter_order_id order_refl a])
  then have r: "(conn_step 1)\<^sup>*\<^sup>* (?z, {#}) (z', {#''a''#})" by (rule r_into_rtranclp)
  with limit_conn_exact[OF r, of "''a''"] show ?thesis by auto
qed

text \<open>The limit is enforced: a request gets a guard exactly when the live guards of its key are
  fewer than \<open>max_conn\<close>, and the refusal is the 503 response.\<close>

theorem limit_conn_decision:
  assumes "(conn_step cap)\<^sup>*\<^sup>* (limit_conn_zone_new name tmpl n, {#}) (z, G)" and "iter_order it"
    and "key = render H ctx (cn_key_template z)"
  shows "fst (enforce_conn H it max_conn ctx (z, m)) =
    (if count G key < unat max_conn then Inr key else Inl (deny_response H))"
proof -
  note inv = conn_reachable_inv[OF assms(1)]
  obtain ok z' m' where a: "try_acquire it key max_conn (z, m) = (ok, z', m')" by (metis prod.exhaust)
  have "ok \<longleftrightarrow> count G key < unat max_conn"
    using try_acquire_counts(3)[OF assms(2) _ a] inv by (simp add: conn_inv_def)
  then show ?thesis using a assms(3) by (simp add: enforce_conn_def)
qed

theorem limit_conn_decision_witness:
  "fst (enforce_conn list_headers (\<lambda>xs. xs) 0 demo_ctx
     (limit_conn_zone_new ''c'' [Var RemoteAddr] 8, initial_metrics)) = Inl (deny_response list_headers)"
  using limit_conn_decision[OF rtranclp.rtrancl_refl[of "conn_step 0"] iter_order_id refl,
      where H = list_headers and ctx = demo_ctx and max_conn = 0 and m = initial_metrics
        and tmpl = "[Var RemoteAddr]" and name = "''c''" and n = 8]
  by simp

end
