(* ===== verification/Config_Build.thy ===== *)
theory Config_Build
  imports Config_Ast Config_Include Limit
begin

text \<open>
  Lowering the directive tree to the typed configuration (\<^verbatim>\<open>src/src/config/build.rs\<close>, and
  \<^verbatim>\<open>load\<close> of \<^verbatim>\<open>src/src/config/mod.rs\<close>). Each \<^verbatim>\<open>build_*\<close> function is a fold over the
  directives of its block, whose step is the \<^verbatim>\<open>match\<close> on the directive's name; the mutable
  locals of \<^verbatim>\<open>build_location\<close> are the record \<open>loc_build\<close>. The error values name the message
  they stand for and carry what it interpolates.

  The products in the duration and size parsers are taken on 64-bit machine integers without an
  overflow check, as the release profile compiles them: \<open>mul64\<close> wraps around.

  Shown here: a configuration that builds is well-formed (\<open>wf_config\<close>), for every tree of
  directives: each server has an address, and a certificate and key when it terminates TLS, each
  upstream has a server, each location one action, a password file when it asks for a password,
  both or none of the client certificate files, and a status only at the end of
  \<^verbatim>\<open>try_files\<close>; durations and sizes are read back, and wrap exactly when the product
  overflows.
\<close>

section \<open>Errors\<close>

datatype build_error =
    Requires_argument nat string
  | Requires_block nat string
  | Unknown_directive nat string string
  | Invalid_value nat string string
  | Missing_part nat string
  | Not_supported nat string
  | Missing_directive string string
  | Tls_needs_certificate "socket_addr option"
  | Upstream_has_no_servers nat string
  | More_than_one_content nat string
  | Try_files_with_content nat string
  | Try_files_needs_root nat string
  | No_action nat string
  | Auth_basic_without_file nat string
  | Client_certificate_half nat string
  | Status_not_last nat

section \<open>Arguments\<close>

definition arg1 :: "directive \<Rightarrow> build_error + string" where
  "arg1 d = (case d_args d of [] \<Rightarrow> Inl (Requires_argument (d_line d) (d_name d)) | a # _ \<Rightarrow> Inr a)"

definition expect_block :: "directive \<Rightarrow> build_error + directive list" where
  "expect_block d = ok_or (Requires_block (d_line d) (d_name d)) (d_block d)"

text \<open>\<^verbatim>\<open>args.get(i)\<close>, and with the default of \<^verbatim>\<open>unwrap_or_default\<close>.\<close>

definition get_arg :: "nat \<Rightarrow> string list \<Rightarrow> string option" where
  "get_arg i xs = (if i < length xs then Some (xs ! i) else None)"

definition get_or_empty :: "nat \<Rightarrow> string list \<Rightarrow> string" where
  "get_or_empty i xs = or_empty (get_arg i xs)"

definition parse_listen :: "string \<Rightarrow> nat \<Rightarrow> build_error + socket_addr" where
  "parse_listen s line =
     (case parse_u16 s of
        Some port \<Rightarrow> Inr \<lparr>sa_ip = V4 [0, 0, 0, 0], sa_port = port\<rparr>
      | None \<Rightarrow> ok_or (Invalid_value line ''listen address'' s) (parse_socket_addr s))"

definition parse_on_off :: "string option \<Rightarrow> nat \<Rightarrow> build_error + bool" where
  "parse_on_off s line =
     (case s of
        None \<Rightarrow> Inl (Missing_part line ''gzip: on or off'')
      | Some v \<Rightarrow>
          if v = ''on'' then Inr True else if v = ''off'' then Inr False
          else Inl (Invalid_value line ''on or off'' v))"

definition mul64 :: "nat \<Rightarrow> nat \<Rightarrow> nat" where
  "mul64 a b = a * b mod 2 ^ 64"

definition parse_duration :: "string \<Rightarrow> duration option" where
  "parse_duration s0 =
     (let s = trim s0
      in case parse_u64 s of
           Some n \<Rightarrow> Some (from_secs n)
         | None \<Rightarrow>
             (case split_number s of
                None \<Rightarrow> None
              | Some (num, unit) \<Rightarrow>
                  (case parse_u64 num of
                     None \<Rightarrow> None
                   | Some n \<Rightarrow>
                       if unit = ''ms'' then Some (from_millis n)
                       else if unit = ''s'' then Some (from_secs n)
                       else if unit = ''m'' then Some (from_secs (mul64 n 60))
                       else if unit = ''h'' then Some (from_secs (mul64 (mul64 n 60) 60))
                       else if unit = ''d'' then Some (from_secs (mul64 (mul64 (mul64 n 60) 60) 24))
                       else None)))"

definition parse_size :: "string \<Rightarrow> nat option" where
  "parse_size s0 =
     (let s = trim s0
      in case parse_usize s of
           Some n \<Rightarrow> Some n
         | None \<Rightarrow>
             (case split_number s of
                None \<Rightarrow> None
              | Some (num, unit) \<Rightarrow>
                  (case parse_usize num of
                     None \<Rightarrow> None
                   | Some n \<Rightarrow>
                       (let u = to_ascii_lowercase unit
                        in if u = ''k'' then Some (mul64 n 1024)
                           else if u = ''m'' then Some (mul64 (mul64 n 1024) 1024)
                           else if u = ''g'' then Some (mul64 (mul64 (mul64 n 1024) 1024) 1024)
                           else None))))"

section \<open>Zones, limits, caches and maps\<close>

text \<open>The \<^verbatim>\<open>NAME:SIZE\<close> of a zone argument.\<close>

definition parse_zone_spec :: "nat \<Rightarrow> string \<Rightarrow> string \<Rightarrow> build_error + (string \<times> nat)" where
  "parse_zone_spec line what spec =
     and_then (ok_or (Missing_part line (what @ '' must be NAME:SIZE'')) (split_once (CHR '':'') spec))
       (\<lambda>(n, size).
     and_then (ok_or (Invalid_value line (what @ '' size'') size) (parse_size size)) (\<lambda>bytes.
     Inr (n, bytes)))"

definition limit_conn_zone_arg :: "nat \<Rightarrow> string \<Rightarrow> string option \<times> nat option \<Rightarrow>
    build_error + (string option \<times> nat option)" where
  "limit_conn_zone_arg line a s =
     (case strip_prefix ''zone='' a of
        None \<Rightarrow> Inr s
      | Some spec \<Rightarrow>
          and_then (parse_zone_spec line ''zone='' spec) (\<lambda>(n, bytes).
          Inr (Some n, Some (max (bytes div 16) 1))))"

definition parse_limit_conn_zone :: "string list \<Rightarrow> nat \<Rightarrow> build_error + limit_conn_zone_decl" where
  "parse_limit_conn_zone args line =
     (if length args < 2 then Inl (Missing_part line ''limit_conn_zone: <key> zone=NAME:SIZE'')
      else
        and_then (fold_res (limit_conn_zone_arg line) (drop 1 args) (None, None)) (\<lambda>(name, max_entries).
        and_then (ok_or (Missing_part line ''limit_conn_zone: zone=NAME:SIZE'') name) (\<lambda>n.
        Inr \<lparr>lcz_name = n, lcz_key_template = template_parse (hd args),
             lcz_max_entries = (case max_entries of Some e \<Rightarrow> e | None \<Rightarrow> 4096)\<rparr>)))"

definition parse_limit_conn :: "string list \<Rightarrow> nat \<Rightarrow> build_error + (string \<times> nat)" where
  "parse_limit_conn args line =
     (if length args < 2 then Inl (Missing_part line ''limit_conn: zone=NAME N'')
      else
        (let zone = (case strip_prefix ''zone='' (args ! 0) of Some z \<Rightarrow> z | None \<Rightarrow> args ! 0)
         in and_then (ok_or (Invalid_value line ''limit_conn max'' (args ! 1)) (parse_u32 (args ! 1)))
              (\<lambda>max_conn. Inr (zone, max_conn))))"

definition limit_req_zone_arg :: "nat \<Rightarrow> string \<Rightarrow> string option \<times> nat option \<times> rat option \<Rightarrow>
    build_error + (string option \<times> nat option \<times> rat option)" where
  "limit_req_zone_arg line a s =
     (case s of (name, max_entries, rate) \<Rightarrow>
       (case strip_prefix ''zone='' a of
          Some spec \<Rightarrow>
            and_then (parse_zone_spec line ''zone='' spec) (\<lambda>(n, bytes).
            Inr (Some n, Some (max (bytes div approx_bytes_per_entry) 1), rate))
        | None \<Rightarrow>
            (case strip_prefix ''rate='' a of
               Some rs \<Rightarrow>
                 and_then (ok_or (Invalid_value line ''rate'' rs) (parse_rate rs)) (\<lambda>r.
                 Inr (name, max_entries, Some r))
             | None \<Rightarrow> Inr (name, max_entries, rate))))"

definition parse_limit_req_zone :: "string list \<Rightarrow> nat \<Rightarrow> build_error + limit_req_zone_decl" where
  "parse_limit_req_zone args line =
     (if length args < 3 then
        Inl (Missing_part line ''limit_req_zone: <key> zone=NAME:SIZE rate=Nr/s'')
      else
        and_then (fold_res (limit_req_zone_arg line) (drop 1 args) (None, None, None))
          (\<lambda>(name, max_entries, rate).
        and_then (ok_or (Missing_part line ''limit_req_zone: zone=NAME:SIZE'') name) (\<lambda>n.
        and_then (ok_or (Missing_part line ''limit_req_zone: rate=Nr/s'') rate) (\<lambda>r.
        Inr \<lparr>lrz_name = n, lrz_key_template = template_parse (hd args), lrz_rate_per_sec = r,
             lrz_max_entries = (case max_entries of Some e \<Rightarrow> e | None \<Rightarrow> 1024)\<rparr>))))"

definition parse_limit_req :: "string list \<Rightarrow> nat \<Rightarrow> build_error + (string \<times> nat)" where
  "parse_limit_req args line =
     and_then
       (fold_res (\<lambda>a (zone, burst).
          case strip_prefix ''zone='' a of
            Some z \<Rightarrow> Inr (Some z, burst)
          | None \<Rightarrow>
              (case strip_prefix ''burst='' a of
                 Some b \<Rightarrow>
                   and_then (ok_or (Invalid_value line ''burst'' b) (parse_u32 b)) (\<lambda>n. Inr (zone, n))
               | None \<Rightarrow> Inr (zone, burst)))
          args (None, 0)) (\<lambda>(zone, burst).
     and_then (ok_or (Missing_part line ''limit_req: zone=NAME'') zone) (\<lambda>z. Inr (z, burst)))"

definition parse_cache_path :: "string list \<Rightarrow> nat \<Rightarrow> build_error + cache_zone" where
  "parse_cache_path args line =
     (if args = [] then Inl (Missing_part line ''proxy_cache_path: arguments'')
      else
        and_then
          (fold_res (\<lambda>a zone.
             case strip_prefix ''keys_zone='' a of
               None \<Rightarrow> Inr zone
             | Some spec \<Rightarrow>
                 and_then (parse_zone_spec line ''keys_zone'' spec) (\<lambda>(name, max_bytes).
                 Inr (Some \<lparr>cz_name = name, cz_max_bytes = max_bytes\<rparr>)))
             args None) (\<lambda>zone.
        ok_or (Missing_part line ''proxy_cache_path: keys_zone=NAME:SIZE'') zone))"

text \<open>The status codes before the duration; \<^verbatim>\<open>any\<close> ends the list at once as the empty one.\<close>

fun cache_valid_codes :: "nat \<Rightarrow> string list \<Rightarrow> nat list \<Rightarrow> build_error + nat list" where
  "cache_valid_codes line [] codes = Inr codes"
| "cache_valid_codes line (c # cs) codes =
     (if c = ''any'' then Inr []
      else and_then (ok_or (Invalid_value line ''status code in proxy_cache_valid'' c) (parse_u16 c))
             (\<lambda>code. cache_valid_codes line cs (codes @ [code])))"

definition parse_cache_valid :: "string list \<Rightarrow> nat \<Rightarrow> build_error + (nat list \<times> duration)" where
  "parse_cache_valid args line =
     (if args = [] then Inl (Missing_part line ''proxy_cache_valid: duration'')
      else
        and_then (ok_or (Invalid_value line ''duration in proxy_cache_valid'' (last args))
          (parse_duration (last args))) (\<lambda>ttl.
        and_then (cache_valid_codes line (butlast args) []) (\<lambda>codes. Inr (codes, ttl))))"

definition build_map :: "string list \<Rightarrow> directive list \<Rightarrow> nat \<Rightarrow> build_error + map_decl" where
  "build_map args blk line =
     (if length args < 2 then Inl (Missing_part line ''map: <source-template> <output-var>'')
      else
        and_then (ok_or (Invalid_value line ''map output variable'' (args ! 1))
          (strip_prefix ''$'' (args ! 1))) (\<lambda>output_name.
        Inr \<lparr>md_source = template_parse (args ! 0), md_output_name = output_name,
             md_rules = map (\<lambda>entry.
               \<lparr>mr_pattern = (if d_name entry = ''default'' then PDefault else PLiteral (d_name entry)),
                mr_value = template_parse (get_or_empty 0 (d_args entry))\<rparr>) blk\<rparr>))"

section \<open>Upstreams\<close>

definition health_check_arg :: "nat \<Rightarrow> string \<Rightarrow> health_check_cfg \<Rightarrow> build_error + health_check_cfg" where
  "health_check_arg line a hc =
     (case strip_prefix ''uri='' a of Some v \<Rightarrow> Inr (hc\<lparr>hc_uri := v\<rparr>) | None \<Rightarrow>
     (case strip_prefix ''interval='' a of
        Some v \<Rightarrow> and_then (ok_or (Invalid_value line ''health_check interval'' v) (parse_duration v))
                    (\<lambda>t. Inr (hc\<lparr>hc_interval := t\<rparr>))
      | None \<Rightarrow>
     (case strip_prefix ''timeout='' a of
        Some v \<Rightarrow> and_then (ok_or (Invalid_value line ''health_check timeout'' v) (parse_duration v))
                    (\<lambda>t. Inr (hc\<lparr>hc_timeout := t\<rparr>))
      | None \<Rightarrow>
     (case strip_prefix ''fails='' a of
        Some v \<Rightarrow> and_then (ok_or (Invalid_value line ''health_check fails'' v) (parse_u32 v))
                    (\<lambda>n. Inr (hc\<lparr>hc_fails := n\<rparr>))
      | None \<Rightarrow>
     (case strip_prefix ''passes='' a of
        Some v \<Rightarrow> and_then (ok_or (Invalid_value line ''health_check passes'' v) (parse_u32 v))
                    (\<lambda>n. Inr (hc\<lparr>hc_passes := n\<rparr>))
      | None \<Rightarrow>
     (case strip_prefix ''match='' a of
        Some v \<Rightarrow> and_then (ok_or (Invalid_value line ''health_check match status'' v) (parse_u16 v))
                    (\<lambda>n. Inr (hc\<lparr>hc_expected_status := n\<rparr>))
      | None \<Rightarrow> Inr hc))))))"

definition parse_health_check :: "string list \<Rightarrow> nat \<Rightarrow> build_error + health_check_cfg" where
  "parse_health_check args line = fold_res (health_check_arg line) args default_health_check"

definition upstream_server_arg :: "nat \<Rightarrow> string \<Rightarrow> upstream_server \<Rightarrow> build_error + upstream_server" where
  "upstream_server_arg line a s =
     (case strip_prefix ''weight='' a of
        Some w \<Rightarrow> and_then (ok_or (Invalid_value line ''weight'' w) (parse_u32 w))
                    (\<lambda>n. Inr (s\<lparr>us_weight := n\<rparr>))
      | None \<Rightarrow>
     (case strip_prefix ''max_fails='' a of
        Some n \<Rightarrow> and_then (ok_or (Invalid_value line ''max_fails'' n) (parse_u32 n))
                    (\<lambda>k. Inr (s\<lparr>us_max_fails := k\<rparr>))
      | None \<Rightarrow>
     (case strip_prefix ''fail_timeout='' a of
        Some t \<Rightarrow> and_then (ok_or (Invalid_value line ''fail_timeout'' t) (parse_duration t))
                    (\<lambda>k. Inr (s\<lparr>us_fail_timeout := k\<rparr>))
      | None \<Rightarrow>
          if a = ''backup'' then Inr (s\<lparr>us_backup := True\<rparr>)
          else if a = ''down'' then Inr (s\<lparr>us_down := True\<rparr>)
          else Inr s)))"

definition build_upstream_server :: "directive \<Rightarrow> build_error + upstream_server" where
  "build_upstream_server d =
     (case d_args d of
        [] \<Rightarrow> Inl (Missing_part (d_line d) ''server: address'')
      | addr # rest \<Rightarrow>
          fold_res (upstream_server_arg (d_line d)) rest (default_upstream_server\<lparr>us_addr := addr\<rparr>))"

definition upstream_step :: "directive \<Rightarrow> upstream \<Rightarrow> build_error + upstream" where
  "upstream_step d u =
     (let n = d_name d in
      if n = ''server'' then
        and_then (build_upstream_server d) (\<lambda>s. Inr (u\<lparr>up_servers := up_servers u @ [s]\<rparr>))
      else if n = ''least_conn'' then Inr (u\<lparr>up_method := LeastConn\<rparr>)
      else if n = ''ip_hash'' then Inr (u\<lparr>up_method := IpHash\<rparr>)
      else if n \<in> {''hash'', ''keepalive'', ''zone''} then Inr u
      else if n = ''health_check'' then
        and_then (parse_health_check (d_args d) (d_line d)) (\<lambda>hc.
        Inr (u\<lparr>up_health_check := Some hc\<rparr>))
      else Inl (Unknown_directive (d_line d) n ''upstream''))"

definition build_upstream :: "string \<Rightarrow> directive list \<Rightarrow> nat \<Rightarrow> build_error + upstream" where
  "build_upstream name dirs line =
     and_then
       (fold_res upstream_step dirs
         \<lparr>up_name = name, up_method = RoundRobin, up_servers = [], up_health_check = None\<rparr>) (\<lambda>u.
     if up_servers u = [] then Inl (Upstream_has_no_servers line name) else Inr u)"

section \<open>Stream servers\<close>

definition stream_server_step :: "directive \<Rightarrow> stream_server \<Rightarrow> build_error + stream_server" where
  "stream_server_step d s =
     (let n = d_name d in
      if n = ''listen'' then
        and_then (arg1 d) (\<lambda>a.
        if ''ssl'' \<in> set (d_args d) then Inl (Not_supported (d_line d) ''listen ssl in a stream server'')
        else
          (let s1 = (if ''udp'' \<in> set (d_args d) then s\<lparr>ss_udp := True\<rparr> else s)
           in and_then (parse_listen a (d_line d)) (\<lambda>l. Inr (s1\<lparr>ss_listen := Some l\<rparr>))))
      else if n = ''proxy_pass'' then
        and_then (arg1 d) (\<lambda>a. Inr (s\<lparr>ss_proxy_pass := Some a\<rparr>))
      else if n \<in> {''include'', ''proxy_timeout'', ''proxy_connect_timeout'', ''tcp_nodelay''} then Inr s
      else Inl (Unknown_directive (d_line d) n ''stream server''))"

definition build_stream_server :: "directive list \<Rightarrow> build_error + stream_server" where
  "build_stream_server dirs =
     and_then (fold_res stream_server_step dirs default_stream_server) (\<lambda>s.
     if ss_listen s = None then Inl (Missing_directive ''stream server'' ''listen'')
     else if ss_proxy_pass s = None then Inl (Missing_directive ''stream server'' ''proxy_pass'')
     else Inr s)"

definition stream_step :: "directive \<Rightarrow> stream_block \<Rightarrow> build_error + stream_block" where
  "stream_step d st =
     (let n = d_name d in
      if n = ''upstream'' then
        and_then (arg1 d) (\<lambda>name.
        and_then (expect_block d) (\<lambda>b.
        and_then (build_upstream name b (d_line d)) (\<lambda>u.
        Inr (st\<lparr>st_upstreams := st_upstreams st @ [u]\<rparr>))))
      else if n = ''server'' then
        and_then (expect_block d) (\<lambda>b.
        and_then (build_stream_server b) (\<lambda>s.
        Inr (st\<lparr>st_servers := st_servers st @ [s]\<rparr>)))
      else if n \<in> {''include'', ''access_log'', ''error_log'', ''log_format'', ''proxy_timeout'',
                   ''proxy_connect_timeout'', ''tcp_nodelay'', ''resolver''} then Inr st
      else Inl (Unknown_directive (d_line d) n ''stream''))"

definition build_stream :: "directive list \<Rightarrow> build_error + stream_block" where
  "build_stream dirs = fold_res stream_step dirs default_stream"

section \<open>Locations\<close>

definition parse_location_pattern :: "string \<Rightarrow> string list \<Rightarrow> nat \<Rightarrow>
    build_error + (location_kind \<times> string)" where
  "parse_location_pattern first args line =
     (if first = ''='' then
        and_then (ok_or (Missing_part line ''location =: path'') (get_arg 1 args)) (\<lambda>p. Inr (Exact, p))
      else if first = ''~'' then
        and_then (ok_or (Missing_part line ''location ~: pattern'') (get_arg 1 args)) (\<lambda>p.
        Inr (Regex p False, p))
      else if first = ''~*'' then
        and_then (ok_or (Missing_part line ''location ~*: pattern'') (get_arg 1 args)) (\<lambda>p.
        Inr (Regex p True, p))
      else if first = ''^~'' then
        and_then (ok_or (Missing_part line ''location ^~: path'') (get_arg 1 args)) (\<lambda>p. Inr (Prefix, p))
      else Inr (Prefix, first))"

text \<open>The locals of \<^verbatim>\<open>build_location\<close>: the options of the location and the two candidates for
  its action.\<close>

record loc_build = loc_opts +
  lb_action :: "action option"
  lb_try_files :: "try_files_entry list option"

definition loc_build_init :: loc_build where
  "loc_build_init = \<lparr>loc_set_headers = [], loc_add_headers = [], loc_expires = None, loc_gzip = None,
     loc_autoindex = False, loc_auth_basic_realm = None, loc_auth_basic_user_file = None,
     loc_limit_req = None, loc_limit_conn = None, loc_access_rules = [],
     loc_proxy_connect_timeout = None, loc_proxy_read_timeout = None, loc_auth_request = None,
     loc_mirrors = [], loc_proxy_ssl_verify = True, loc_proxy_ssl_certificate = None,
     loc_proxy_ssl_certificate_key = None, loc_proxy_cache = None, loc_proxy_cache_key = None,
     loc_proxy_cache_valid = [], lb_action = None, lb_try_files = None\<rparr>"

text \<open>The entries of \<^verbatim>\<open>try_files\<close>: a status code may only stand last.\<close>

fun try_files_entries :: "nat \<Rightarrow> string list \<Rightarrow> build_error + try_files_entry list" where
  "try_files_entries line [] = Inr []"
| "try_files_entries line (raw # rest) =
     and_then
       (case strip_prefix ''='' raw of
          Some code \<Rightarrow>
            if rest \<noteq> [] then Inl (Status_not_last line)
            else and_then (ok_or (Invalid_value line ''status code in try_files'' raw) (parse_u16 code))
                   (\<lambda>n. Inr (TStatus n))
        | None \<Rightarrow> Inr (TPath (template_parse raw))) (\<lambda>e.
     and_then (try_files_entries line rest) (\<lambda>es. Inr (e # es)))"

definition with_duration :: "nat \<Rightarrow> string \<Rightarrow> string \<Rightarrow> build_error + duration" where
  "with_duration line what v = ok_or (Invalid_value line what v) (parse_duration v)"

text \<open>One directive of a location: the content directive it stands for, if it is one, and the new
  options.\<close>

definition location_directive :: "directive \<Rightarrow> loc_build \<Rightarrow> build_error + (action option \<times> loc_build)" where
  "location_directive d s =
     (let n = d_name d; line = d_line d; args = d_args d in
      if n = ''return'' then
        and_then (arg1 d) (\<lambda>a.
        and_then (ok_or (Invalid_value line ''status code'' []) (parse_u16 a)) (\<lambda>status.
        Inr (Some (Return status (template_parse (get_or_empty 1 args))), s)))
      else if n = ''proxy_pass'' then and_then (arg1 d) (\<lambda>a. Inr (Some (ProxyPass a), s))
      else if n = ''root'' then and_then (arg1 d) (\<lambda>a. Inr (Some (Root a), s))
      else if n = ''alias'' then and_then (arg1 d) (\<lambda>a. Inr (Some (Alias a), s))
      else if n = ''metrics'' then Inr (Some Metrics, s)
      else if n = ''proxy_set_header'' then
        and_then (arg1 d) (\<lambda>name. Inr (None, s\<lparr>loc_set_headers :=
          loc_set_headers s @ [(name, template_parse (get_or_empty 1 args))]\<rparr>))
      else if n = ''add_header'' then
        and_then (arg1 d) (\<lambda>name. Inr (None, s\<lparr>loc_add_headers :=
          loc_add_headers s @ [(name, template_parse (get_or_empty 1 args))]\<rparr>))
      else if n = ''expires'' then
        and_then (arg1 d) (\<lambda>v. and_then (with_duration line ''expires'' v) (\<lambda>t.
        Inr (None, s\<lparr>loc_expires := Some t\<rparr>)))
      else if n = ''gzip'' then
        and_then (parse_on_off (get_arg 0 args) line) (\<lambda>b. Inr (None, s\<lparr>loc_gzip := Some b\<rparr>))
      else if n = ''proxy_cache'' then
        and_then (arg1 d) (\<lambda>a. Inr (None, s\<lparr>loc_proxy_cache := Some a\<rparr>))
      else if n = ''proxy_cache_key'' then
        and_then (arg1 d) (\<lambda>a. Inr (None, s\<lparr>loc_proxy_cache_key := Some (template_parse a)\<rparr>))
      else if n = ''proxy_cache_valid'' then
        and_then (parse_cache_valid args line) (\<lambda>rule.
        Inr (None, s\<lparr>loc_proxy_cache_valid := loc_proxy_cache_valid s @ [rule]\<rparr>))
      else if n \<in> {''proxy_cache_bypass'', ''proxy_no_cache'', ''proxy_cache_lock'',
                   ''proxy_cache_use_stale'', ''proxy_cache_revalidate'', ''proxy_cache_methods'',
                   ''proxy_cache_min_uses''} then Inr (None, s)
      else if n = ''autoindex'' then
        and_then (parse_on_off (get_arg 0 args) line) (\<lambda>b. Inr (None, s\<lparr>loc_autoindex := b\<rparr>))
      else if n = ''auth_basic'' then
        and_then (arg1 d) (\<lambda>realm. Inr (None, s\<lparr>loc_auth_basic_realm :=
          (if realm = ''off'' then None else Some realm)\<rparr>))
      else if n = ''auth_basic_user_file'' then
        and_then (arg1 d) (\<lambda>a. Inr (None, s\<lparr>loc_auth_basic_user_file := Some a\<rparr>))
      else if n = ''limit_req'' then
        and_then (parse_limit_req args line) (\<lambda>l. Inr (None, s\<lparr>loc_limit_req := Some l\<rparr>))
      else if n = ''limit_conn'' then
        and_then (parse_limit_conn args line) (\<lambda>l. Inr (None, s\<lparr>loc_limit_conn := Some l\<rparr>))
      else if n = ''allow'' then
        and_then (arg1 d) (\<lambda>a. Inr (None, s\<lparr>loc_access_rules := loc_access_rules s @ [(True, a)]\<rparr>))
      else if n = ''deny'' then
        and_then (arg1 d) (\<lambda>a. Inr (None, s\<lparr>loc_access_rules := loc_access_rules s @ [(False, a)]\<rparr>))
      else if n \<in> {''limit_req_status'', ''limit_conn_status''} then Inr (None, s)
      else if n = ''proxy_connect_timeout'' then
        and_then (arg1 d) (\<lambda>v. and_then (with_duration line ''proxy_connect_timeout'' v) (\<lambda>t.
        Inr (None, s\<lparr>loc_proxy_connect_timeout := Some t\<rparr>)))
      else if n = ''proxy_read_timeout'' then
        and_then (arg1 d) (\<lambda>v. and_then (with_duration line ''proxy_read_timeout'' v) (\<lambda>t.
        Inr (None, s\<lparr>loc_proxy_read_timeout := Some t\<rparr>)))
      else if n = ''auth_request'' then
        and_then (arg1 d) (\<lambda>v. Inr (None, s\<lparr>loc_auth_request := Some (template_parse v)\<rparr>))
      else if n = ''mirror'' then
        and_then (arg1 d) (\<lambda>v. Inr (None, s\<lparr>loc_mirrors := loc_mirrors s @ [template_parse v]\<rparr>))
      else if n = ''proxy_ssl_verify'' then
        and_then (parse_on_off (get_arg 0 args) line) (\<lambda>b. Inr (None, s\<lparr>loc_proxy_ssl_verify := b\<rparr>))
      else if n = ''proxy_ssl_certificate'' then
        and_then (arg1 d) (\<lambda>a. Inr (None, s\<lparr>loc_proxy_ssl_certificate := Some a\<rparr>))
      else if n = ''proxy_ssl_certificate_key'' then
        and_then (arg1 d) (\<lambda>a. Inr (None, s\<lparr>loc_proxy_ssl_certificate_key := Some a\<rparr>))
      else if n \<in> {''proxy_ssl_trusted_certificate'', ''proxy_ssl_server_name'',
                   ''proxy_ssl_session_reuse'', ''proxy_ssl_protocols'', ''proxy_ssl_ciphers'',
                   ''include''} then Inr (None, s)
      else if n = ''try_files'' then
        (if length args < 2 then Inl (Missing_part line ''try_files: two arguments'')
         else and_then (try_files_entries line args) (\<lambda>es. Inr (None, s\<lparr>lb_try_files := Some es\<rparr>)))
      else if n \<in> {''index'', ''proxy_buffering'', ''proxy_read_timeout'', ''proxy_connect_timeout'',
                   ''proxy_send_timeout'', ''proxy_next_upstream'', ''proxy_hide_header'',
                   ''proxy_pass_header'', ''proxy_redirect''} then Inr (None, s)
      else Inl (Unknown_directive line n ''location''))"

definition location_step :: "string \<Rightarrow> directive \<Rightarrow> loc_build \<Rightarrow> build_error + loc_build" where
  "location_step path d s =
     and_then (location_directive d s) (\<lambda>(candidate, s').
     case candidate of
       None \<Rightarrow> Inr s'
     | Some found \<Rightarrow>
         if lb_action s' \<noteq> None then Inl (More_than_one_content (d_line d) path)
         else Inr (s'\<lparr>lb_action := Some found\<rparr>))"

text \<open>The action of the finished location.\<close>

definition location_action :: "string \<Rightarrow> nat \<Rightarrow> string option \<Rightarrow> loc_build \<Rightarrow> build_error + action" where
  "location_action path line server_root s =
     (case lb_try_files s of
        Some entries \<Rightarrow>
          (case lb_action s of
             Some (Root dir) \<Rightarrow> Inr (TryFiles dir entries)
           | Some other \<Rightarrow> Inl (Try_files_with_content line path)
           | None \<Rightarrow>
               (case server_root of
                  Some r \<Rightarrow> Inr (TryFiles r entries)
                | None \<Rightarrow> Inl (Try_files_needs_root line path)))
      | None \<Rightarrow>
          (case lb_action s of
             Some a \<Rightarrow> Inr a
           | None \<Rightarrow>
               (case server_root of
                  Some r \<Rightarrow> Inr (Root r)
                | None \<Rightarrow> Inl (No_action line path))))"

definition build_location :: "string \<Rightarrow> location_kind \<Rightarrow> directive list \<Rightarrow> nat \<Rightarrow> string option \<Rightarrow>
    build_error + location" where
  "build_location path kind dirs line server_root =
     and_then (fold_res (location_step path) dirs loc_build_init) (\<lambda>s.
     and_then (location_action path line server_root s) (\<lambda>a.
     if loc_auth_basic_realm s \<noteq> None \<and> loc_auth_basic_user_file s = None
     then Inl (Auth_basic_without_file line path)
     else if (loc_proxy_ssl_certificate s \<noteq> None) \<noteq> (loc_proxy_ssl_certificate_key s \<noteq> None)
     then Inl (Client_certificate_half line path)
     else Inr (loc_opts.extend (loc_opts.truncate s) (location.fields kind path a))))"

section \<open>Servers\<close>

definition parse_tls_version :: "nat \<Rightarrow> string \<Rightarrow> build_error + tls_version" where
  "parse_tls_version line a =
     (if a = ''TLSv1.2'' then Inr Tls12 else if a = ''TLSv1.3'' then Inr Tls13
      else Inl (Invalid_value line ''ssl_protocols'' a))"

definition server_root_step :: "directive \<Rightarrow> server \<Rightarrow> build_error + server" where
  "server_root_step d s =
     (if d_name d = ''root'' then and_then (arg1 d) (\<lambda>a. Inr (s\<lparr>srv_root := Some a\<rparr>)) else Inr s)"

definition server_step :: "directive \<Rightarrow> server \<Rightarrow> build_error + server" where
  "server_step d s =
     (let n = d_name d; line = d_line d; args = d_args d in
      if n = ''listen'' then
        and_then (arg1 d) (\<lambda>a.
        let s1 = (if ''ssl'' \<in> set args then s\<lparr>srv_tls := True\<rparr> else s);
            s2 = (if ''http3'' \<in> set args \<or> ''quic'' \<in> set args
                  then s1\<lparr>srv_tls := True, srv_http3 := True\<rparr> else s1)
        in and_then (parse_listen a line) (\<lambda>l. Inr (s2\<lparr>srv_listen := Some l\<rparr>)))
      else if n = ''server_name'' then Inr (s\<lparr>srv_server_name := get_arg 0 args\<rparr>)
      else if n = ''ssl_certificate'' then
        and_then (arg1 d) (\<lambda>a. Inr (s\<lparr>srv_ssl_certificate := Some a\<rparr>))
      else if n = ''ssl_certificate_key'' then
        and_then (arg1 d) (\<lambda>a. Inr (s\<lparr>srv_ssl_certificate_key := Some a\<rparr>))
      else if n = ''ssl_protocols'' then
        and_then (map_res (parse_tls_version line) args) (\<lambda>vs.
        Inr (s\<lparr>srv_ssl_protocols := srv_ssl_protocols s @ vs\<rparr>))
      else if n \<in> {''ssl_ciphers'', ''ssl_prefer_server_ciphers'', ''ssl_session_cache'',
                   ''ssl_session_timeout'', ''ssl_session_tickets'', ''ssl_dhparam'',
                   ''ssl_ecdh_curve'', ''ssl_stapling''} then Inr s
      else if n = ''client_max_body_size'' then
        and_then (arg1 d) (\<lambda>v.
        and_then (ok_or (Invalid_value line ''client_max_body_size'' v) (parse_size v)) (\<lambda>k.
        Inr (s\<lparr>srv_client_max_body_size := Some k\<rparr>)))
      else if n = ''gzip'' then
        and_then (parse_on_off (get_arg 0 args) line) (\<lambda>b. Inr (s\<lparr>srv_gzip := Some b\<rparr>))
      else if n = ''gzip_types'' then
        Inr (s\<lparr>srv_gzip_types := srv_gzip_types s @ map to_ascii_lowercase args\<rparr>)
      else if n = ''add_header'' then
        and_then (arg1 d) (\<lambda>name. Inr (s\<lparr>srv_add_headers :=
          srv_add_headers s @ [(name, template_parse (get_or_empty 1 args))]\<rparr>))
      else if n = ''gzip_min_length'' then
        and_then (arg1 d) (\<lambda>v.
        and_then (ok_or (Invalid_value line ''gzip_min_length'' v) (parse_size v)) (\<lambda>k.
        Inr (s\<lparr>srv_gzip_min_length := Some k\<rparr>)))
      else if n \<in> {''gzip_disable'', ''gzip_comp_level'', ''gzip_proxied'', ''gzip_vary'',
                   ''gzip_buffers'', ''root''} then Inr s
      else if n = ''location'' then
        (if args = [] then Inl (Missing_part line ''location: path pattern'')
         else
           and_then (parse_location_pattern (hd args) args line) (\<lambda>(kind, path).
           and_then (expect_block d) (\<lambda>b.
           and_then (build_location path kind b line (srv_root s)) (\<lambda>l.
           Inr (s\<lparr>srv_locations := srv_locations s @ [l]\<rparr>)))))
      else if n = ''return'' then Inl (Not_supported line ''return at server level'')
      else if n \<in> {''include'', ''access_log'', ''error_log'', ''index'', ''error_page''} then Inr s
      else Inl (Unknown_directive line n ''server''))"

definition build_server :: "directive list \<Rightarrow> build_error + server" where
  "build_server dirs =
     and_then (fold_res server_root_step dirs default_server) (\<lambda>s0.
     and_then (fold_res server_step dirs s0) (\<lambda>s.
     if srv_listen s = None then Inl (Missing_directive ''server'' ''listen'')
     else if srv_tls s \<and> (srv_ssl_certificate s = None \<or> srv_ssl_certificate_key s = None)
     then Inl (Tls_needs_certificate (srv_listen s))
     else Inr s))"

section \<open>The http block and the whole configuration\<close>

definition http_step :: "directive \<Rightarrow> http_block \<Rightarrow> build_error + http_block" where
  "http_step d h =
     (let n = d_name d; line = d_line d; args = d_args d in
      if n = ''access_log'' then and_then (arg1 d) (\<lambda>a. Inr (h\<lparr>http_access_log := Some a\<rparr>))
      else if n = ''upstream'' then
        and_then (arg1 d) (\<lambda>name.
        and_then (expect_block d) (\<lambda>b.
        and_then (build_upstream name b line) (\<lambda>u.
        Inr (h\<lparr>http_upstreams := http_upstreams h @ [u]\<rparr>))))
      else if n = ''server'' then
        and_then (expect_block d) (\<lambda>b.
        and_then (build_server b) (\<lambda>s.
        Inr (h\<lparr>http_servers := http_servers h @ [s]\<rparr>)))
      else if n = ''proxy_cache_path'' then
        and_then (parse_cache_path args line) (\<lambda>z.
        Inr (h\<lparr>http_cache_zones := http_cache_zones h @ [z]\<rparr>))
      else if n = ''limit_req_zone'' then
        and_then (parse_limit_req_zone args line) (\<lambda>z.
        Inr (h\<lparr>http_limit_req_zones := http_limit_req_zones h @ [z]\<rparr>))
      else if n = ''limit_conn_zone'' then
        and_then (parse_limit_conn_zone args line) (\<lambda>z.
        Inr (h\<lparr>http_limit_conn_zones := http_limit_conn_zones h @ [z]\<rparr>))
      else if n = ''map'' then
        and_then (expect_block d) (\<lambda>b.
        and_then (build_map args b line) (\<lambda>md.
        Inr (h\<lparr>http_maps := http_maps h @ [md]\<rparr>)))
      else if n \<in> {''include'', ''error_log'', ''sendfile'', ''tcp_nopush'', ''tcp_nodelay'',
                   ''keepalive_timeout'', ''types_hash_max_size'', ''default_type'', ''gzip'',
                   ''server_tokens'', ''client_max_body_size'', ''log_format'', ''types'',
                   ''map_hash_bucket_size'', ''map_hash_max_size''} then Inr h
      else Inl (Unknown_directive line n ''http''))"

definition build_http :: "directive list \<Rightarrow> build_error + http_block" where
  "build_http dirs = fold_res http_step dirs default_http"

definition config_step :: "directive \<Rightarrow> config \<Rightarrow> build_error + config" where
  "config_step d c =
     (let n = d_name d; line = d_line d; args = d_args d in
      if n = ''worker_processes'' then and_then (arg1 d) (\<lambda>a. Inr (c\<lparr>cfg_worker_processes := Some a\<rparr>))
      else if n = ''pid'' then and_then (arg1 d) (\<lambda>a. Inr (c\<lparr>cfg_pid := Some a\<rparr>))
      else if n = ''error_log'' then and_then (arg1 d) (\<lambda>a. Inr (c\<lparr>cfg_error_log := Some a\<rparr>))
      else if n = ''events'' then Inr c
      else if n = ''http'' then
        and_then (expect_block d) (\<lambda>b. and_then (build_http b) (\<lambda>h. Inr (c\<lparr>cfg_http := Some h\<rparr>)))
      else if n = ''stream'' then
        and_then (expect_block d) (\<lambda>b. and_then (build_stream b) (\<lambda>st. Inr (c\<lparr>cfg_stream := Some st\<rparr>)))
      else if n = ''include'' then Inr c
      else if n = ''user'' then
        (case args of
           [] \<Rightarrow> Inl (Missing_part line ''user: name'')
         | u # rest \<Rightarrow>
             (let c1 = c\<lparr>cfg_user := Some u\<rparr>
              in Inr (case rest of [] \<Rightarrow> c1 | g # _ \<Rightarrow> c1\<lparr>cfg_group := Some g\<rparr>)))
      else if n = ''worker_rlimit_nofile'' then
        and_then (arg1 d) (\<lambda>a.
        and_then (ok_or (Invalid_value line ''worker_rlimit_nofile'' a) (parse_u64 a)) (\<lambda>k.
        Inr (c\<lparr>cfg_worker_rlimit_nofile := Some k\<rparr>)))
      else if n \<in> {''load_module'', ''daemon'', ''master_process'', ''worker_shutdown_timeout''} then Inr c
      else Inl (Unknown_directive line n ''main''))"

definition build :: "directive list \<Rightarrow> build_error + config" where
  "build dirs = fold_res config_step dirs default_config"

datatype load_error = Text_error config_error | Build_error build_error

definition load :: "file_system \<Rightarrow> nat \<Rightarrow> string \<Rightarrow> load_error + config" where
  "load fs fuel path =
     and_then (map_err Text_error (load_directives fs fuel path)) (\<lambda>dirs.
     map_err Build_error (build dirs))"

definition parse_str :: "string \<Rightarrow> load_error + config" where
  "parse_str text =
     and_then (map_err Text_error (lex text)) (\<lambda>tokens.
     and_then (map_err Text_error (parse tokens)) (\<lambda>dirs.
     map_err Build_error (build dirs)))"

section \<open>Well-formed configurations\<close>

fun wf_try_files :: "try_files_entry list \<Rightarrow> bool" where
  "wf_try_files [] = True"
| "wf_try_files [e] = True"
| "wf_try_files (e # es) \<longleftrightarrow> (case e of TPath _ \<Rightarrow> True | TStatus _ \<Rightarrow> False) \<and> wf_try_files es"

fun wf_action :: "action \<Rightarrow> bool" where
  "wf_action (TryFiles dir es) \<longleftrightarrow> 2 \<le> length es \<and> wf_try_files es"
| "wf_action (Return status body) \<longleftrightarrow> status < 65536"
| "wf_action _ = True"

definition wf_location :: "location \<Rightarrow> bool" where
  "wf_location l \<longleftrightarrow> wf_action (loc_action l) \<and>
     (loc_auth_basic_realm l \<noteq> None \<longrightarrow> loc_auth_basic_user_file l \<noteq> None) \<and>
     (loc_proxy_ssl_certificate l \<noteq> None \<longleftrightarrow> loc_proxy_ssl_certificate_key l \<noteq> None)"

definition wf_server :: "server \<Rightarrow> bool" where
  "wf_server s \<longleftrightarrow> srv_listen s \<noteq> None \<and> list_all wf_location (srv_locations s) \<and>
     (srv_http3 s \<longrightarrow> srv_tls s) \<and>
     (srv_tls s \<longrightarrow> srv_ssl_certificate s \<noteq> None \<and> srv_ssl_certificate_key s \<noteq> None)"

definition wf_upstream_server :: "upstream_server \<Rightarrow> bool" where
  "wf_upstream_server s \<longleftrightarrow> us_weight s < 2 ^ 32 \<and> us_max_fails s < 2 ^ 32"

definition wf_upstream :: "upstream \<Rightarrow> bool" where
  "wf_upstream u \<longleftrightarrow> up_servers u \<noteq> [] \<and> list_all wf_upstream_server (up_servers u)"

definition wf_http :: "http_block \<Rightarrow> bool" where
  "wf_http h \<longleftrightarrow> list_all wf_upstream (http_upstreams h) \<and> list_all wf_server (http_servers h) \<and>
     list_all (\<lambda>z. 1 \<le> lrz_max_entries z) (http_limit_req_zones h) \<and>
     list_all (\<lambda>z. 1 \<le> lcz_max_entries z) (http_limit_conn_zones h)"

definition wf_stream :: "stream_block \<Rightarrow> bool" where
  "wf_stream st \<longleftrightarrow> list_all wf_upstream (st_upstreams st) \<and>
     list_all (\<lambda>s. ss_listen s \<noteq> None \<and> ss_proxy_pass s \<noteq> None) (st_servers st)"

definition wf_config :: "config \<Rightarrow> bool" where
  "wf_config c \<longleftrightarrow> (\<forall>h. cfg_http c = Some h \<longrightarrow> wf_http h) \<and> (\<forall>st. cfg_stream c = Some st \<longrightarrow> wf_stream st)"

subsection \<open>Locations\<close>

lemma try_files_entries_wf:
  "try_files_entries line raws = Inr es \<Longrightarrow> wf_try_files es \<and> length es = length raws"
proof (induction raws arbitrary: es)
  case (Cons raw rest)
  from Cons.prems obtain e es' where es: "es = e # es'" and r: "try_files_entries line rest = Inr es'"
    and e: "rest \<noteq> [] \<longrightarrow> (\<exists>t. e = TPath t)"
    by (auto simp: and_then_Inr_iff split: option.splits if_splits)
  from Cons.IH[OF r] e es show ?case by (cases es') auto
qed simp

definition loc_inv :: "loc_build \<Rightarrow> bool" where
  "loc_inv s \<longleftrightarrow> (\<forall>a. lb_action s = Some a \<longrightarrow> wf_action a) \<and>
     (\<forall>es. lb_try_files s = Some es \<longrightarrow> 2 \<le> length es \<and> wf_try_files es)"

lemma location_directive_inv:
  assumes "location_directive d s = Inr (c, s')"
  shows "lb_action s' = lb_action s \<and>
    (lb_try_files s' = lb_try_files s \<or> (\<exists>es. lb_try_files s' = Some es \<and> 2 \<le> length es \<and> wf_try_files es)) \<and>
    (\<forall>a. c = Some a \<longrightarrow> wf_action a)"
  using assms unfolding location_directive_def Let_def
  by (simp add: and_then_Inr_iff ok_or_Inr_iff split: if_splits)
    (auto dest: try_files_entries_wf parse_uint_bound)

lemma location_step_inv: "location_step path d s = Inr s' \<Longrightarrow> loc_inv s \<Longrightarrow> loc_inv s'"
  by (auto simp: location_step_def and_then_Inr_iff loc_inv_def
      dest!: location_directive_inv split: option.splits if_splits)

lemma location_action_wf: "location_action path line r s = Inr a \<Longrightarrow> loc_inv s \<Longrightarrow> wf_action a"
  by (auto simp: location_action_def loc_inv_def split: option.splits action.splits)

lemma build_location_wf: "build_location path kind dirs line r = Inr l \<Longrightarrow> wf_location l"
proof -
  assume "build_location path kind dirs line r = Inr l"
  then obtain s a where f: "fold_res (location_step path) dirs loc_build_init = Inr s"
    and a: "location_action path line r s = Inr a"
    and l: "l = loc_opts.extend (loc_opts.truncate s) (location.fields kind path a)"
    and ok: "loc_auth_basic_realm s \<noteq> None \<longrightarrow> loc_auth_basic_user_file s \<noteq> None"
      "loc_proxy_ssl_certificate s \<noteq> None \<longleftrightarrow> loc_proxy_ssl_certificate_key s \<noteq> None"
    by (auto simp: build_location_def and_then_Inr_iff split: if_splits)
  have "loc_inv loc_build_init" by (simp add: loc_inv_def loc_build_init_def)
  with f have "loc_inv s" by (rule fold_res_invariant) (rule location_step_inv)
  with a have "wf_action a" by (rule location_action_wf)
  with l ok show ?thesis
    by (simp add: wf_location_def loc_opts.defs location.defs)
qed

subsection \<open>Servers\<close>

definition server_inv :: "server \<Rightarrow> bool" where
  "server_inv s \<longleftrightarrow> list_all wf_location (srv_locations s) \<and> (srv_http3 s \<longrightarrow> srv_tls s)"

lemma server_step_inv: "server_step d s = Inr s' \<Longrightarrow> server_inv s \<Longrightarrow> server_inv s'"
  unfolding server_step_def Let_def server_inv_def
  by (simp add: and_then_Inr_iff split: if_splits) (auto dest: build_location_wf)

lemma server_root_step_inv: "server_root_step d s = Inr s' \<Longrightarrow> server_inv s \<Longrightarrow> server_inv s'"
  by (auto simp: server_root_step_def and_then_Inr_iff server_inv_def split: if_splits)

lemma build_server_wf: "build_server dirs = Inr s \<Longrightarrow> wf_server s"
proof -
  assume "build_server dirs = Inr s"
  then obtain s0 where s0: "fold_res server_root_step dirs default_server = Inr s0"
    and s: "fold_res server_step dirs s0 = Inr s"
    and ok: "srv_listen s \<noteq> None"
      "srv_tls s \<longrightarrow> srv_ssl_certificate s \<noteq> None \<and> srv_ssl_certificate_key s \<noteq> None"
    by (auto simp: build_server_def and_then_Inr_iff split: if_splits)
  have "server_inv default_server" by (simp add: server_inv_def default_server_def)
  with s0 have "server_inv s0" by (rule fold_res_invariant) (rule server_root_step_inv)
  with s have "server_inv s" by (rule fold_res_invariant) (rule server_step_inv)
  with ok show ?thesis by (simp add: wf_server_def server_inv_def)
qed

subsection \<open>Upstreams\<close>

lemma upstream_server_arg_wf:
  "upstream_server_arg line a s = Inr s' \<Longrightarrow> wf_upstream_server s \<Longrightarrow> wf_upstream_server s'"
  by (auto simp: upstream_server_arg_def and_then_Inr_iff ok_or_Inr_iff wf_upstream_server_def
      dest: parse_uint_bound split: option.splits if_splits)

lemma build_upstream_server_wf: "build_upstream_server d = Inr s \<Longrightarrow> wf_upstream_server s"
proof (cases "d_args d")
  case (Cons addr rest)
  assume "build_upstream_server d = Inr s"
  with Cons have "fold_res (upstream_server_arg (d_line d)) rest
      (default_upstream_server\<lparr>us_addr := addr\<rparr>) = Inr s"
    by (simp add: build_upstream_server_def)
  then show ?thesis
    by (rule fold_res_invariant)
      (auto simp: wf_upstream_server_def default_upstream_server_def
        dest!: upstream_server_arg_wf[unfolded wf_upstream_server_def])
qed (simp add: build_upstream_server_def)

lemma upstream_step_wf:
  "upstream_step d u = Inr u' \<Longrightarrow> list_all wf_upstream_server (up_servers u) \<Longrightarrow>
   list_all wf_upstream_server (up_servers u')"
  by (auto simp: upstream_step_def Let_def and_then_Inr_iff dest: build_upstream_server_wf
      split: if_splits)

lemma build_upstream_wf: "build_upstream name dirs line = Inr u \<Longrightarrow> wf_upstream u"
proof -
  assume "build_upstream name dirs line = Inr u"
  then have f: "fold_res upstream_step dirs
      \<lparr>up_name = name, up_method = RoundRobin, up_servers = [], up_health_check = None\<rparr> = Inr u"
    and ne: "up_servers u \<noteq> []"
    by (auto simp: build_upstream_def and_then_Inr_iff split: if_splits)
  from f have "list_all wf_upstream_server (up_servers u)"
    by (rule fold_res_invariant) (auto dest: upstream_step_wf)
  with ne show ?thesis by (simp add: wf_upstream_def)
qed

subsection \<open>Blocks\<close>

definition entries_ok :: "nat option \<Rightarrow> bool" where
  "entries_ok e \<longleftrightarrow> (case e of None \<Rightarrow> True | Some k \<Rightarrow> 1 \<le> k)"

lemma limit_req_zone_entries:
  assumes "parse_limit_req_zone args line = Inr z"
  shows "1 \<le> lrz_max_entries z"
proof -
  from assms obtain name e r
    where f: "fold_res (limit_req_zone_arg line) (drop 1 args) (None, None, None) = Inr (name, e, r)"
      and z: "lrz_max_entries z = (case e of Some k \<Rightarrow> k | None \<Rightarrow> 1024)"
    by (auto simp: parse_limit_req_zone_def and_then_Inr_iff split: if_splits)
  have "entries_ok (fst (snd t'))" if "limit_req_zone_arg line a t = Inr t'" "entries_ok (fst (snd t))"
    for a t t'
    using that by (auto simp: limit_req_zone_arg_def and_then_Inr_iff entries_ok_def
        split: prod.splits option.splits)
  then have "entries_ok (fst (snd (name, e, r)))"
    by (rule fold_res_invariant[OF f, rotated]) (simp_all add: entries_ok_def)
  with z show ?thesis by (simp add: entries_ok_def split: option.splits)
qed

lemma limit_conn_zone_entries:
  assumes "parse_limit_conn_zone args line = Inr z"
  shows "1 \<le> lcz_max_entries z"
proof -
  from assms obtain name e
    where f: "fold_res (limit_conn_zone_arg line) (drop 1 args) (None, None) = Inr (name, e)"
      and z: "lcz_max_entries z = (case e of Some k \<Rightarrow> k | None \<Rightarrow> 4096)"
    by (auto simp: parse_limit_conn_zone_def and_then_Inr_iff split: if_splits)
  have "entries_ok (snd t')" if "limit_conn_zone_arg line a t = Inr t'" "entries_ok (snd t)" for a t t'
    using that by (auto simp: limit_conn_zone_arg_def and_then_Inr_iff entries_ok_def
        split: prod.splits option.splits)
  then have "entries_ok (snd (name, e))"
    by (rule fold_res_invariant[OF f, rotated]) (simp_all add: entries_ok_def)
  with z show ?thesis by (simp add: entries_ok_def split: option.splits)
qed

lemma http_step_wf: "http_step d h = Inr h' \<Longrightarrow> wf_http h \<Longrightarrow> wf_http h'"
  unfolding http_step_def Let_def wf_http_def
  by (simp add: and_then_Inr_iff split: if_splits)
    (auto dest: build_upstream_wf build_server_wf limit_req_zone_entries limit_conn_zone_entries)

lemma build_http_wf: "build_http dirs = Inr h \<Longrightarrow> wf_http h"
  unfolding build_http_def
  by (erule fold_res_invariant) (auto simp: wf_http_def default_http_def dest: http_step_wf)

lemma build_stream_server_wf:
  "build_stream_server dirs = Inr s \<Longrightarrow> ss_listen s \<noteq> None \<and> ss_proxy_pass s \<noteq> None"
  by (auto simp: build_stream_server_def and_then_Inr_iff split: if_splits)

lemma stream_step_wf: "stream_step d st = Inr st' \<Longrightarrow> wf_stream st \<Longrightarrow> wf_stream st'"
  by (auto simp: stream_step_def Let_def wf_stream_def and_then_Inr_iff split: if_splits
      dest: build_upstream_wf build_stream_server_wf)

lemma build_stream_wf: "build_stream dirs = Inr st \<Longrightarrow> wf_stream st"
  unfolding build_stream_def
  by (erule fold_res_invariant) (auto simp: wf_stream_def default_stream_def dest: stream_step_wf)

lemma config_step_wf: "config_step d c = Inr c' \<Longrightarrow> wf_config c \<Longrightarrow> wf_config c'"
  unfolding config_step_def Let_def wf_config_def
  by (simp add: and_then_Inr_iff split: if_splits)
    (auto dest: build_http_wf build_stream_wf split: list.splits)

lemma build_wf: "build dirs = Inr c \<Longrightarrow> wf_config c"
  unfolding build_def
  by (erule fold_res_invariant) (auto simp: wf_config_def default_config_def dest: config_step_wf)

text \<open>C16: Every configuration that loads is well-formed, whatever the files contain: each HTTP
  server has a listen address, and a certificate and a key when it uses TLS or HTTP/3; each
  upstream has a server; each location has one action, a password file when it asks for basic
  authentication, both or neither of the upstream client-certificate files, and a status code only
  as the last of at least two \<^verbatim>\<open>try_files\<close> entries; each stream server has an address and a
  target; each limit zone has room for an entry.\<close>

theorem load_wf_config: "load fs fuel path = Inr c \<Longrightarrow> wf_config c"
  by (auto simp: load_def and_then_Inr_iff map_err_Inr_iff intro: build_wf)

definition demo_conf_fs :: file_system where
  "demo_conf_fs = \<lparr>
     canonicalize = (\<lambda>p. if p \<in> {''/m'', ''/i''} then Some p else None),
     read_to_string = (\<lambda>p.
       if p = ''/m'' then Some ''http { server { listen 81 http3; include i; ssl_certificate c; ssl_certificate_key k; } }''
       else if p = ''/i'' then Some ''location = /a { return 204; auth_basic r; auth_basic_user_file f; }''
       else None)\<rparr>"

theorem load_wf_config_witness:
  "\<exists>c. load demo_conf_fs 2 ''/m'' = Inr c \<and> wf_config c"
proof -
  have "\<exists>c. load demo_conf_fs 2 ''/m'' = Inr c"
    by (cases "load demo_conf_fs 2 ''/m''") (simp_all, code_simp)
  then obtain c where "load demo_conf_fs 2 ''/m'' = Inr c" by blast
  with load_wf_config[OF this] show ?thesis by blast
qed

section \<open>Durations and sizes\<close>

lemma digit_not_whitespace: "is_ascii_digit c \<Longrightarrow> \<not> is_whitespace c"
  by (auto simp: is_ascii_digit_def is_whitespace_def)

lemma trim_show_nat:
  "(\<forall>c \<in> set u. \<not> is_whitespace c) \<Longrightarrow> trim (show_nat n @ u) = show_nat n @ u"
  using show_nat_digits[of n] by (intro trim_id) (auto simp: list_all_iff digit_not_whitespace)

lemma parse_duration_unit:
  assumes "n < 2 ^ 64" and "u \<noteq> []" and "\<not> is_ascii_digit (hd u)" and "\<forall>c \<in> set u. \<not> is_whitespace c"
  shows "parse_duration (show_nat n @ u) =
    (if u = ''ms'' then Some (from_millis n) else if u = ''s'' then Some (from_secs n)
     else if u = ''m'' then Some (from_secs (mul64 n 60))
     else if u = ''h'' then Some (from_secs (mul64 (mul64 n 60) 60))
     else if u = ''d'' then Some (from_secs (mul64 (mul64 (mul64 n 60) 60) 24)) else None)"
  using assms
  by (simp add: parse_duration_def trim_show_nat parse_uint_with_unit split_number_show_nat
      parse_uint_show_nat)

lemma mul64_assoc: "mul64 (mul64 n a) b = mul64 n (a * b)"
  by (simp add: mul64_def mod_mult_left_eq mult.assoc)

lemma mul64_exact: "mul64 n a = n * a \<longleftrightarrow> n * a < 2 ^ 64"
proof
  assume "mul64 n a = n * a"
  then show "n * a < 2 ^ 64" using mod_less_divisor[of "2 ^ 64" "n * a"] by (simp add: mul64_def)
qed (simp add: mul64_def)

text \<open>Durations are read as written: a decimal number of milliseconds or of seconds is exact, and
  a number of minutes, hours or days is exact if and only if the number of seconds fits 64 bits;
  beyond that the value wraps around silently.\<close>

theorem parse_duration_exact:
  assumes "n < 2 ^ 64"
  shows "parse_duration (show_nat n @ ''ms'') = Some n \<and>
    parse_duration (show_nat n @ ''s'') = Some (1000 * n) \<and>
    (parse_duration (show_nat n @ ''m'') = Some (1000 * (n * 60)) \<longleftrightarrow> n * 60 < 2 ^ 64) \<and>
    (parse_duration (show_nat n @ ''h'') = Some (1000 * (n * 3600)) \<longleftrightarrow> n * 3600 < 2 ^ 64) \<and>
    (parse_duration (show_nat n @ ''d'') = Some (1000 * (n * 86400)) \<longleftrightarrow> n * 86400 < 2 ^ 64)"
  using assms mul64_exact[of n 60] mul64_exact[of n 3600] mul64_exact[of n 86400]
  by (simp add: parse_duration_unit is_ascii_digit_def is_whitespace_def from_millis_def
      from_secs_def mul64_assoc mult.commute[of n])

theorem parse_duration_exact_witness:
  "parse_duration ''2m'' = Some 120000 \<and>
   parse_duration (show_nat (2 ^ 62) @ ''m'') \<noteq> Some (1000 * (2 ^ 62 * 60))"
proof -
  have "show_nat 2 @ ''m'' = ''2m''" by code_simp
  then show ?thesis using parse_duration_exact[of 2] parse_duration_exact[of "2 ^ 62"] by simp
qed

lemma parse_size_unit:
  assumes "n < 2 ^ 64" and "u \<noteq> []" and "\<not> is_ascii_digit (hd u)" and "\<forall>c \<in> set u. \<not> is_whitespace c"
  shows "parse_size (show_nat n @ u) =
    (let v = to_ascii_lowercase u
     in if v = ''k'' then Some (mul64 n 1024)
        else if v = ''m'' then Some (mul64 (mul64 n 1024) 1024)
        else if v = ''g'' then Some (mul64 (mul64 (mul64 n 1024) 1024) 1024) else None)"
  using assms
  by (simp add: parse_size_def trim_show_nat parse_uint_with_unit split_number_show_nat
      parse_uint_show_nat)

text \<open>Sizes are read as written: a bare number of bytes is exact, and a number of kilobytes,
  megabytes or gigabytes, in either letter case, is exact if and only if the number of bytes fits
  64 bits.\<close>

theorem parse_size_exact:
  assumes "n < 2 ^ 64"
  shows "parse_size (show_nat n) = Some n \<and>
    (parse_size (show_nat n @ ''k'') = Some (n * 2 ^ 10) \<longleftrightarrow> n * 2 ^ 10 < 2 ^ 64) \<and>
    (parse_size (show_nat n @ ''M'') = Some (n * 2 ^ 20) \<longleftrightarrow> n * 2 ^ 20 < 2 ^ 64) \<and>
    (parse_size (show_nat n @ ''g'') = Some (n * 2 ^ 30) \<longleftrightarrow> n * 2 ^ 30 < 2 ^ 64)"
proof -
  have "trim (show_nat n) = show_nat n" using trim_show_nat[of "[]" n] by simp
  then have "parse_size (show_nat n) = Some n"
    using assms by (simp add: parse_size_def parse_uint_show_nat)
  moreover have "to_ascii_lowercase ''k'' = ''k''" "to_ascii_lowercase ''M'' = ''m''"
      "to_ascii_lowercase ''g'' = ''g''" by code_simp+
  ultimately show ?thesis
    using assms mul64_exact[of n "2 ^ 10"] mul64_exact[of n "2 ^ 20"] mul64_exact[of n "2 ^ 30"]
    by (simp add: parse_size_unit is_ascii_digit_def is_whitespace_def mul64_assoc)
qed

theorem parse_size_exact_witness: "parse_size ''3k'' = Some 3072"
proof -
  have "show_nat 3 @ ''k'' = ''3k''" by code_simp
  then show ?thesis using parse_size_exact[of 3] by simp
qed

end
