(* ===== verification/Access.thy ===== *)
theory Access
  imports Std_Net
begin

text \<open>
  Address-based access control (\<^verbatim>\<open>src/src/access.rs\<close>): the rules of a location, matching an
  address against a CIDR block with byte masks, the first-match decision, and the parser of a
  rule's target.

  Shown here: the masked comparison holds exactly when the first \<open>n\<close> bits of both addresses
  agree; the decision is that of the first matching rule; and a parsed target is well-formed, so
  that matching never reads past the end of an address.
\<close>

unbundle bit_operations_syntax

datatype access_action = Allow | Deny

datatype access_target = All | Ip ip_addr | Cidr ip_addr nat

record access_rule =
  ar_action :: access_action
  ar_target :: access_target

definition rule_allow :: "access_target \<Rightarrow> access_rule" where
  "rule_allow t = \<lparr>ar_action = Allow, ar_target = t\<rparr>"

definition rule_deny :: "access_target \<Rightarrow> access_rule" where
  "rule_deny t = \<lparr>ar_action = Deny, ar_target = t\<rparr>"

definition mask_match :: "u8 list \<Rightarrow> u8 list \<Rightarrow> nat \<Rightarrow> nat \<Rightarrow> bool" where
  "mask_match base ip bits total_bits =
     (if total_bits < bits then False
      else if bits = 0 then True
      else
        (let full_bytes = bits div 8; tail_bits = bits mod 8
         in if take full_bytes base \<noteq> take full_bytes ip then False
            else if tail_bits = 0 then True
            else (let mask = push_bit (8 - tail_bits) (0xFF :: u8)
                  in base ! full_bytes AND mask = ip ! full_bytes AND mask)))"

fun cidr_match :: "ip_addr \<Rightarrow> nat \<Rightarrow> ip_addr \<Rightarrow> bool" where
  "cidr_match (V4 b) bits (V4 c) = mask_match b c bits 32"
| "cidr_match (V6 b) bits (V6 c) = mask_match b c bits 128"
| "cidr_match _ bits _ = False"

fun target_matches :: "access_target \<Rightarrow> ip_addr \<Rightarrow> bool" where
  "target_matches All ip = True"
| "target_matches (Ip b) ip \<longleftrightarrow> b = ip"
| "target_matches (Cidr base bits) ip = cidr_match base bits ip"

fun check :: "access_rule list \<Rightarrow> ip_addr \<Rightarrow> bool" where
  "check [] ip = True"
| "check (r # rs) ip =
     (if target_matches (ar_target r) ip then ar_action r = Allow else check rs ip)"

datatype access_error =
    Invalid_cidr_base string string
  | Invalid_cidr_prefix string string
  | Cidr_prefix_too_large nat ip_addr nat
  | Invalid_address string

definition parse_target :: "string \<Rightarrow> access_error + access_target" where
  "parse_target s =
     (if s = ''all'' then Inr All
      else case split_once (CHR ''/'') s of
             Some (base, bits) \<Rightarrow>
               and_then (ok_or (Invalid_cidr_base base s) (parse_ip_addr base)) (\<lambda>base_ip.
               and_then (ok_or (Invalid_cidr_prefix bits s) (parse_u8 bits)) (\<lambda>n.
               let max_bits = (case base_ip of V4 _ \<Rightarrow> 32 | V6 _ \<Rightarrow> 128)
               in if max_bits < n then Inl (Cidr_prefix_too_large n base_ip max_bits)
                  else Inr (Cidr base_ip n)))
           | None \<Rightarrow>
               and_then (ok_or (Invalid_address s) (parse_ip_addr s)) (\<lambda>ip. Inr (Ip ip)))"

section \<open>Bits of an address\<close>

text \<open>The bits of an address in network order, most significant first.\<close>

definition bit_at :: "u8 list \<Rightarrow> nat \<Rightarrow> bool" where
  "bit_at os i = bit (os ! (i div 8)) (7 - i mod 8)"

lemma byte_eq_iff: "(a :: u8) = b \<longleftrightarrow> (\<forall>j < 8. bit a (7 - j) = bit b (7 - j))"
proof
  assume h: "\<forall>j < 8. bit a (7 - j) = bit b (7 - j)"
  show "a = b"
  proof (rule bit_word_eqI)
    fix n assume "n < LENGTH(8)"
    then have "7 - n < 8" "7 - (7 - n) = n" by simp_all
    with h show "bit a n = bit b n" by metis
  qed
qed simp

lemma masked_eq_iff:
  assumes "0 < t" and "t < 8"
  shows "(a :: u8) AND push_bit (8 - t) 0xFF = b AND push_bit (8 - t) 0xFF \<longleftrightarrow>
         (\<forall>j < t. bit a (7 - j) = bit b (7 - j))"
proof -
  have ff: "(0xFF :: u8) = mask 8" by (simp add: mask_eq_exp_minus_1)
  have m: "bit (push_bit (8 - t) (0xFF :: u8)) n \<longleftrightarrow> 8 - t \<le> n \<and> n < 8" for n
    unfolding ff by (auto simp: bit_push_bit_iff bit_mask_iff)
  show ?thesis
  proof
    assume h: "a AND push_bit (8 - t) 0xFF = b AND push_bit (8 - t) 0xFF"
    show "\<forall>j < t. bit a (7 - j) = bit b (7 - j)"
    proof (intro allI impI)
      fix j assume "j < t"
      then have "8 - t \<le> 7 - j" "7 - j < 8" using assms by auto
      then show "bit a (7 - j) = bit b (7 - j)"
        using arg_cong[OF h, of "\<lambda>w. bit w (7 - j)"] m by (simp add: bit_and_iff)
    qed
  next
    assume h: "\<forall>j < t. bit a (7 - j) = bit b (7 - j)"
    show "a AND push_bit (8 - t) 0xFF = b AND push_bit (8 - t) 0xFF"
    proof (rule bit_word_eqI)
      fix n assume "n < LENGTH(8)"
      then have "8 - t \<le> n \<Longrightarrow> bit a n = bit b n" using h[rule_format, of "7 - n"] assms by auto
      then show "bit (a AND push_bit (8 - t) 0xFF) n = bit (b AND push_bit (8 - t) 0xFF) n"
        by (auto simp: bit_and_iff m)
    qed
  qed
qed

lemma take_bytes_iff:
  assumes "k \<le> length b" and "k \<le> length c"
  shows "take k b = take k c \<longleftrightarrow> (\<forall>i < 8 * k. bit_at b i = bit_at c i)"
proof
  assume h: "take k b = take k c"
  show "\<forall>i < 8 * k. bit_at b i = bit_at c i"
  proof (intro allI impI)
    fix i assume "i < 8 * k"
    then have "i div 8 < k" by auto
    then have "b ! (i div 8) = c ! (i div 8)" using h by (metis nth_take)
    then show "bit_at b i = bit_at c i" by (simp add: bit_at_def)
  qed
next
  assume h: "\<forall>i < 8 * k. bit_at b i = bit_at c i"
  have "b ! m = c ! m" if "m < k" for m
    unfolding byte_eq_iff
  proof (intro allI impI)
    fix j :: nat assume "j < 8"
    then have "8 * m + j < 8 * k" "(8 * m + j) div 8 = m" "(8 * m + j) mod 8 = j" using that by auto
    then show "bit (b ! m) (7 - j) = bit (c ! m) (7 - j)"
      using h[rule_format, of "8 * m + j"] by (simp add: bit_at_def)
  qed
  then show "take k b = take k c" using assms by (intro nth_equalityI) auto
qed

lemma all_less_add: "(\<forall>i < a + b. P i) \<longleftrightarrow> (\<forall>i < a. P i) \<and> (\<forall>j < b. P (a + j))" for a b :: nat
proof (intro iffI conjI allI impI)
  fix i
  assume h: "(\<forall>i < a. P i) \<and> (\<forall>j < b. P (a + j))" and i: "i < a + b"
  show "P i"
  proof (cases "i < a")
    case False
    then have "i - a < b" "a + (i - a) = i" using i by auto
    then show ?thesis using h by metis
  qed (use h in simp)
qed simp_all

lemma mask_match_bits:
  assumes "8 * length b = total_bits" and "8 * length c = total_bits"
  shows "mask_match b c n total_bits \<longleftrightarrow> n \<le> total_bits \<and> (\<forall>i < n. bit_at b i = bit_at c i)"
proof (cases "n \<le> total_bits")
  case True
  let ?k = "n div 8" and ?t = "n mod 8"
  have n: "n = 8 * ?k + ?t" by (simp only: mult_div_mod_eq)
  have k: "?k \<le> length b" "?k \<le> length c" using True assms by auto
  have bits: "(\<forall>i < n. bit_at b i = bit_at c i) \<longleftrightarrow>
      take ?k b = take ?k c \<and> (\<forall>j < ?t. bit (b ! ?k) (7 - j) = bit (c ! ?k) (7 - j))"
  proof -
    have "(\<forall>i < n. bit_at b i = bit_at c i) \<longleftrightarrow>
        (\<forall>i < 8 * ?k. bit_at b i = bit_at c i) \<and> (\<forall>j < ?t. bit_at b (8 * ?k + j) = bit_at c (8 * ?k + j))"
      using all_less_add[of "8 * ?k" ?t "\<lambda>i. bit_at b i = bit_at c i"] by (simp only: n[symmetric])
    moreover have "bit_at os (8 * ?k + j) = bit (os ! ?k) (7 - j)" if "j < ?t" for os :: "u8 list" and j
    proof -
      have "j < 8" using that by (meson less_trans mod_less_divisor zero_less_numeral)
      then show ?thesis by (simp add: bit_at_def)
    qed
    ultimately show ?thesis by (simp add: take_bytes_iff[OF k])
  qed
  show ?thesis
  proof (cases "?t = 0")
    case t0: True
    have "n = 0 \<Longrightarrow> take ?k b = take ?k c" by simp
    then show ?thesis unfolding bits using True t0 by (auto simp: mask_match_def Let_def)
  next
    case False
    then have "n \<noteq> 0" by auto
    then show ?thesis
      unfolding bits using True False masked_eq_iff[of ?t "b ! ?k" "c ! ?k"]
      by (simp add: mask_match_def Let_def)
  qed
qed (simp add: mask_match_def)

section \<open>Properties\<close>

text \<open>C34: CIDR matching is exact: an address lies in the block \<open>base/n\<close> if and only if both are of
  the same family and the first \<open>n\<close> bits of the two addresses agree, for every prefix length up
  to the width of the address (and no longer one).\<close>

theorem cidr_match_prefix:
  assumes "wf_ip base" and "wf_ip ip"
  shows "cidr_match base n ip \<longleftrightarrow>
    (length (octets base) = length (octets ip) \<and> n \<le> 8 * length (octets base) \<and>
     (\<forall>i < n. bit_at (octets base) i = bit_at (octets ip) i))"
  using assms by (cases base; cases ip) (simp_all add: mask_match_bits)

theorem cidr_match_prefix_witness: "\<not> cidr_match (V4 [10, 0, 0, 0]) 9 (V4 [10, 128, 3, 4])"
proof -
  have "bit_at [10, 0, 0, 0] 8 \<noteq> bit_at [10, 128, 3, 4] 8" by code_simp
  moreover have "(8 :: nat) < 9" by simp
  ultimately show ?thesis
    using cidr_match_prefix[of "V4 [10, 0, 0, 0]" "V4 [10, 128, 3, 4]" 9] by fastforce
qed

text \<open>Rules are decided in order: a request is admitted if and only if the first rule that matches
  its address is an \<^verbatim>\<open>allow\<close>, or no rule matches.\<close>

theorem check_first_match:
  "check rules ip \<longleftrightarrow>
     (case find (\<lambda>r. target_matches (ar_target r) ip) rules of
        None \<Rightarrow> True
      | Some r \<Rightarrow> ar_action r = Allow)"
  by (induction rules) auto

fun wf_target :: "access_target \<Rightarrow> bool" where
  "wf_target All = True"
| "wf_target (Ip ip) = wf_ip ip"
| "wf_target (Cidr ip n) \<longleftrightarrow> wf_ip ip \<and> n \<le> 8 * length (octets ip)"

text \<open>Targets parse to well-formed rules: the address has the octets of its family and the prefix
  length does not exceed its width, so matching never indexes beyond the address.\<close>

theorem parse_target_wf: "parse_target s = Inr t \<Longrightarrow> wf_target t"
proof -
  have "wf_ip ip \<Longrightarrow> 8 * length (octets ip) = (case ip of V4 _ \<Rightarrow> 32 | V6 _ \<Rightarrow> 128)" for ip
    by (cases ip) simp_all
  then show "parse_target s = Inr t \<Longrightarrow> wf_target t"
    by (fastforce simp: parse_target_def and_then_Inr_iff ok_or_Inr_iff Let_def not_less
        dest: parse_ip_addr_wf split: if_splits option.splits)
qed

theorem parse_target_wf_witness:
  "parse_target ''10.0.0.0/8'' = Inr (Cidr (V4 [10, 0, 0, 0]) 8) \<and> wf_target (Cidr (V4 [10, 0, 0, 0]) 8)"
proof -
  have p: "parse_target ''10.0.0.0/8'' = Inr (Cidr (V4 [10, 0, 0, 0]) 8)" by code_simp
  show ?thesis using p parse_target_wf[OF p] by (rule conjI)
qed

end
