(* ===== verification/Auth.thy ===== *)
theory Auth
  imports Config_Include Request_Ctx
begin

text \<open>
  HTTP Basic authentication (\<^verbatim>\<open>src/src/auth.rs\<close>): loading an htpasswd file, checking the
  credentials of a request, and the challenge. The base64 decoder and the bcrypt verifier are
  libraries and arguments of the check (\<open>crypto_ops\<close>); a file is what the operating system
  returns for its path.

  Shown here: a file loads exactly when every line that is neither blank nor a comment is a user
  with a bcrypt hash and there is at least one, the last line of a user counting; a request
  passes exactly when it carries the name and the password of such a line; and the challenge
  carries the realm as a quoted string that reads back as the realm.
\<close>

section \<open>Loading\<close>

record auth_basic =
  au_realm :: string
  au_users :: "string smap"

datatype auth_error =
    Auth_unreadable string
  | Auth_expected_pair string nat string
  | Auth_non_bcrypt string nat string
  | Auth_empty string

text \<open>\<^verbatim>\<open>str::lines\<close>: the text cut after each line feed, without the line feed and the carriage
  return before it.\<close>

definition strip_cr :: "string \<Rightarrow> string" where
  "strip_cr l = (if l \<noteq> [] \<and> last l = CHR 0x0D then butlast l else l)"

definition str_lines :: "string \<Rightarrow> string list" where
  "str_lines s =
     (let ps = split_char (CHR 0x0A) s
      in map strip_cr (butlast ps) @ (if last ps = [] then [] else [last ps]))"

definition is_bcrypt :: "string \<Rightarrow> bool" where
  "is_bcrypt hash \<longleftrightarrow> starts_with hash ''$2y$'' \<or> starts_with hash ''$2a$'' \<or> starts_with hash ''$2b$''"

fun htpasswd_lines :: "string \<Rightarrow> nat \<Rightarrow> string list \<Rightarrow> string smap \<Rightarrow> auth_error + string smap" where
  "htpasswd_lines path line_no [] out = Inr out"
| "htpasswd_lines path line_no (raw # raws) out =
     (let line = trim raw
      in if line = [] \<or> starts_with line ''#'' then htpasswd_lines path (Suc line_no) raws out
         else case split_once (CHR '':'') line of
                None \<Rightarrow> Inl (Auth_expected_pair path line_no raw)
              | Some (user, hash) \<Rightarrow>
                  if \<not> is_bcrypt hash then Inl (Auth_non_bcrypt path line_no user)
                  else htpasswd_lines path (Suc line_no) raws (AList.update user hash out))"

definition parse_htpasswd :: "string \<Rightarrow> string \<Rightarrow> auth_error + string smap" where
  "parse_htpasswd text path = htpasswd_lines path 1 (str_lines text) []"

definition auth_load :: "file_system \<Rightarrow> string \<Rightarrow> string \<Rightarrow> auth_error + auth_basic" where
  "auth_load fs path realm =
     and_then (ok_or (Auth_unreadable path) (read_to_string fs path)) (\<lambda>text.
     and_then (parse_htpasswd text path) (\<lambda>users.
     if users = [] then Inl (Auth_empty path) else Inr \<lparr>au_realm = realm, au_users = users\<rparr>))"

section \<open>Checking\<close>

record crypto_ops =
  b64_decode :: "string \<Rightarrow> string option"
  bcrypt_verify :: "string \<Rightarrow> string \<Rightarrow> bool option"

text \<open>\<^verbatim>\<open>String::from_utf8\<close> accepts the bytes that need no replacement.\<close>

definition from_utf8 :: "string \<Rightarrow> string option" where
  "from_utf8 bytes = (if from_utf8_lossy bytes = bytes then Some bytes else None)"

definition parse_authorization :: "'h header_ops \<Rightarrow> crypto_ops \<Rightarrow> 'h \<Rightarrow> string option" where
  "parse_authorization H C headers =
     Option.bind (Option.bind (hm_get H headers ''authorization'') (hv_to_str H)) (\<lambda>v.
       let scheme = (case split_once (CHR '' '') v of Some (s, r) \<Rightarrow> s | None \<Rightarrow> v);
           rest = map_option snd (split_once (CHR '' '') v)
       in if \<not> eq_ignore_ascii_case scheme ''basic'' then None
          else Option.bind rest (\<lambda>r. Option.bind (b64_decode C (trim r)) from_utf8))"

definition escape_quoted :: "string \<Rightarrow> string" where
  "escape_quoted s =
     replace_char (CHR 0x22) [CHR 0x5C, CHR 0x22] (replace_char (CHR 0x5C) [CHR 0x5C, CHR 0x5C] s)"

definition www_authenticate :: "string \<Rightarrow> string" where
  "www_authenticate realm = ''Basic realm='' @ [CHR 0x22] @ escape_quoted realm @ [CHR 0x22]"

definition challenge_response :: "'h header_ops \<Rightarrow> string \<Rightarrow> 'h response" where
  "challenge_response H realm =
     (let h = hm_append H (hm_empty H) ''content-type'' ''text/plain; charset=utf-8'';
          h = (case hv_from_str H (www_authenticate realm) of
                 Some v \<Rightarrow> hm_append H h ''www-authenticate'' v | None \<Rightarrow> h)
      in \<lparr>rs_status = 401, rs_headers = h, rs_body = ''401 Unauthorized'' @ [CHR 0x0A]\<rparr>)"

definition auth_check :: "'h header_ops \<Rightarrow> crypto_ops \<Rightarrow> auth_basic \<Rightarrow> 'h \<Rightarrow> 'h response + unit" where
  "auth_check H C auth headers =
     (case parse_authorization H C headers of
        None \<Rightarrow> Inl (challenge_response H (au_realm auth))
      | Some creds \<Rightarrow>
          (case split_once (CHR '':'') creds of
             None \<Rightarrow> Inl (challenge_response H (au_realm auth))
           | Some (user, password) \<Rightarrow>
               (case map_of (au_users auth) user of
                  None \<Rightarrow> Inl (challenge_response H (au_realm auth))
                | Some hash \<Rightarrow>
                    if bcrypt_verify C password hash = Some True then Inr ()
                    else Inl (challenge_response H (au_realm auth)))))"

section \<open>What a file means\<close>

text \<open>The lines that count.\<close>

definition effective :: "string \<Rightarrow> string list" where
  "effective text = filter (\<lambda>l. l \<noteq> [] \<and> \<not> starts_with l ''#'') (map trim (str_lines text))"

definition insert_users :: "(string \<times> string) list \<Rightarrow> string smap \<Rightarrow> string smap" where
  "insert_users us m = fold (\<lambda>(u, h). AList.update u h) us m"

lemma insert_users_simps [simp]:
  "insert_users [] m = m"
  "insert_users ((u, h) # us) m = insert_users us (AList.update u h m)"
  by (simp_all add: insert_users_def)

lemma insert_users_map_of: "map_of (insert_users us m) = map_of m ++ map_of (rev us)"
proof (induction us arbitrary: m)
  case (Cons x us)
  obtain u h where x: "x = (u, h)" by (cases x)
  show ?case unfolding x by (simp add: Cons.IH update_conv' map_add_upd_left fun_upd_def fun_eq_iff map_add_def split: option.splits)
qed simp

lemma insert_users_empty: "insert_users us m = [] \<longleftrightarrow> us = [] \<and> m = []"
proof -
  have "map_of m ++ map_of (rev us) = Map.empty \<longleftrightarrow> us = [] \<and> m = []" by auto
  then show ?thesis by (metis insert_users_map_of map_of_eq_empty_iff)
qed

lemma map_Some_Cons:
  "(\<exists>us. Some x # xs = map Some us \<and> P us) \<longleftrightarrow> (\<exists>us. xs = map Some us \<and> P (x # us))"
  "\<not> (\<exists>us. None # xs = map Some us \<and> P us)"
  by (auto simp: Cons_eq_map_conv)

lemma htpasswd_lines_exact:
  "htpasswd_lines path n raws out = Inr users \<longleftrightarrow>
   (\<exists>us. map (split_once (CHR '':'')) (filter (\<lambda>l. l \<noteq> [] \<and> \<not> starts_with l ''#'') (map trim raws)) = map Some us \<and>
     list_all (\<lambda>(u, h). is_bcrypt h) us \<and> users = insert_users us out)"
proof (induction path n raws out rule: htpasswd_lines.induct)
  case (2 path n raw raws out)
  show ?case
  proof (cases "trim raw = [] \<or> starts_with (trim raw) ''#''")
    case True
    with 2 show ?thesis by (auto simp: Let_def)
  next
    case False
    show ?thesis
    proof (cases "split_once (CHR '':'') (trim raw)")
      case None
      with False show ?thesis by (simp add: Let_def map_Some_Cons)
    next
      case (Some p)
      obtain u h where p: "p = (u, h)" by (cases p)
      show ?thesis
      proof (cases "is_bcrypt h")
        case True
        with 2(2)[OF refl False Some p[symmetric]] Some p False show ?thesis
          by (simp add: Let_def map_Some_Cons)
      next
        case nb: False
        with False Some p show ?thesis by (simp add: Let_def map_Some_Cons)
      qed
    qed
  qed
qed auto

text \<open>A password file loads exactly when it can be read, every line of it that is neither blank
  nor a comment is a user name and a bcrypt hash with a colon between them, and there is at least one
  such line. The users are those of these lines, in the order they are inserted, so that the last line
  of a user replaces the earlier ones.\<close>

theorem auth_load_exact:
  "auth_load fs path realm = Inr a \<longleftrightarrow>
   (\<exists>text us. read_to_string fs path = Some text \<and>
      map (split_once (CHR '':'')) (effective text) = map Some us \<and>
      us \<noteq> [] \<and> list_all (\<lambda>(u, h). is_bcrypt h) us \<and>
      a = \<lparr>au_realm = realm, au_users = insert_users us []\<rparr>)"
proof -
  have "auth_load fs path realm = Inr a \<longleftrightarrow> (\<exists>text users. read_to_string fs path = Some text \<and>
      parse_htpasswd text path = Inr users \<and> users \<noteq> [] \<and> a = \<lparr>au_realm = realm, au_users = users\<rparr>)"
    by (auto simp: auth_load_def and_then_Inr_iff ok_or_Inr_iff split: if_splits)
  then show ?thesis
    unfolding parse_htpasswd_def htpasswd_lines_exact effective_def[symmetric]
    by (auto simp: insert_users_empty)
qed

section \<open>Who passes\<close>

lemma parse_authorization_exact:
  assumes "header_laws H"
  shows "parse_authorization H C headers = Some creds \<longleftrightarrow>
    (\<exists>scheme r. hm_get H headers ''authorization'' = Some (scheme @ '' '' @ r) \<and>
       hv_to_str H (scheme @ '' '' @ r) \<noteq> None \<and> eq_ignore_ascii_case scheme ''basic'' \<and>
       b64_decode C (trim r) = Some creds \<and> from_utf8_lossy creds = creds)"
proof -
  have sp: "split_once (CHR '' '') (scheme @ '' '' @ r) = Some (scheme, r)"
    if "eq_ignore_ascii_case scheme ''basic''" for scheme r
  proof -
    have "CHR '' '' \<notin> set (to_ascii_lowercase scheme)"
      using that by (simp add: eq_ignore_ascii_case_def to_ascii_lowercase_def ascii_lower_def)
    moreover have "CHR '' '' \<in> set (to_ascii_lowercase scheme)" if "CHR '' '' \<in> set scheme"
    proof -
      have "ascii_lower (CHR '' '') = CHR '' ''" by (simp add: ascii_lower_def)
      then show ?thesis using that unfolding to_ascii_lowercase_def by (metis imageI set_map)
    qed
    ultimately show ?thesis by (auto simp: split_once_Some_iff)
  qed
  have tos: "s = v" if "hv_to_str H v = Some s" for v s using header_lawsD(8)[OF assms that] by simp
  show ?thesis
  proof
    assume "parse_authorization H C headers = Some creds"
    then obtain v0 v r scheme where v: "hm_get H headers ''authorization'' = Some v0" "hv_to_str H v0 = Some v"
      and s: "split_once (CHR '' '') v = Some (scheme, r)" and b: "eq_ignore_ascii_case scheme ''basic''"
      and d: "Option.bind (b64_decode C (trim r)) from_utf8 = Some creds"
      by (auto simp: parse_authorization_def Let_def bind_eq_Some_conv split: if_splits option.splits prod.splits)
    have "v = scheme @ '' '' @ r" using s by (simp add: split_once_Some_iff)
    moreover have "b64_decode C (trim r) = Some creds \<and> from_utf8_lossy creds = creds"
      using d by (auto simp: bind_eq_Some_conv from_utf8_def split: if_splits)
    ultimately show "\<exists>scheme r. hm_get H headers ''authorization'' = Some (scheme @ '' '' @ r) \<and>
       hv_to_str H (scheme @ '' '' @ r) \<noteq> None \<and> eq_ignore_ascii_case scheme ''basic'' \<and>
       b64_decode C (trim r) = Some creds \<and> from_utf8_lossy creds = creds"
      using v b tos by blast
  next
    assume "\<exists>scheme r. hm_get H headers ''authorization'' = Some (scheme @ '' '' @ r) \<and>
       hv_to_str H (scheme @ '' '' @ r) \<noteq> None \<and> eq_ignore_ascii_case scheme ''basic'' \<and>
       b64_decode C (trim r) = Some creds \<and> from_utf8_lossy creds = creds"
    then obtain scheme r where g: "hm_get H headers ''authorization'' = Some (scheme @ '' '' @ r)"
      and t: "hv_to_str H (scheme @ '' '' @ r) \<noteq> None" and b: "eq_ignore_ascii_case scheme ''basic''"
      and d: "b64_decode C (trim r) = Some creds" "from_utf8_lossy creds = creds" by blast
    have "hv_to_str H (scheme @ '' '' @ r) = Some (scheme @ '' '' @ r)" using t tos by auto
    then show "parse_authorization H C headers = Some creds"
      using g sp[OF b, of r] b d by (simp add: parse_authorization_def Let_def from_utf8_def)
  qed
qed

text \<open>The last of the entries of a user.\<close>

lemma map_of_rev_last:
  "map_of (rev us) u = Some h \<longleftrightarrow> (\<exists>xs ys. us = xs @ (u, h) # ys \<and> u \<notin> fst ` set ys)"
proof (induction us rule: rev_induct)
  case (snoc x us)
  obtain v g where x: "x = (v, g)" by (cases x)
  show ?case
  proof (cases "v = u")
    case True
    have "g = h \<longleftrightarrow> (\<exists>xs ys. us @ [(u, g)] = xs @ (u, h) # ys \<and> u \<notin> fst ` set ys)"
    proof
      show "\<exists>xs ys. us @ [(u, g)] = xs @ (u, h) # ys \<and> u \<notin> fst ` set ys" if "g = h"
        using that by (intro exI[of _ us] exI[of _ "[]"]) simp
      assume "\<exists>xs ys. us @ [(u, g)] = xs @ (u, h) # ys \<and> u \<notin> fst ` set ys"
      then obtain xs ys where e: "us @ [(u, g)] = xs @ (u, h) # ys" and n: "u \<notin> fst ` set ys" by blast
      have "ys = []"
      proof (cases ys rule: rev_cases)
        case (snoc zs z)
        with e have "z = (u, g)" by simp
        with n snoc show ?thesis by simp
      qed simp
      with e show "g = h" by simp
    qed
    then show ?thesis using x True by simp
  next
    case False
    have "(\<exists>xs ys. us = xs @ (u, h) # ys \<and> u \<notin> fst ` set ys) \<longleftrightarrow>
        (\<exists>xs ys. us @ [(v, g)] = xs @ (u, h) # ys \<and> u \<notin> fst ` set ys)" (is "?L \<longleftrightarrow> ?R")
    proof
      assume ?L
      then obtain xs ys where "us = xs @ (u, h) # ys" "u \<notin> fst ` set ys" by blast
      then show ?R using False by (intro exI[of _ xs] exI[of _ "ys @ [(v, g)]"]) simp
    next
      assume ?R
      then obtain xs ys where e: "us @ [(v, g)] = xs @ (u, h) # ys" and n: "u \<notin> fst ` set ys" by blast
      show ?L
      proof (cases ys rule: rev_cases)
        case Nil
        with e False show ?thesis by simp
      next
        case (snoc zs z)
        with e n show ?thesis by (intro exI[of _ xs] exI[of _ zs]) simp
      qed
    qed
    then show ?thesis using x False snoc.IH by simp
  qed
qed simp

lemma split_unique:
  fixes c :: char
  assumes "c \<notin> set a" and "c \<notin> set b"
  shows "a @ c # x = b @ c # y \<longleftrightarrow> a = b \<and> x = y"
proof
  assume e: "a @ c # x = b @ c # y"
  have "split_once c (a @ c # x) = Some (a, x)" using assms(1) by (simp add: split_once_Some_iff)
  moreover have "split_once c (a @ c # x) = Some (b, y)"
    unfolding e using assms(2) by (simp add: split_once_Some_iff)
  ultimately show "a = b \<and> x = y" by simp
qed simp

lemma effective_split:
  assumes "map (split_once (CHR '':'')) ls = map Some us" and "CHR '':'' \<notin> set u"
  shows "(\<exists>xs ys. us = xs @ (u, h) # ys \<and> u \<notin> fst ` set ys) \<longleftrightarrow>
    (\<exists>as bs. ls = as @ (u @ '':'' @ h) # bs \<and> list_all (\<lambda>l. \<not> starts_with l (u @ '':'')) bs)"
proof -
  have ls: "ls = map (\<lambda>(u, h). u @ '':'' @ h) us" and nc: "\<forall>(v, g) \<in> set us. CHR '':'' \<notin> set v"
  proof -
    have "list_all2 (\<lambda>l (v, g). l = v @ '':'' @ g \<and> CHR '':'' \<notin> set v) ls us"
      using assms(1) by (induction ls arbitrary: us) (auto simp: Cons_eq_map_conv split_once_Some_iff)
    then show "ls = map (\<lambda>(u, h). u @ '':'' @ h) us" "\<forall>(v, g) \<in> set us. CHR '':'' \<notin> set v"
      by (induction rule: list_all2_induct) auto
  qed
  have key: "v @ '':'' @ g = u @ '':'' @ k \<longleftrightarrow> v = u \<and> g = k" if "(v, g) \<in> set us" for v g k
  proof -
    have "CHR '':'' \<notin> set v" using that nc by auto
    from split_unique[OF this assms(2)] show ?thesis by simp
  qed
  have later: "list_all (\<lambda>l. \<not> starts_with l (u @ '':'')) (map (\<lambda>(u, h). u @ '':'' @ h) ys) \<longleftrightarrow> u \<notin> fst ` set ys"
    if "set ys \<subseteq> set us" for ys
  proof -
    have "starts_with (v @ '':'' @ g) (u @ '':'') \<longleftrightarrow> v = u" if "(v, g) \<in> set ys" for v g
      using that \<open>set ys \<subseteq> set us\<close> key[of v g] by (auto simp: starts_with_iff)
    then show ?thesis by (force simp: list_all_iff)
  qed
  show ?thesis (is "?L \<longleftrightarrow> ?R")
  proof
    assume ?L
    then obtain xs ys where us: "us = xs @ (u, h) # ys" "u \<notin> fst ` set ys" by blast
    then have "list_all (\<lambda>l. \<not> starts_with l (u @ '':'')) (map (\<lambda>(u, h). u @ '':'' @ h) ys)"
      by (subst later) auto
    moreover have "ls = map (\<lambda>(u, h). u @ '':'' @ h) xs @ (u @ '':'' @ h) # map (\<lambda>(u, h). u @ '':'' @ h) ys"
      by (simp add: ls us(1))
    ultimately show ?R by blast
  next
    assume ?R
    then obtain as bs where e: "ls = as @ (u @ '':'' @ h) # bs" and n: "list_all (\<lambda>l. \<not> starts_with l (u @ '':'')) bs"
      by blast
    from e[unfolded ls map_eq_append_conv] obtain xs zs where us0: "us = xs @ zs"
      and zs: "map (\<lambda>(u, h). u @ '':'' @ h) zs = (u @ '':'' @ h) # bs" by auto
    then obtain v g ys where z: "zs = (v, g) # ys" and vg: "v @ '':'' @ g = u @ '':'' @ h"
      and bs: "bs = map (\<lambda>(u, h). u @ '':'' @ h) ys"
      by (cases zs) auto
    have us: "us = xs @ (v, g) # ys" using us0 z by simp
    have "v = u \<and> g = h" using key vg us by simp
    moreover have "u \<notin> fst ` set ys" using n bs later[of ys] us by auto
    ultimately show ?L using us by blast
  qed
qed

text \<open>C31: A location with a loaded password file lets a request through exactly when its
  authorization field is the Basic scheme and the base64 of a name, a colon and a password, in UTF-8,
  and the last line of that name in the file is a bcrypt hash the password verifies against. Every
  other request, and a hash the verifier rejects as malformed, gets the challenge with status 401.\<close>

theorem auth_check_exact:
  assumes "header_laws H" and "auth_load fs path realm = Inr a" and "read_to_string fs path = Some text"
  shows "auth_check H C a headers =
    (if \<exists>scheme r user password hash as bs.
          hm_get H headers ''authorization'' = Some (scheme @ '' '' @ r) \<and>
          hv_to_str H (scheme @ '' '' @ r) \<noteq> None \<and> eq_ignore_ascii_case scheme ''basic'' \<and>
          b64_decode C (trim r) = Some (user @ '':'' @ password) \<and> CHR '':'' \<notin> set user \<and>
          from_utf8_lossy (user @ '':'' @ password) = user @ '':'' @ password \<and>
          effective text = as @ (user @ '':'' @ hash) # bs \<and>
          list_all (\<lambda>l. \<not> starts_with l (user @ '':'')) bs \<and>
          is_bcrypt hash \<and> bcrypt_verify C password hash = Some True
     then Inr () else Inl (challenge_response H realm))" (is "_ = (if ?P then _ else _)")
proof -
  from assms(2,3) obtain us where us: "map (split_once (CHR '':'')) (effective text) = map Some us"
    and bc: "list_all (\<lambda>(u, h). is_bcrypt h) us" and a: "a = \<lparr>au_realm = realm, au_users = insert_users us []\<rparr>"
    by (auto simp: auth_load_exact)
  have users: "map_of (au_users a) u = Some h \<longleftrightarrow>
      (\<exists>as bs. effective text = as @ (u @ '':'' @ h) # bs \<and> list_all (\<lambda>l. \<not> starts_with l (u @ '':'')) bs)"
    if "CHR '':'' \<notin> set u" for u h
    using effective_split[OF us that, of h] by (simp add: a insert_users_map_of map_of_rev_last)
  have bch: "is_bcrypt h" if "map_of (au_users a) u = Some h" for u h
    using that bc by (fastforce simp: a insert_users_map_of list_all_iff dest: map_of_SomeD)
  have "auth_check H C a headers = Inr () \<longleftrightarrow> (\<exists>creds user password hash.
      parse_authorization H C headers = Some creds \<and> split_once (CHR '':'') creds = Some (user, password) \<and>
      map_of (au_users a) user = Some hash \<and> bcrypt_verify C password hash = Some True)"
    by (auto simp: auth_check_def split: option.splits prod.splits if_splits)
  also have "\<dots> \<longleftrightarrow> ?P"
    unfolding parse_authorization_exact[OF assms(1)] split_once_Some_iff
    using users bch by (fastforce simp: a)
  finally have "auth_check H C a headers = Inr () \<longleftrightarrow> ?P" .
  moreover have "auth_check H C a headers \<in> {Inr (), Inl (challenge_response H realm)}"
    by (auto simp: auth_check_def a split: option.splits prod.splits)
  ultimately show ?thesis by (cases ?P) (simp_all only: insert_iff empty_iff if_True if_False simp_thms)
qed

theorem auth_check_exact_witness:
  "auth_check list_headers \<lparr>b64_decode = Some, bcrypt_verify = (\<lambda>p h. Some (h = ''$2y$'' @ p))\<rparr>
     \<lparr>au_realm = ''r'', au_users = [(''al'', ''$2y$pw'')]\<rparr>
     [(''authorization'', ''Basic al:pw'')] = Inr ()"
proof -
  let ?fs = "\<lparr>canonicalize = Some, read_to_string = (\<lambda>p. Some ''al:$2y$pw'')\<rparr>"
  let ?C = "\<lparr>b64_decode = Some, bcrypt_verify = (\<lambda>p h. Some (h = ''$2y$'' @ p))\<rparr>"
  let ?a = "\<lparr>au_realm = ''r'', au_users = [(''al'', ''$2y$pw'')]\<rparr>"
  have ld: "auth_load ?fs ''f'' ''r'' = Inr ?a" by code_simp
  have eff: "effective ''al:$2y$pw'' = [] @ (''al'' @ '':'' @ ''$2y$pw'') # []" by code_simp
  have g: "hm_get list_headers [(''authorization'', ''Basic al:pw'')] ''authorization'' =
      Some (''Basic'' @ '' '' @ ''al:pw'')" by code_simp
  have t: "hv_to_str list_headers (''Basic'' @ '' '' @ ''al:pw'') \<noteq> None" by code_simp
  have i: "eq_ignore_ascii_case ''Basic'' ''basic''" by code_simp
  have d: "b64_decode ?C (trim ''al:pw'') = Some (''al'' @ '':'' @ ''pw'')" by code_simp
  have u: "from_utf8_lossy (''al'' @ '':'' @ ''pw'') = ''al'' @ '':'' @ ''pw''" by code_simp
  have v: "CHR '':'' \<notin> set ''al''" "list_all (\<lambda>l. \<not> starts_with l (''al'' @ '':'')) []"
    "is_bcrypt ''$2y$pw''" "bcrypt_verify ?C ''pw'' ''$2y$pw'' = Some True" by code_simp+
  note ex = auth_check_exact[OF list_headers_laws ld, of "''al:$2y$pw''" ?C "[(''authorization'', ''Basic al:pw'')]"]
  have r: "read_to_string ?fs ''f'' = Some ''al:$2y$pw''" by simp
  show ?thesis
    by (rule trans[OF ex[OF r] if_P]) (use g t i d u v eff in blast)
qed

section \<open>The challenge\<close>

text \<open>A quoted string as a client reads it: up to the first quote that no backslash precedes.\<close>

fun read_quoted :: "string \<Rightarrow> (string \<times> string) option" where
  "read_quoted [] = None"
| "read_quoted (c # cs) =
     (if c = CHR 0x22 then Some ([], cs)
      else if c = CHR 0x5C then
        (case cs of [] \<Rightarrow> None | d # ds \<Rightarrow> map_option (\<lambda>(s, r). (d # s, r)) (read_quoted ds))
      else map_option (\<lambda>(s, r). (c # s, r)) (read_quoted cs))"

text \<open>The challenge names the realm of the location as a quoted string: whatever quotes and
  backslashes the realm holds, the string read back from the field is the realm, and nothing of it
  escapes the quotes.\<close>

theorem challenge_realm_quoted:
  "\<exists>q. www_authenticate realm = ''Basic realm='' @ CHR 0x22 # q \<and> read_quoted q = Some (realm, [])"
proof -
  have "read_quoted (escape_quoted s @ [CHR 0x22]) = Some (s, [])" for s
    by (induction s) (simp_all add: escape_quoted_def replace_char_def)
  then show ?thesis by (simp add: www_authenticate_def)
qed

end
