(* ===== verification/Balancer.thy ===== *)
theory Balancer
  imports Config_Ast
begin

text \<open>
  Load balancing and passive health (\<^verbatim>\<open>Peer\<close>, \<^verbatim>\<open>Balancer\<close> and \<^verbatim>\<open>ProxyTarget\<close> of
  \<^verbatim>\<open>src/src/app.rs\<close>). The atomics of a peer and the round-robin counter of a balancer are
  machine words in a record; an operation on a peer returns the peer updated, an operation on a
  balancer the balancer. A peer is named by its position in the balancer's list, as the
  \<^verbatim>\<open>Arc<Peer>\<close> of the source names one of the shared peers. The clock in milliseconds and the
  hash of the client address (\<^verbatim>\<open>DefaultHasher\<close>, whose algorithm the standard library leaves open)
  are arguments. Balancers that several locations share live in a heap, a list indexed by their
  address.

  Shown here: a picked peer is available, not excluded, and a backup only when no primary can be
  picked; a pick fails only when there is no such peer; round robin gives every peer exactly its
  weight over a full cycle; least-connections picks a minimal score; a peer leaves the rotation
  after the configured number of consecutive failures, for the configured time, and a success
  brings it back; and resolving a dynamic target twice gives the same balancer.
\<close>

section \<open>Peers\<close>

record peer =
  p_addr :: string
  p_weight :: u32
  p_max_fails :: u32
  p_fail_timeout :: duration
  p_backup :: bool
  p_down :: bool
  p_in_flight :: u32
  p_consecutive_failures :: u32
  p_failed_until_ms :: u64

definition is_available :: "u64 \<Rightarrow> peer \<Rightarrow> bool" where
  "is_available now_ms p \<longleftrightarrow>
     \<not> p_down p \<and> (p_failed_until_ms p = 0 \<or> p_failed_until_ms p \<le> now_ms)"

definition record_success :: "peer \<Rightarrow> peer" where
  "record_success p = p\<lparr>p_consecutive_failures := 0, p_failed_until_ms := 0\<rparr>"

definition record_failure :: "u64 \<Rightarrow> peer \<Rightarrow> peer" where
  "record_failure now_ms p =
     (let n = p_consecutive_failures p + 1;
          p1 = p\<lparr>p_consecutive_failures := n\<rparr>
      in if max (p_max_fails p) 1 \<le> n
         then p1\<lparr>p_failed_until_ms := now_ms + of_nat (p_fail_timeout p)\<rparr>
         else p1)"

definition enter :: "peer \<Rightarrow> peer" where
  "enter p = p\<lparr>p_in_flight := p_in_flight p + 1\<rparr>"

definition inflight_drop :: "peer \<Rightarrow> peer" where
  "inflight_drop p = p\<lparr>p_in_flight := p_in_flight p - 1\<rparr>"

section \<open>Balancers\<close>

record balancer =
  bal_name :: string
  bal_method :: lb_method
  bal_peers :: "peer list"
  bal_scheme :: string
  bal_rr_counter :: u64

text \<open>The peers that can be picked: those of a kind (primary or backup) that are available and not
  excluded.\<close>

definition eligible :: "bool \<Rightarrow> u64 \<Rightarrow> string list \<Rightarrow> peer \<Rightarrow> bool" where
  "eligible backup now exclude p \<longleftrightarrow> p_backup p = backup \<and> is_available now p \<and> p_addr p \<notin> set exclude"

definition pool_of :: "u64 \<Rightarrow> string list \<Rightarrow> peer list \<Rightarrow> nat list" where
  "pool_of now exclude peers =
     (let primaries = filter (\<lambda>i. eligible False now exclude (peers ! i)) [0..<length peers]
      in if primaries \<noteq> [] then primaries
         else filter (\<lambda>i. eligible True now exclude (peers ! i)) [0..<length peers])"

definition rr_weight :: "peer \<Rightarrow> u32" where
  "rr_weight p = max (p_weight p) 1"

text \<open>The loop over the pool: the first peer whose weight exceeds what is left of the target.\<close>

fun rr_scan :: "(nat \<times> u32) list \<Rightarrow> u32 \<Rightarrow> nat option" where
  "rr_scan [] target = None"
| "rr_scan ((i, w) # ps) target = (if target < w then Some i else rr_scan ps (target - w))"

definition pick_weighted_rr :: "nat list \<Rightarrow> balancer \<Rightarrow> nat option \<times> balancer" where
  "pick_weighted_rr pool b =
     (let ws = map (\<lambda>i. (i, rr_weight (bal_peers b ! i))) pool;
          tot = sum_list (map snd ws)
      in if tot = 0 then (None, b)
         else
           (let i = ucast (bal_rr_counter b) :: u32;
                b' = b\<lparr>bal_rr_counter := bal_rr_counter b + 1\<rparr>
            in (case rr_scan ws (i mod tot) of
                  Some k \<Rightarrow> (Some k, b')
                | None \<Rightarrow> (Some (hd pool), b'))))"

definition least_conn_score :: "peer \<Rightarrow> nat" where
  "least_conn_score p = unat (p_in_flight p) * 1000000 div unat (rr_weight p)"

definition pick_least_conn :: "nat list \<Rightarrow> balancer \<Rightarrow> nat option" where
  "pick_least_conn pool b = min_by_key (\<lambda>i. least_conn_score (bal_peers b ! i)) pool"

definition pick_ip_hash :: "(ip_addr \<Rightarrow> u64) \<Rightarrow> ip_addr \<Rightarrow> nat list \<Rightarrow> nat option" where
  "pick_ip_hash hash client_ip pool = Some (pool ! (unat (hash client_ip) mod length pool))"

definition pick_inner :: "(ip_addr \<Rightarrow> u64) \<Rightarrow> u64 \<Rightarrow> ip_addr \<Rightarrow> string list \<Rightarrow> balancer \<Rightarrow>
    nat option \<times> balancer" where
  "pick_inner hash now client_ip exclude b =
     (let pool = pool_of now exclude (bal_peers b)
      in if pool = [] then (None, b)
         else case bal_method b of
                RoundRobin \<Rightarrow> pick_weighted_rr pool b
              | LeastConn \<Rightarrow> (pick_least_conn pool b, b)
              | IpHash \<Rightarrow> (pick_ip_hash hash client_ip pool, b))"

definition pick :: "(ip_addr \<Rightarrow> u64) \<Rightarrow> u64 \<Rightarrow> 'h request_ctx \<Rightarrow> balancer \<Rightarrow> nat option \<times> balancer" where
  "pick hash now ctx b = pick_inner hash now (sa_ip (ctx_peer ctx)) [] b"

definition pick_excluding :: "(ip_addr \<Rightarrow> u64) \<Rightarrow> u64 \<Rightarrow> 'h request_ctx \<Rightarrow> string list \<Rightarrow> balancer \<Rightarrow>
    nat option \<times> balancer" where
  "pick_excluding hash now ctx exclude b = pick_inner hash now (sa_ip (ctx_peer ctx)) exclude b"

definition pick_for_addr :: "(ip_addr \<Rightarrow> u64) \<Rightarrow> u64 \<Rightarrow> ip_addr \<Rightarrow> balancer \<Rightarrow> nat option \<times> balancer" where
  "pick_for_addr hash now client_ip b = pick_inner hash now client_ip [] b"

text \<open>An operation on the peer a pick returned.\<close>

definition on_peer :: "nat \<Rightarrow> (peer \<Rightarrow> peer) \<Rightarrow> balancer \<Rightarrow> balancer" where
  "on_peer i f b = b\<lparr>bal_peers := (bal_peers b)[i := f (bal_peers b ! i)]\<rparr>"

section \<open>Targets\<close>

text \<open>A dynamic target names the upstreams it can resolve to and its own memo table.\<close>

datatype proxy_target = Fixed nat | Dynamic template "nat smap" nat

text \<open>The heap of balancers and the memo tables of the dynamic targets.\<close>

record target_state =
  ts_heap :: "balancer list"
  ts_ephemeral :: "nat smap list"

definition fresh_peer :: "string \<Rightarrow> peer" where
  "fresh_peer addr = \<lparr>p_addr = addr, p_weight = 1, p_max_fails = 1, p_fail_timeout = from_secs 10,
     p_backup = False, p_down = False, p_in_flight = 0, p_consecutive_failures = 0,
     p_failed_until_ms = 0\<rparr>"

definition direct_balancer :: "string \<Rightarrow> string \<Rightarrow> balancer" where
  "direct_balancer scheme addr = \<lparr>bal_name = addr, bal_method = RoundRobin,
     bal_peers = [fresh_peer addr], bal_scheme = scheme, bal_rr_counter = 0\<rparr>"

definition or_self :: "string \<Rightarrow> string option \<Rightarrow> string" where
  "or_self s m = (case m of Some r \<Rightarrow> r | None \<Rightarrow> s)"

definition target_host :: "string \<Rightarrow> string" where
  "target_host rendered =
     trim_end_matches (CHR ''/'') (or_self rendered (strip_prefix ''http://'' rendered))"

definition bare_host :: "string \<Rightarrow> string" where
  "bare_host hst = trim_end_matches (CHR ''/'') (or_self hst
     (case strip_prefix ''http://'' hst of Some r \<Rightarrow> Some r | None \<Rightarrow> strip_prefix ''https://'' hst))"

definition split_scheme :: "string \<Rightarrow> string \<times> string" where
  "split_scheme hst =
     (case strip_prefix ''https://'' hst of
        Some s \<Rightarrow> (''https'', trim_end_matches (CHR ''/'') s)
      | None \<Rightarrow>
          (case strip_prefix ''http://'' hst of
             Some s \<Rightarrow> (''http'', trim_end_matches (CHR ''/'') s)
           | None \<Rightarrow> (''http'', hst)))"

fun resolve :: "'h header_ops \<Rightarrow> 'h request_ctx \<Rightarrow> proxy_target \<Rightarrow> target_state \<Rightarrow>
    nat option \<times> target_state" where
  "resolve H ctx (Fixed b) ts = (Some b, ts)"
| "resolve H ctx (Dynamic tmpl balancers eph) ts =
     (let hst = target_host (render H ctx tmpl)
      in if hst = [] then (None, ts)
         else case map_of balancers (bare_host hst) of
                Some b \<Rightarrow> (Some b, ts)
              | None \<Rightarrow>
                  (case map_of (ts_ephemeral ts ! eph) hst of
                     Some b \<Rightarrow> (Some b, ts)
                   | None \<Rightarrow>
                       (let (scheme, addr) = split_scheme hst;
                            b = length (ts_heap ts)
                        in (Some b,
                            ts\<lparr>ts_heap := ts_heap ts @ [direct_balancer scheme addr],
                               ts_ephemeral := (ts_ephemeral ts)
                                 [eph := AList.update hst b (ts_ephemeral ts ! eph)]\<rparr>))))"

section \<open>The pool\<close>

lemma filter_index_empty:
  "filter (\<lambda>i. P (xs ! i)) [0..<length xs] = [] \<longleftrightarrow> (\<forall>x \<in> set xs. \<not> P x)"
  by (auto simp: filter_empty_conv all_set_conv_all_nth)

lemma pool_of_props:
  assumes "i \<in> set (pool_of now exclude peers)"
  shows "i < length peers" and "is_available now (peers ! i)" and "p_addr (peers ! i) \<notin> set exclude"
    and "p_backup (peers ! i) \<Longrightarrow> \<forall>p \<in> set peers. \<not> eligible False now exclude p"
proof -
  let ?prim = "filter (\<lambda>i. eligible False now exclude (peers ! i)) [0..<length peers]"
  have i: "i \<in> set ?prim \<or> ?prim = [] \<and> i < length peers \<and> eligible True now exclude (peers ! i)"
    using assms by (auto simp: pool_of_def Let_def split: if_splits)
  then show "i < length peers" "is_available now (peers ! i)" "p_addr (peers ! i) \<notin> set exclude"
    by (auto simp: eligible_def)
  show "\<forall>p \<in> set peers. \<not> eligible False now exclude p" if "p_backup (peers ! i)"
  proof -
    have "i \<notin> set ?prim" using that by (simp add: eligible_def)
    with i show ?thesis by (simp only: filter_index_empty) simp
  qed
qed

lemma pool_of_empty:
  "pool_of now exclude peers = [] \<longleftrightarrow> (\<forall>p \<in> set peers. \<not> is_available now p \<or> p_addr p \<in> set exclude)"
  unfolding pool_of_def Let_def by (simp add: filter_index_empty) (auto simp: eligible_def)

lemma pool_of_distinct: "distinct (pool_of now exclude peers)"
  by (simp add: pool_of_def Let_def)

section \<open>Weighted round robin\<close>

definition pool_weight :: "peer list \<Rightarrow> nat list \<Rightarrow> nat" where
  "pool_weight peers pool = sum_list (map (\<lambda>i. unat (rr_weight (peers ! i))) pool)"

lemma rr_weight_pos: "0 < unat (rr_weight p)"
proof -
  have "1 \<le> rr_weight p" by (simp add: rr_weight_def)
  then show ?thesis by (simp add: word_le_nat_alt)
qed

text \<open>The scan on natural numbers.\<close>

fun rr_index :: "(nat \<times> nat) list \<Rightarrow> nat \<Rightarrow> nat option" where
  "rr_index [] t = None"
| "rr_index ((i, w) # ps) t = (if t < w then Some i else rr_index ps (t - w))"

lemma rr_scan_index:
  "rr_scan ps t = rr_index (map (\<lambda>(i, w). (i, unat w)) ps) (unat t)"
  by (induction ps arbitrary: t)
    (auto simp: word_less_nat_alt unat_sub word_le_nat_alt not_less)

lemma rr_index_in: "rr_index ps t = Some i \<Longrightarrow> i \<in> fst ` set ps"
proof (induction ps arbitrary: t)
  case (Cons p ps)
  then show ?case by (cases p) (auto split: if_splits)
qed simp

lemma count_list_replicate: "count_list (replicate n x) y = (if x = y then n else 0)"
  by (induction n) auto

lemma rr_index_total: "t < sum_list (map snd ps) \<Longrightarrow> rr_index ps t \<noteq> None"
  by (induction ps arbitrary: t) auto

lemma rr_index_count:
  "distinct (map fst ps) \<Longrightarrow> (i, w) \<in> set ps \<Longrightarrow>
   count_list (map (rr_index ps) [0..<sum_list (map snd ps)]) (Some i) = w"
proof (induction ps)
  case (Cons p ps)
  obtain j v where p: "p = (j, v)" by (cases p)
  let ?S = "sum_list (map snd ps)"
  have "[0..<v + ?S] = [0..<v] @ map (\<lambda>t. t + v) [0..<?S]"
    by (metis add.commute map_add_upt upt_add_eq_append zero_le add_0)
  moreover have "map (rr_index (p # ps)) [0..<v] = replicate v (Some j)"
    using p by (intro nth_equalityI) simp_all
  moreover have "map (rr_index (p # ps)) (map (\<lambda>t. t + v) [0..<?S]) = map (rr_index ps) [0..<?S]"
    using p by simp
  ultimately have split: "map (rr_index (p # ps)) [0..<sum_list (map snd (p # ps))] =
      replicate v (Some j) @ map (rr_index ps) [0..<?S]"
    using p by simp
  show ?case
  proof (cases "j = i")
    case True
    then have "i \<notin> fst ` set ps" and "v = w" using Cons.prems p by (auto simp: image_iff)
    then have "Some i \<notin> set (map (rr_index ps) [0..<?S])" using rr_index_in by fastforce
    then show ?thesis unfolding split using True \<open>v = w\<close>
      by (simp add: count_list_0_iff count_list_replicate)
  next
    case False
    then show ?thesis unfolding split using Cons p by (simp add: count_list_replicate)
  qed
qed simp

lemma sum_list_unat:
  "sum_list (map unat ws) < 2 ^ 32 \<Longrightarrow> unat (sum_list ws) = sum_list (map unat ws)"
  for ws :: "u32 list"
proof (induction ws)
  case (Cons w ws)
  then show ?case by (simp add: unat_word_ariths(1))
qed simp

lemma count_cycle:
  assumes "0 < T"
  shows "count_list (map (\<lambda>j. f ((c + j) mod T)) [0..<T]) x = count_list (map f [0..<T]) x"
proof -
  have "map (\<lambda>j. (c + j) mod T) [0..<T] = rotate c [0..<T]"
    by (rule nth_equalityI) (use assms in \<open>simp_all add: nth_rotate\<close>)
  then have "mset (map (\<lambda>j. (c + j) mod T) [0..<T]) = mset [0..<T]"
    by (metis append_take_drop_id mset_append rotate_drop_take union_commute)
  then have "mset (map f (map (\<lambda>j. (c + j) mod T) [0..<T])) = mset (map f [0..<T])"
    by (simp only: mset_map)
  then have "count_list (map f (map (\<lambda>j. (c + j) mod T) [0..<T])) x = count_list (map f [0..<T]) x"
    by (rule mset_eq_length_filter)
  then show ?thesis by (simp add: o_def)
qed

lemma pool_weights:
  fixes peers :: "peer list" and pool :: "nat list"
  defines "ws \<equiv> map (\<lambda>i. (i, rr_weight (peers ! i))) pool"
  assumes "pool_weight peers pool < 2 ^ 32"
  shows "unat (sum_list (map snd ws)) = pool_weight peers pool"
    and "map snd (map (\<lambda>(i, w). (i, unat w)) ws) = map (\<lambda>i. unat (rr_weight (peers ! i))) pool"
  using sum_list_unat[of "map snd ws"] assms by (simp_all add: pool_weight_def o_def)

lemma pool_weight_pos: "pool \<noteq> [] \<Longrightarrow> 0 < pool_weight peers pool"
  using rr_weight_pos by (cases pool) (simp_all add: pool_weight_def add_pos_nonneg)

text \<open>One round-robin pick, on natural numbers.\<close>

lemma pick_weighted_rr_eq:
  assumes "pool \<noteq> []" and "pool_weight (bal_peers b) pool < 2 ^ 32"
  shows "pick_weighted_rr pool b =
    (rr_index (map (\<lambda>i. (i, unat (rr_weight (bal_peers b ! i)))) pool)
       (unat (bal_rr_counter b) mod 2 ^ 32 mod pool_weight (bal_peers b) pool),
     b\<lparr>bal_rr_counter := bal_rr_counter b + 1\<rparr>)"
proof -
  let ?ws = "map (\<lambda>i. (i, rr_weight (bal_peers b ! i))) pool"
  let ?T = "pool_weight (bal_peers b) pool"
  let ?i = "ucast (bal_rr_counter b) :: u32"
  note tot = pool_weights(1)[OF assms(2)]
  have T: "0 < ?T" using pool_weight_pos[OF assms(1)] .
  then have nz: "sum_list (map snd ?ws) \<noteq> 0" using tot by auto
  have "unat (?i mod sum_list (map snd ?ws)) = unat (bal_rr_counter b) mod 2 ^ 32 mod ?T"
    by (simp only: unat_mod_distrib tot) (simp add: unsigned_ucast_eq take_bit_eq_mod)
  then have scan: "rr_scan ?ws (?i mod sum_list (map snd ?ws)) =
      rr_index (map (\<lambda>i. (i, unat (rr_weight (bal_peers b ! i)))) pool)
        (unat (bal_rr_counter b) mod 2 ^ 32 mod ?T)"
    by (simp add: rr_scan_index o_def)
  have "unat (bal_rr_counter b) mod 2 ^ 32 mod ?T <
      sum_list (map snd (map (\<lambda>i. (i, unat (rr_weight (bal_peers b ! i)))) pool))"
    using T by (simp add: pool_weight_def o_def)
  from rr_index_total[OF this] show ?thesis
    using nz scan by (auto simp: pick_weighted_rr_def Let_def split: option.splits)
qed

text \<open>A pick is of the pool and changes nothing but the counter.\<close>

lemma rr_scan_in: "rr_scan ps t = Some i \<Longrightarrow> i \<in> fst ` set ps"
  using rr_index_in[of "map (\<lambda>(i, w). (i, unat w)) ps"] by (force simp: rr_scan_index)

lemma pick_weighted_rr_in:
  assumes "pick_weighted_rr pool b = (Some i, b')" and "pool \<noteq> []"
  shows "i \<in> set pool"
  using assms rr_scan_in[of "map (\<lambda>i. (i, rr_weight (bal_peers b ! i))) pool"]
  by (fastforce simp: pick_weighted_rr_def Let_def split: if_splits option.splits)

lemma pick_inner_pool:
  assumes "pick_inner hash now ip exclude b = (Some i, b')"
  shows "i \<in> set (pool_of now exclude (bal_peers b))"
proof -
  let ?pool = "pool_of now exclude (bal_peers b)"
  have ne: "?pool \<noteq> []" using assms by (auto simp: pick_inner_def Let_def split: if_splits)
  show ?thesis
  proof (cases "bal_method b")
    case RoundRobin
    then show ?thesis using assms ne pick_weighted_rr_in by (simp add: pick_inner_def Let_def)
  next
    case LeastConn
    then show ?thesis using assms ne by (auto simp: pick_inner_def Let_def pick_least_conn_def dest: min_by_key_in)
  next
    case IpHash
    then show ?thesis using assms ne by (auto simp: pick_inner_def Let_def pick_ip_hash_def)
  qed
qed

lemma pick_inner_frame:
  assumes "pick_inner hash now ip exclude b = (r, b')"
  shows "bal_peers b' = bal_peers b" and "bal_method b' = bal_method b" and "bal_scheme b' = bal_scheme b"
  using assms
  by (auto simp: pick_inner_def pick_weighted_rr_def Let_def split: if_splits lb_method.splits option.splits)

section \<open>The interface of a balancer\<close>

text \<open>What the retry loops of the clients rely on: a pick is a peer of the balancer that can serve,
  is not one of the excluded ones, and picking leaves the peers alone.\<close>

locale peer_source =
  fixes pick :: "'b \<Rightarrow> 'c \<Rightarrow> string list \<Rightarrow> 's \<Rightarrow> nat option \<times> 's"
    and peers :: "'s \<Rightarrow> peer list"
    and usable :: "'b \<Rightarrow> peer \<Rightarrow> bool"
  assumes picked: "pick t c exclude s = (Some i, s') \<Longrightarrow>
      i < length (peers s) \<and> usable t (peers s ! i) \<and> p_addr (peers s ! i) \<notin> set exclude"
    and peers_kept: "pick t c exclude s = (r, s') \<Longrightarrow> peers s' = peers s"
begin

lemma fresh_address:
  "pick t c exclude s = (Some i, s') \<Longrightarrow> distinct exclude \<Longrightarrow>
   distinct (p_addr (peers s' ! i) # exclude)"
  using picked peers_kept by fastforce

end

interpretation bal: peer_source "\<lambda>(hash, now) ip exclude b. pick_inner hash now ip exclude b"
  bal_peers "\<lambda>(hash, now) p. is_available now p"
proof
  fix t :: "(ip_addr \<Rightarrow> u64) \<times> u64" and c exclude s s' i r
  obtain hash now where t: "t = (hash, now)" by (cases t)
  show "i < length (bal_peers s) \<and> (case t of (hash, now) \<Rightarrow> is_available now) (bal_peers s ! i) \<and>
      p_addr (bal_peers s ! i) \<notin> set exclude"
    if "(case t of (hash, now) \<Rightarrow> pick_inner hash now) c exclude s = (Some i, s')"
    using pick_inner_pool[of hash now c exclude s i s'] pool_of_props[of i now exclude "bal_peers s"] that t
    by simp
  show "bal_peers s' = bal_peers s"
    if "(case t of (hash, now) \<Rightarrow> pick_inner hash now) c exclude s = (r, s')"
    using pick_inner_frame(1)[of hash now c exclude s r s'] that t by simp
qed

section \<open>Properties of a pick\<close>

text \<open>C30: A pick is safe, for every method: the chosen peer exists, is neither marked down nor cooling
  down after failures, is not one of the excluded addresses, and is a backup only when no primary
  could be chosen; the pick changes no peer.\<close>

theorem pick_inner_safe:
  assumes "pick_inner hash now ip exclude b = (Some i, b')"
  shows "i < length (bal_peers b) \<and> is_available now (bal_peers b ! i) \<and>
    p_addr (bal_peers b ! i) \<notin> set exclude \<and>
    (p_backup (bal_peers b ! i) \<longrightarrow> (\<forall>p \<in> set (bal_peers b). \<not> eligible False now exclude p)) \<and>
    bal_peers b' = bal_peers b"
  using pool_of_props[OF pick_inner_pool[OF assms]] pick_inner_frame(1)[OF assms] by blast

definition demo_balancer :: "lb_method \<Rightarrow> balancer" where
  "demo_balancer mth = \<lparr>bal_name = ''u'', bal_method = mth,
     bal_peers = [(fresh_peer ''a'')\<lparr>p_weight := 2\<rparr>, fresh_peer ''b'', (fresh_peer ''c'')\<lparr>p_backup := True\<rparr>],
     bal_scheme = ''http'', bal_rr_counter = 0\<rparr>"

theorem pick_inner_safe_witness:
  "fst (pick_inner (\<lambda>_. 7) 5 (V4 [1, 1, 1, 1]) [''a''] (demo_balancer IpHash)) = Some 1 \<and>
   p_addr (bal_peers (demo_balancer IpHash) ! 1) \<notin> set [''a'']"
proof -
  have p: "pick_inner (\<lambda>_. 7) 5 (V4 [1, 1, 1, 1]) [''a''] (demo_balancer IpHash) =
      (Some 1, demo_balancer IpHash)" by code_simp
  from pick_inner_safe[OF p] p show ?thesis by simp
qed

text \<open>A pick fails only when it has to: it returns no peer if and only if every peer is down,
  cooling down or excluded, provided the weights of the pool add up within 32 bits.\<close>

theorem pick_inner_none_iff:
  assumes "pool_weight (bal_peers b) (pool_of now exclude (bal_peers b)) < 2 ^ 32"
  shows "fst (pick_inner hash now ip exclude b) = None \<longleftrightarrow>
    (\<forall>p \<in> set (bal_peers b). \<not> is_available now p \<or> p_addr p \<in> set exclude)"
proof (cases "pool_of now exclude (bal_peers b) = []")
  case True
  then have "fst (pick_inner hash now ip exclude b) = None" by (simp add: pick_inner_def)
  with True pool_of_empty[of now exclude "bal_peers b"] show ?thesis by blast
next
  case False
  let ?pool = "pool_of now exclude (bal_peers b)"
  let ?ws = "map (\<lambda>i. (i, unat (rr_weight (bal_peers b ! i)))) ?pool"
  have "rr_index ?ws (c mod pool_weight (bal_peers b) ?pool) \<noteq> None" for c
    by (rule rr_index_total) (use pool_weight_pos[OF False] in \<open>simp add: pool_weight_def o_def\<close>)
  then have "fst (pick_inner hash now ip exclude b) \<noteq> None"
    using False pick_weighted_rr_eq[OF False assms]
    by (cases "bal_method b")
      (simp_all add: pick_inner_def Let_def pick_least_conn_def pick_ip_hash_def)
  with False show ?thesis using pool_of_empty[of now exclude "bal_peers b"] by blast
qed

theorem pick_inner_none_iff_witness:
  "fst (pick_inner (\<lambda>_. 7) 5 (V4 [1, 1, 1, 1]) [''a'', ''b'', ''c''] (demo_balancer RoundRobin)) = None"
proof -
  have w: "pool_weight (bal_peers (demo_balancer RoundRobin))
      (pool_of 5 [''a'', ''b'', ''c''] (bal_peers (demo_balancer RoundRobin))) < 2 ^ 32" by code_simp
  have "p \<in> set (bal_peers (demo_balancer RoundRobin)) \<Longrightarrow> p_addr p \<in> set [''a'', ''b'', ''c'']" for p
    by (auto simp: demo_balancer_def fresh_peer_def)
  then show ?thesis using pick_inner_none_iff[OF w] by blast
qed

text \<open>\<open>n\<close> picks in a row, with the peers unchanged in between.\<close>

fun picks :: "(ip_addr \<Rightarrow> u64) \<Rightarrow> u64 \<Rightarrow> ip_addr \<Rightarrow> string list \<Rightarrow> nat \<Rightarrow> balancer \<Rightarrow> nat option list" where
  "picks hash now ip exclude 0 b = []"
| "picks hash now ip exclude (Suc n) b =
     (let (r, b') = pick_inner hash now ip exclude b in r # picks hash now ip exclude n b')"

lemma unat_succ_mod: "unat (c + 1 :: u64) mod 2 ^ 32 = (unat c mod 2 ^ 32 + 1) mod 2 ^ 32"
proof -
  have "unat (c + 1) = (unat c + 1) mod 2 ^ 64" by (simp add: unat_word_ariths(1))
  moreover have "(2 :: nat) ^ 32 dvd 2 ^ 64" by (simp add: le_imp_power_dvd)
  ultimately have "unat (c + 1) mod 2 ^ 32 = (unat c + 1) mod 2 ^ 32" by (simp only: mod_mod_cancel)
  then show ?thesis by (simp only: mod_add_left_eq)
qed

lemma picks_rr:
  assumes "bal_method b = RoundRobin" and "pool_of now exclude (bal_peers b) = pool" and "pool \<noteq> []"
    and "pool_weight (bal_peers b) pool = T" and "T < 2 ^ 32"
    and "unat (bal_rr_counter b) mod 2 ^ 32 + n \<le> 2 ^ 32"
  shows "picks hash now ip exclude n b =
    map (\<lambda>j. rr_index (map (\<lambda>i. (i, unat (rr_weight (bal_peers b ! i)))) pool)
               ((unat (bal_rr_counter b) mod 2 ^ 32 + j) mod T)) [0..<n]"
  using assms
proof (induction n arbitrary: b)
  case (Suc n)
  let ?c = "unat (bal_rr_counter b) mod 2 ^ 32"
  let ?b' = "b\<lparr>bal_rr_counter := bal_rr_counter b + 1\<rparr>"
  let ?f = "\<lambda>t. rr_index (map (\<lambda>i. (i, unat (rr_weight (bal_peers b ! i)))) pool) (t mod T)"
  have p: "pick_inner hash now ip exclude b = (?f ?c, ?b')"
    using Suc.prems pick_weighted_rr_eq[OF Suc.prems(3)] by (simp add: pick_inner_def)
  have tail: "picks hash now ip exclude n ?b' = map (\<lambda>j. ?f (?c + 1 + j)) [0..<n]"
  proof (cases n)
    case (Suc k)
    then have "unat (bal_rr_counter b + 1) mod 2 ^ 32 = ?c + 1"
      using Suc.prems(6) unat_succ_mod[of "bal_rr_counter b"] by simp
    then show ?thesis using Suc.IH[of ?b'] Suc.prems by simp
  qed simp
  have "[0..<Suc n] = 0 # map Suc [0..<n]" by (simp add: upt_conv_Cons map_Suc_upt del: upt_Suc)
  then show ?case using p tail by (simp add: o_def del: upt_Suc)
qed simp

text \<open>Weighted round robin is exact: over one full cycle of picks, as many as the weights of the
  pool add up to, every peer of the pool is chosen exactly as often as its weight says (a weight of
  zero counts as one), from whatever value the shared counter has, as long as its low 32 bits do
  not wrap during the cycle.\<close>

theorem round_robin_exact:
  assumes "bal_method b = RoundRobin" and "i \<in> set (pool_of now exclude (bal_peers b))"
    and "pool_weight (bal_peers b) (pool_of now exclude (bal_peers b)) = T" and "T < 2 ^ 32"
    and "unat (bal_rr_counter b) mod 2 ^ 32 + T \<le> 2 ^ 32"
  shows "count_list (picks hash now ip exclude T b) (Some i) = unat (rr_weight (bal_peers b ! i))"
proof -
  let ?pool = "pool_of now exclude (bal_peers b)"
  let ?ws = "map (\<lambda>i. (i, unat (rr_weight (bal_peers b ! i)))) ?pool"
  have ne: "?pool \<noteq> []" using assms(2) by auto
  have T: "T = sum_list (map snd ?ws)" using assms(3) by (simp add: pool_weight_def o_def)
  have "0 < T" using pool_weight_pos[OF ne] assms(3) by blast
  have "count_list (picks hash now ip exclude T b) (Some i) =
      count_list (map (rr_index ?ws) [0..<T]) (Some i)"
    using picks_rr[OF assms(1) refl ne assms(3-5)] count_cycle[OF \<open>0 < T\<close>, of "rr_index ?ws"] by simp
  also have "\<dots> = unat (rr_weight (bal_peers b ! i))"
    unfolding T by (rule rr_index_count) (use assms(2) pool_of_distinct in \<open>simp_all add: o_def\<close>)
  finally show ?thesis .
qed

theorem round_robin_exact_witness:
  "count_list (picks (\<lambda>_. 0) 5 (V4 [1, 1, 1, 1]) [] 3 (demo_balancer RoundRobin)) (Some 0) = 2"
proof -
  let ?b = "demo_balancer RoundRobin"
  have m: "bal_method ?b = RoundRobin" by code_simp
  have i: "0 \<in> set (pool_of 5 [] (bal_peers ?b))" by code_simp
  have w: "pool_weight (bal_peers ?b) (pool_of 5 [] (bal_peers ?b)) = 3" by code_simp
  have c: "unat (bal_rr_counter ?b) mod 2 ^ 32 + 3 \<le> 2 ^ 32" by code_simp
  have "count_list (picks (\<lambda>_. 0) 5 (V4 [1, 1, 1, 1]) [] 3 ?b) (Some 0) = unat (rr_weight (bal_peers ?b ! 0))"
    by (rule round_robin_exact[OF m i w _ c]) simp
  also have "\<dots> = 2" by code_simp
  finally show ?thesis .
qed

text \<open>Least connections balances: the chosen peer has the smallest number of requests in flight
  relative to its weight among the peers that can be picked, and is the first such peer.\<close>

theorem least_conn_minimal:
  assumes "bal_method b = LeastConn" and "pick_inner hash now ip exclude b = (Some i, b')"
    and "j \<in> set (pool_of now exclude (bal_peers b))"
  shows "least_conn_score (bal_peers b ! i) \<le> least_conn_score (bal_peers b ! j) \<and>
    (j < i \<longrightarrow> least_conn_score (bal_peers b ! i) < least_conn_score (bal_peers b ! j))"
proof -
  let ?pool = "pool_of now exclude (bal_peers b)"
  let ?f = "\<lambda>i. least_conn_score (bal_peers b ! i)"
  have m: "min_by_key ?f ?pool = Some i"
    using assms(1,2) by (auto simp: pick_inner_def Let_def pick_least_conn_def split: if_splits)
  from min_by_key_first[OF m] obtain us vs where
    pool: "?pool = us @ i # vs" and us: "\<forall>u \<in> set us. ?f i < ?f u" by blast
  have sorted: "sorted ?pool" by (simp add: pool_of_def Let_def sorted_wrt_filter)
  have "?f i < ?f j" if "j < i"
  proof -
    have "j \<notin> set vs" using sorted that unfolding pool by (auto simp: sorted_append)
    then show ?thesis using assms(3) us that unfolding pool by auto
  qed
  then show ?thesis using min_by_key_le[OF m assms(3)] by simp
qed

theorem least_conn_minimal_witness:
  "least_conn_score (bal_peers (demo_balancer LeastConn) ! 0) \<le>
     least_conn_score (bal_peers (demo_balancer LeastConn) ! 1)"
proof -
  have m: "bal_method (demo_balancer LeastConn) = LeastConn" by code_simp
  have p: "pick_inner (\<lambda>_. 0) 5 (V4 [1, 1, 1, 1]) [] (demo_balancer LeastConn) =
      (Some 0, demo_balancer LeastConn)" by code_simp
  have j: "1 \<in> set (pool_of 5 [] (bal_peers (demo_balancer LeastConn)))" by code_simp
  from least_conn_minimal[OF m p j] show ?thesis by blast
qed

section \<open>Passive health\<close>

definition fail_at :: "u64 list \<Rightarrow> peer \<Rightarrow> peer" where
  "fail_at ts p = fold record_failure ts p"

lemma record_failure_frame:
  "p_down (record_failure t p) = p_down p" "p_max_fails (record_failure t p) = p_max_fails p"
  "p_fail_timeout (record_failure t p) = p_fail_timeout p"
  "p_consecutive_failures (record_failure t p) = p_consecutive_failures p + 1"
  by (simp_all add: record_failure_def Let_def)

lemma fail_at_state:
  assumes "length ts < 2 ^ 32"
  shows "p_down (fail_at ts (record_success p)) = p_down p \<and>
    p_max_fails (fail_at ts (record_success p)) = p_max_fails p \<and>
    p_fail_timeout (fail_at ts (record_success p)) = p_fail_timeout p \<and>
    p_consecutive_failures (fail_at ts (record_success p)) = of_nat (length ts) \<and>
    p_failed_until_ms (fail_at ts (record_success p)) =
      (if max (unat (p_max_fails p)) 1 \<le> length ts
       then last ts + of_nat (p_fail_timeout p) else 0)"
  using assms
proof (induction ts rule: rev_induct)
  case Nil
  then show ?case by (simp add: fail_at_def record_success_def)
next
  case (snoc t ts)
  let ?q = "fail_at ts (record_success p)"
  have q: "fail_at (ts @ [t]) (record_success p) = record_failure t ?q" by (simp add: fail_at_def)
  have IH: "p_down ?q = p_down p" "p_max_fails ?q = p_max_fails p"
      "p_fail_timeout ?q = p_fail_timeout p" "p_consecutive_failures ?q = of_nat (length ts)"
      "p_failed_until_ms ?q = (if max (unat (p_max_fails p)) 1 \<le> length ts
         then last ts + of_nat (p_fail_timeout p) else 0)"
    using snoc by simp_all
  have n: "unat (of_nat (length ts) + 1 :: u32) = length ts + 1"
    using snoc.prems by (simp add: unat_word_ariths(1) unat_of_nat)
  have "unat (max (p_max_fails p) 1) = max (unat (p_max_fails p)) 1"
    by (simp add: max_def word_le_nat_alt)
  then have "max (p_max_fails p) 1 \<le> of_nat (length ts) + 1 \<longleftrightarrow>
      max (unat (p_max_fails p)) 1 \<le> length ts + 1"
    by (simp only: word_le_nat_alt n)
  then show ?case
    unfolding q using IH by (auto simp: record_failure_def Let_def add.commute)
qed

text \<open>Passive health follows the configuration: a peer that is not marked down, after a success
  and then a number of failures, is taken out of rotation exactly when there have been at least
  \<^verbatim>\<open>max_fails\<close> of them (at least one), from the last failure on and until its
  \<^verbatim>\<open>fail_timeout\<close> has passed; the next success makes it available at once.\<close>

theorem passive_health:
  assumes "\<not> p_down p" and "length ts < 2 ^ 32"
    and "ts \<noteq> [] \<Longrightarrow> unat (last ts) + p_fail_timeout p < 2 ^ 64"
    and "ts \<noteq> [] \<Longrightarrow> 0 < unat (last ts)"
  shows "(is_available now (fail_at ts (record_success p)) \<longleftrightarrow>
      length ts < max (unat (p_max_fails p)) 1 \<or>
      unat (last ts) + p_fail_timeout p \<le> unat now) \<and>
    is_available now (record_success (fail_at ts (record_success p)))"
proof -
  let ?q = "fail_at ts (record_success p)"
  note st = fail_at_state[OF assms(2), of p]
  have avail: "is_available now (record_success ?q)"
    using st assms(1) by (simp add: is_available_def record_success_def)
  show ?thesis
  proof (cases "max (unat (p_max_fails p)) 1 \<le> length ts")
    case False
    then have "p_failed_until_ms ?q = 0" "\<not> p_down ?q" using st assms(1) by presburger+
    moreover have "length ts < max (unat (p_max_fails p)) 1" using False by (simp only: not_le)
    ultimately show ?thesis using avail by (simp add: is_available_def)
  next
    case True
    then have ne: "ts \<noteq> []" by auto
    have u: "unat (last ts + of_nat (p_fail_timeout p)) = unat (last ts) + p_fail_timeout p"
      using assms(3)[OF ne] by (simp add: unat_word_ariths(1) unat_of_nat)
    then have "last ts + of_nat (p_fail_timeout p) \<noteq> (0 :: u64)"
      using assms(4)[OF ne] by (metis add_is_0 less_not_refl unsigned_0)
    then show ?thesis using st True assms(1) avail u
      by (auto simp: is_available_def word_le_nat_alt)
  qed
qed

theorem passive_health_witness:
  "\<not> is_available 1500 (fail_at [1000] (record_success ((fresh_peer ''a'')\<lparr>p_fail_timeout := 1000\<rparr>))) \<and>
   is_available 2000 (fail_at [1000] (record_success ((fresh_peer ''a'')\<lparr>p_fail_timeout := 1000\<rparr>)))"
  using passive_health[of "(fresh_peer ''a'')\<lparr>p_fail_timeout := 1000\<rparr>" "[1000]" 1500]
    passive_health[of "(fresh_peer ''a'')\<lparr>p_fail_timeout := 1000\<rparr>" "[1000]" 2000]
  by (simp add: fresh_peer_def)

section \<open>Requests in flight\<close>

text \<open>A peer with the number of live guards: a request enters, a guard is dropped, and the health
  bookkeeping runs in between.\<close>

inductive peer_step :: "peer \<times> nat \<Rightarrow> peer \<times> nat \<Rightarrow> bool" where
  entered: "peer_step (p, n) (enter p, n + 1)"
| dropped: "peer_step (p, n + 1) (inflight_drop p, n)"
| succeeded: "peer_step (p, n) (record_success p, n)"
| failed: "peer_step (p, n) (record_failure t p, n)"

lemma peer_step_inflight:
  "peer_step s s' \<Longrightarrow> p_in_flight (fst s) = of_nat (snd s) \<Longrightarrow> p_in_flight (fst s') = of_nat (snd s')"
  by (induction rule: peer_step.induct)
    (auto simp: enter_def inflight_drop_def record_success_def record_failure_def Let_def add.commute)

text \<open>The in-flight counter is the number of live guards (modulo its 32 bits) after any
  interleaving of requests starting and ending with failures and successes being recorded, so the
  least-connections score reads the true load.\<close>

theorem inflight_exact:
  assumes "peer_step\<^sup>*\<^sup>* (fresh_peer addr, 0) (p, n)"
  shows "p_in_flight p = of_nat n \<and> (n < 2 ^ 32 \<longrightarrow> unat (p_in_flight p) = n)"
proof -
  have "p_in_flight (fst (p, n)) = of_nat (snd (p, n))"
    using assms
  proof (induction rule: rtranclp_induct)
    case base
    show ?case by (simp add: fresh_peer_def)
  qed (rule peer_step_inflight)
  then show ?thesis by (simp add: unat_of_nat)
qed

theorem inflight_exact_witness:
  "p_in_flight (enter (record_failure 9 (enter (fresh_peer ''a'')))) = 2"
proof -
  have "peer_step\<^sup>*\<^sup>* (fresh_peer ''a'', 0) (enter (fresh_peer ''a''), 0 + 1)"
    by (rule r_into_rtranclp, rule peer_step.entered)
  then have "peer_step\<^sup>*\<^sup>* (fresh_peer ''a'', 0) (record_failure 9 (enter (fresh_peer ''a'')), 0 + 1)"
    by (rule rtranclp.rtrancl_into_rtrancl) (rule peer_step.failed)
  then have "peer_step\<^sup>*\<^sup>* (fresh_peer ''a'', 0)
      (enter (record_failure 9 (enter (fresh_peer ''a''))), 0 + 1 + 1)"
    by (rule rtranclp.rtrancl_into_rtrancl) (rule peer_step.entered)
  from inflight_exact[OF this] show ?thesis by simp
qed

section \<open>Dynamic targets\<close>

definition wf_targets :: "nat smap \<Rightarrow> target_state \<Rightarrow> bool" where
  "wf_targets balancers ts \<longleftrightarrow>
     (\<forall>k b. map_of balancers k = Some b \<longrightarrow> b < length (ts_heap ts)) \<and>
     (\<forall>m \<in> set (ts_ephemeral ts). \<forall>k b. map_of m k = Some b \<longrightarrow> b < length (ts_heap ts))"

text \<open>A dynamic target resolves stably: it fails only for an empty host; otherwise the address
  returned is valid, existing balancers keep their state, and resolving again to the same rendered
  host gives the same balancer, so its counters and cool-downs carry over between requests.\<close>

theorem resolve_stable:
  assumes "wf_targets balancers ts" and "eph < length (ts_ephemeral ts)"
    and "resolve H ctx (Dynamic tmpl balancers eph) ts = (r, ts')"
  shows "(r = None \<longleftrightarrow> target_host (render H ctx tmpl) = []) \<and>
    wf_targets balancers ts' \<and>
    (\<forall>b. r = Some b \<longrightarrow> b < length (ts_heap ts')) \<and>
    take (length (ts_heap ts)) (ts_heap ts') = ts_heap ts \<and>
    (\<forall>ctx'. render H ctx' tmpl = render H ctx tmpl \<longrightarrow>
       resolve H ctx' (Dynamic tmpl balancers eph) ts' = (r, ts'))"
proof -
  let ?h = "target_host (render H ctx tmpl)"
  have known: "b < length (ts_heap ts)"
    if "map_of balancers (bare_host ?h) = Some b \<or> map_of (ts_ephemeral ts ! eph) ?h = Some b" for b
    using assms(1) that nth_mem[OF assms(2)] unfolding wf_targets_def by blast
  show ?thesis
  proof (cases "?h = []")
    case True
    then show ?thesis using assms by auto
  next
    case ne: False
    show ?thesis
    proof (cases "map_of balancers (bare_host ?h) = None \<and> map_of (ts_ephemeral ts ! eph) ?h = None")
      case False
      then have "\<exists>b. r = Some b \<and> ts' = ts \<and> b < length (ts_heap ts)"
      proof (cases "map_of balancers (bare_host ?h)")
        case (Some a)
        then have "r = Some a" "ts' = ts" using assms(3) ne by (simp_all add: Let_def)
        with known[of a] Some show ?thesis by simp
      next
        case None
        with False obtain a where a: "map_of (ts_ephemeral ts ! eph) ?h = Some a" by auto
        then have "r = Some a" "ts' = ts" using assms(3) ne None by (simp_all add: Let_def)
        with known[of a] a show ?thesis by simp
      qed
      then obtain b where b: "r = Some b" "ts' = ts" "b < length (ts_heap ts)" by blast
      have "resolve H ctx' (Dynamic tmpl balancers eph) ts = (r, ts)"
        if "render H ctx' tmpl = render H ctx tmpl" for ctx'
        using assms(3) that b(2) by simp
      then show ?thesis using assms(1) b ne by simp
    next
      case True
      obtain scheme addr where sc: "split_scheme ?h = (scheme, addr)" by (metis surj_pair)
      have r: "r = Some (length (ts_heap ts))" and ts': "ts' = ts\<lparr>
          ts_heap := ts_heap ts @ [direct_balancer scheme addr],
          ts_ephemeral := (ts_ephemeral ts)
            [eph := AList.update ?h (length (ts_heap ts)) (ts_ephemeral ts ! eph)]\<rparr>"
        using assms(3) ne True sc by (simp_all add: Let_def)
      have "wf_targets balancers ts'"
        unfolding wf_targets_def
      proof (intro conjI allI ballI impI)
        fix k b
        show "b < length (ts_heap ts')" if "map_of balancers k = Some b"
          using assms(1) that by (auto simp: ts' wf_targets_def less_Suc_eq)
        fix m assume "m \<in> set (ts_ephemeral ts')" and mb: "map_of m k = Some b"
        then have "m = AList.update ?h (length (ts_heap ts)) (ts_ephemeral ts ! eph) \<or> m \<in> set (ts_ephemeral ts)"
          using set_update_subset_insert by (fastforce simp: ts')
        moreover have "ts_ephemeral ts ! eph \<in> set (ts_ephemeral ts)" using assms(2) by simp
        ultimately have "b = length (ts_heap ts) \<or> (\<exists>m' \<in> set (ts_ephemeral ts). map_of m' k = Some b)"
          using mb by (auto simp: update_conv' split: if_splits)
        then show "b < length (ts_heap ts')"
          using assms(1) by (auto simp: ts' wf_targets_def less_Suc_eq)
      qed
      moreover have "resolve H ctx' (Dynamic tmpl balancers eph) ts' = (r, ts')"
        if "render H ctx' tmpl = render H ctx tmpl" for ctx'
        using that ne True r assms(2) by (simp add: ts' Let_def update_conv')
      ultimately show ?thesis using ne r by (simp add: ts')
    qed
  qed
qed

theorem resolve_stable_witness:
  "resolve list_headers demo_ctx (Dynamic [Literal ''http://'', Var Host] [] 0)
     (snd (resolve list_headers demo_ctx (Dynamic [Literal ''http://'', Var Host] [] 0)
        \<lparr>ts_heap = [], ts_ephemeral = [[]]\<rparr>)) =
   resolve list_headers demo_ctx (Dynamic [Literal ''http://'', Var Host] [] 0)
     \<lparr>ts_heap = [], ts_ephemeral = [[]]\<rparr>"
proof -
  let ?t = "[Literal ''http://'', Var Host]" and ?ts = "\<lparr>ts_heap = [], ts_ephemeral = [[]]\<rparr>"
  have wf: "wf_targets [] ?ts" by (simp add: wf_targets_def)
  obtain r ts' where e: "resolve list_headers demo_ctx (Dynamic ?t [] 0) ?ts = (r, ts')"
    by (metis surj_pair)
  have eph: "0 < length (ts_ephemeral ?ts)" by simp
  from resolve_stable[OF wf eph e] have "resolve list_headers demo_ctx (Dynamic ?t [] 0) ts' = (r, ts')"
    by blast
  then show ?thesis by (simp only: e snd_conv)
qed

end
