(* ===== verification/Cache.thy ===== *)
theory Cache
  imports Config_Ast Metrics
begin

text \<open>
  The in-memory response cache (\<^verbatim>\<open>src/src/cache.rs\<close>): a store maps a cache key to the list of
  its variants, one per combination of the request headers the response varies on. \<open>cache_get\<close>
  drops stale variants of the key and returns the first one whose signature matches the request;
  \<open>cache_put\<close> makes room by evicting the variants that expire first and then replaces or adds
  the variant. An \<^verbatim>\<open>Instant\<close> is a number of nanoseconds, byte counts are natural numbers, and
  the order in which the \<^verbatim>\<open>HashMap\<close> is scanned is the argument \<open>it\<close>.

  The eviction loop is bounded by the number of stored variants, each round removing one: at that
  bound it has always reached its own exit condition, and a larger bound does not change it. Shown
  here: both operations keep the accounting exact (the byte total is the sum over the variants and
  stays within the configured size, signatures are distinct, no key is left without a variant); a
  hit is fresh and was stored for exactly the header values of the request; a stored variant is
  found again; the signature determines the header values; and the caching decision is safe.
\<close>

section \<open>Entries\<close>

record cache_entry =
  e_status :: nat
  e_headers :: "(string \<times> string) list"
  e_body :: string
  e_expires_at :: nat
  e_vary_headers :: "string list"
  e_vary_signature :: string

record cache_store =
  cs_name :: string
  cs_max_bytes :: nat
  cs_entries :: "cache_entry list smap"
  cs_total_bytes :: nat

definition max_entry_bytes :: nat where
  "max_entry_bytes = 4 * 1024 * 1024"

definition cache_store_new :: "string \<Rightarrow> nat \<Rightarrow> cache_store" where
  "cache_store_new name max_bytes =
     \<lparr>cs_name = name, cs_max_bytes = max_bytes, cs_entries = [], cs_total_bytes = 0\<rparr>"

definition entry_bytes :: "cache_entry \<Rightarrow> nat" where
  "entry_bytes e =
     length (e_body e) +
     sum_list (map (\<lambda>(n, v). length n + length v) (e_headers e)) +
     (sum_list (map length (e_vary_headers e)) + length (e_vary_signature e))"

definition build_signature :: "'h header_ops \<Rightarrow> 'h \<Rightarrow> string list \<Rightarrow> string" where
  "build_signature H req vary_names =
     concat (map (\<lambda>name.
       name @ ''='' @ or_empty (Option.bind (hm_get H req name) (hv_to_str H)) @ [CHR 0x00]) vary_names)"

section \<open>Lookup\<close>

definition cache_get :: "'h header_ops \<Rightarrow> nat \<Rightarrow> string \<Rightarrow> 'h \<Rightarrow> cache_store \<times> metrics \<Rightarrow>
    cache_entry option \<times> cache_store \<times> metrics" where
  "cache_get H now key req st =
     (case st of (s, m) \<Rightarrow>
       (case map_of (cs_entries s) key of
          None \<Rightarrow> (None, s, record_cache_miss m)
        | Some vs \<Rightarrow>
            (let dropped = sum_list (map entry_bytes (filter (\<lambda>v. e_expires_at v \<le> now) vs));
                 variants = filter (\<lambda>v. \<not> e_expires_at v \<le> now) vs;
                 found = find (\<lambda>v. build_signature H req (e_vary_headers v) = e_vary_signature v) variants;
                 s1 = s\<lparr>cs_entries := AList.update key variants (cs_entries s)\<rparr>;
                 s2 = (if 0 < dropped then s1\<lparr>cs_total_bytes := cs_total_bytes s1 - dropped\<rparr> else s1);
                 m2 = (if 0 < dropped then record_cache_evict dropped m else m);
                 s3 = (if variants = [] then s2\<lparr>cs_entries := AList.delete key (cs_entries s2)\<rparr> else s2);
                 m3 = (if found \<noteq> None then record_cache_hit m2 else record_cache_miss m2)
             in (found, s3, m3))))"

section \<open>Storing\<close>

text \<open>All variants in the order the nested loops visit them.\<close>

definition flat :: "cache_entry list smap \<Rightarrow> (string \<times> cache_entry) list" where
  "flat es = concat (map (\<lambda>(k, vs). map (\<lambda>v. (k, v)) vs) es)"

definition evict_target :: "((string \<times> cache_entry list) list \<Rightarrow> (string \<times> cache_entry list) list) \<Rightarrow>
    cache_store \<Rightarrow> (string \<times> string) option" where
  "evict_target it s =
     map_option (\<lambda>(k, v). (k, e_vary_signature v))
       (min_by_key (\<lambda>(k, v). e_expires_at v) (flat (it (cs_entries s))))"

text \<open>Removing the variant of \<open>k\<close> with the signature \<open>sig\<close>.\<close>

definition evict_variant :: "string \<Rightarrow> string \<Rightarrow> cache_store \<times> metrics \<Rightarrow> cache_store \<times> metrics" where
  "evict_variant k sig st =
     (case st of (s, m) \<Rightarrow>
       (case map_of (cs_entries s) k of
          None \<Rightarrow> (s, m)
        | Some vs \<Rightarrow>
            (let removed = (case find (\<lambda>v. e_vary_signature v = sig) vs of
                              None \<Rightarrow> 0 | Some v \<Rightarrow> entry_bytes v);
                 vs' = remove_first (\<lambda>v. e_vary_signature v = sig) vs;
                 s1 = s\<lparr>cs_entries := AList.update k vs' (cs_entries s)\<rparr>;
                 s2 = (if 0 < removed then s1\<lparr>cs_total_bytes := cs_total_bytes s1 - removed\<rparr> else s1);
                 m2 = (if 0 < removed then record_cache_evict removed m else m);
                 s3 = (if vs' = [] then s2\<lparr>cs_entries := AList.delete k (cs_entries s2)\<rparr> else s2)
             in (s3, m2))))"

fun evict_loop :: "((string \<times> cache_entry list) list \<Rightarrow> (string \<times> cache_entry list) list) \<Rightarrow> nat \<Rightarrow> nat \<Rightarrow>
    cache_store \<times> metrics \<Rightarrow> cache_store \<times> metrics" where
  "evict_loop it 0 need st = st"
| "evict_loop it (Suc fuel) need st =
     (if cs_total_bytes (fst st) + need \<le> cs_max_bytes (fst st) then st
      else case evict_target it (fst st) of
             None \<Rightarrow> st
           | Some (k, sig) \<Rightarrow> evict_loop it fuel need (evict_variant k sig st))"

definition variant_count :: "cache_store \<Rightarrow> nat" where
  "variant_count s = sum_list (map (\<lambda>(k, vs). length vs) (cs_entries s))"

definition store_variant :: "string \<Rightarrow> cache_entry \<Rightarrow> cache_store \<Rightarrow> cache_store" where
  "store_variant key entry s =
     (let vs = (case map_of (cs_entries s) key of Some vs \<Rightarrow> vs | None \<Rightarrow> []);
          replaced = (case find (\<lambda>v. e_vary_signature v = e_vary_signature entry) vs of
                        None \<Rightarrow> 0 | Some old \<Rightarrow> entry_bytes old);
          vs' = remove_first (\<lambda>v. e_vary_signature v = e_vary_signature entry) vs @ [entry]
      in s\<lparr>cs_entries := AList.update key vs' (cs_entries s),
           cs_total_bytes := cs_total_bytes s - replaced + entry_bytes entry\<rparr>)"

definition cache_put :: "((string \<times> cache_entry list) list \<Rightarrow> (string \<times> cache_entry list) list) \<Rightarrow>
    string \<Rightarrow> cache_entry \<Rightarrow> cache_store \<times> metrics \<Rightarrow> cache_store \<times> metrics" where
  "cache_put it key entry st =
     (let need = entry_bytes entry
      in if cs_max_bytes (fst st) < need then st
         else
           (let (s1, m1) = evict_loop it (Suc (variant_count (fst st))) need st;
                s2 = store_variant key entry s1
            in (s2, set_cache_entries (variant_count s2) (set_cache_bytes (cs_total_bytes s2) m1))))"

section \<open>What may be cached\<close>

definition parse_vary :: "'h header_ops \<Rightarrow> 'h \<Rightarrow> string list" where
  "parse_vary H headers =
     concat (map (\<lambda>v.
       case hv_to_str H v of
         None \<Rightarrow> []
       | Some s \<Rightarrow>
           filter (\<lambda>t. t \<noteq> []) (map (\<lambda>token. to_ascii_lowercase (trim token)) (split_char (CHR '','') s)))
       (hm_get_all H headers ''vary''))"

datatype cache_decision = Store duration | Bypass string

definition cc_disallows :: "string \<Rightarrow> bool" where
  "cc_disallows cc =
     list_ex (\<lambda>tok. tok = ''no-store'' \<or> tok = ''private'' \<or> tok = ''no-cache'')
       (map trim (split_char (CHR '','') (to_ascii_lowercase cc)))"

definition matching_ttl :: "nat \<Rightarrow> (nat list \<times> duration) list \<Rightarrow> duration option" where
  "matching_ttl status rules =
     foldl (\<lambda>ttl (codes, d). if codes = [] \<or> status \<in> set codes then Some d else ttl) None rules"

definition decide_caching :: "'h header_ops \<Rightarrow> string \<Rightarrow> 'h \<Rightarrow> nat \<Rightarrow> nat \<Rightarrow>
    (nat list \<times> duration) list \<Rightarrow> cache_decision" where
  "decide_caching H mthd headers status body_len valid_rules =
     (if mthd \<noteq> ''GET'' then Bypass ''method not GET''
      else if hm_get H headers ''set-cookie'' \<noteq> None then Bypass ''response has Set-Cookie''
      else if ''*'' \<in> set (parse_vary H headers) then Bypass ''response has Vary: *''
      else if (case Option.bind (hm_get H headers ''cache-control'') (hv_to_str H) of
                 None \<Rightarrow> False | Some cc \<Rightarrow> cc_disallows cc)
      then Bypass ''response Cache-Control disallows caching''
      else if max_entry_bytes < body_len then Bypass ''body exceeds per-entry size limit''
      else case matching_ttl status valid_rules of
             Some d \<Rightarrow> Store d
           | None \<Rightarrow> Bypass ''no proxy_cache_valid rule matched'')"

section \<open>Accounting\<close>

definition stored_bytes :: "cache_entry list smap \<Rightarrow> nat" where
  "stored_bytes es = sum_list (map (\<lambda>(k, vs). sum_list (map entry_bytes vs)) es)"

definition wf_variants :: "cache_entry list \<Rightarrow> bool" where
  "wf_variants vs \<longleftrightarrow> vs \<noteq> [] \<and> distinct (map e_vary_signature vs)"

definition cache_inv :: "cache_store \<Rightarrow> bool" where
  "cache_inv s \<longleftrightarrow> wf_smap (cs_entries s) \<and>
     (\<forall>k vs. map_of (cs_entries s) k = Some vs \<longrightarrow> wf_variants vs) \<and>
     cs_total_bytes s = stored_bytes (cs_entries s) \<and> cs_total_bytes s \<le> cs_max_bytes s"

definition variants_of :: "cache_store \<Rightarrow> string \<Rightarrow> cache_entry list" where
  "variants_of s k = (case map_of (cs_entries s) k of None \<Rightarrow> [] | Some vs \<Rightarrow> vs)"

lemma stored_update:
  "stored_bytes (AList.update k vs es) +
     (case map_of es k of None \<Rightarrow> 0 | Some old \<Rightarrow> sum_list (map entry_bytes old)) =
   stored_bytes es + sum_list (map entry_bytes vs)"
  unfolding stored_bytes_def by (rule smap_sum_update)

lemma stored_delete:
  "wf_smap es \<Longrightarrow> stored_bytes (AList.delete k es) +
     (case map_of es k of None \<Rightarrow> 0 | Some old \<Rightarrow> sum_list (map entry_bytes old)) = stored_bytes es"
  unfolding stored_bytes_def by (rule smap_sum_delete)

lemma stored_ge: "map_of es k = Some vs \<Longrightarrow> sum_list (map entry_bytes vs) \<le> stored_bytes es"
  unfolding stored_bytes_def by (rule smap_sum_ge)

text \<open>Replacing the variants of one key, dropping the key when none is left: the pattern of all
  three operations.\<close>

definition put_variants :: "string \<Rightarrow> cache_entry list \<Rightarrow> cache_entry list smap \<Rightarrow> cache_entry list smap" where
  "put_variants k vs es = (if vs = [] then AList.delete k (AList.update k vs es) else AList.update k vs es)"

lemma put_variants_wf: "wf_smap es \<Longrightarrow> wf_smap (put_variants k vs es)"
  by (simp add: put_variants_def distinct_update distinct_delete)

lemma put_variants_map_of:
  "map_of (put_variants k vs es) =
     (map_of es)(k := if vs = [] then None else Some vs)"
  by (auto simp: put_variants_def update_conv' delete_conv')

lemma put_variants_bytes:
  assumes "wf_smap es"
  shows "stored_bytes (put_variants k vs es) +
      (case map_of es k of None \<Rightarrow> 0 | Some old \<Rightarrow> sum_list (map entry_bytes old)) =
    stored_bytes es + sum_list (map entry_bytes vs)"
  using stored_update[of k vs es] stored_delete[of "AList.update k vs es" k] assms
  by (auto simp: put_variants_def update_conv' distinct_update)

lemma put_variants_inv:
  assumes "\<forall>k vs. map_of es k = Some vs \<longrightarrow> wf_variants vs" and "distinct (map e_vary_signature vs)"
  shows "\<forall>k' vs'. map_of (put_variants k vs es) k' = Some vs' \<longrightarrow> wf_variants vs'"
  using assms by (auto simp: put_variants_map_of wf_variants_def)

lemma cache_invD:
  assumes "cache_inv s"
  shows "wf_smap (cs_entries s)" and "map_of (cs_entries s) k = Some vs \<Longrightarrow> wf_variants vs"
    and "cs_total_bytes s = stored_bytes (cs_entries s)" and "cs_total_bytes s \<le> cs_max_bytes s"
  using assms unfolding cache_inv_def by blast+

text \<open>An operation that replaces the variants of a key and takes the difference off the total keeps
  the invariant.\<close>

lemma cache_inv_replace:
  assumes "cache_inv s" and "map_of (cs_entries s) k = Some old"
    and "sum_list (map entry_bytes vs) + freed = sum_list (map entry_bytes old)"
    and "distinct (map e_vary_signature vs)"
    and "s' = s\<lparr>cs_entries := put_variants k vs (cs_entries s), cs_total_bytes := cs_total_bytes s - freed\<rparr>"
  shows "cache_inv s'"
proof -
  note inv = cache_invD[OF assms(1)]
  have "stored_bytes (put_variants k vs (cs_entries s)) + sum_list (map entry_bytes old) =
      stored_bytes (cs_entries s) + sum_list (map entry_bytes vs)"
    using put_variants_bytes[OF inv(1), of k vs] assms(2) by simp
  moreover have "sum_list (map entry_bytes old) \<le> stored_bytes (cs_entries s)"
    by (rule stored_ge[OF assms(2)])
  ultimately have "stored_bytes (put_variants k vs (cs_entries s)) = cs_total_bytes s - freed"
    using assms(3) inv(3) by linarith
  moreover have "wf_smap (put_variants k vs (cs_entries s))" by (rule put_variants_wf[OF inv(1)])
  moreover have "\<forall>k' vs'. map_of (put_variants k vs (cs_entries s)) k' = Some vs' \<longrightarrow> wf_variants vs'"
    by (rule put_variants_inv[OF _ assms(4)]) (use inv(2) in blast)
  ultimately show ?thesis using assms(5) inv(4) unfolding cache_inv_def by simp
qed

lemma sum_list_filter_split:
  "sum_list (map f (filter P xs)) + sum_list (map f (filter (\<lambda>x. \<not> P x) xs)) = sum_list (map f xs)"
  for f :: "'a \<Rightarrow> nat"
  by (induction xs) auto

lemma cache_get_store:
  assumes "map_of (cs_entries s) key = Some vs"
  shows "fst (snd (cache_get H now key req (s, m))) =
    s\<lparr>cs_entries := put_variants key (filter (\<lambda>v. \<not> e_expires_at v \<le> now) vs) (cs_entries s),
      cs_total_bytes := cs_total_bytes s - sum_list (map entry_bytes (filter (\<lambda>v. e_expires_at v \<le> now) vs))\<rparr>"
  using assms
  by (cases s; cases "sum_list (map entry_bytes (filter (\<lambda>v. e_expires_at v \<le> now) vs)) = 0")
    (simp_all add: cache_get_def Let_def put_variants_def del: sum_list_eq_0_iff)

lemma cache_get_inv: "cache_inv s \<Longrightarrow> cache_inv (fst (snd (cache_get H now key req (s, m))))"
proof (cases "map_of (cs_entries s) key")
  case (Some vs)
  assume inv: "cache_inv s"
  show ?thesis
    by (rule cache_inv_replace[OF inv Some _ _ cache_get_store[OF Some]])
      (use sum_list_filter_split[of entry_bytes "\<lambda>v. e_expires_at v \<le> now" vs]
         cache_invD(2)[OF inv Some] in \<open>simp_all add: wf_variants_def distinct_map_filter\<close>)
qed (simp add: cache_get_def)

lemma evict_variant_store:
  assumes "map_of (cs_entries s) k = Some vs" and "find (\<lambda>v. e_vary_signature v = sig) vs = Some v"
  shows "fst (evict_variant k sig (s, m)) =
    s\<lparr>cs_entries := put_variants k (remove_first (\<lambda>v. e_vary_signature v = sig) vs) (cs_entries s),
      cs_total_bytes := cs_total_bytes s - entry_bytes v\<rparr>"
  using assms by (cases s) (simp add: evict_variant_def Let_def put_variants_def)

lemma flat_in: "(k, v) \<in> set (flat es) \<longleftrightarrow> (\<exists>vs. (k, vs) \<in> set es \<and> v \<in> set vs)"
  by (auto simp: flat_def)

lemma evict_target_Some:
  assumes "iter_order it" and "cache_inv s" and "evict_target it s = Some (k, sig)"
  obtains vs v where "map_of (cs_entries s) k = Some vs"
    and "find (\<lambda>v. e_vary_signature v = sig) vs = Some v"
proof -
  obtain x where x: "(k, x) \<in> set (flat (it (cs_entries s)))" "sig = e_vary_signature x"
    using assms(3) by (auto simp: evict_target_def dest: min_by_key_in)
  then obtain vs where "(k, vs) \<in> set (cs_entries s)" "x \<in> set vs"
    using assms(1) by (auto simp: flat_in)
  moreover from this have "map_of (cs_entries s) k = Some vs"
    using cache_invD(1)[OF assms(2)] by simp
  moreover have "find (\<lambda>v. e_vary_signature v = sig) vs \<noteq> None"
    using \<open>x \<in> set vs\<close> x(2) by (auto simp: find_None_iff)
  ultimately show ?thesis using that by blast
qed

lemma evict_target_None:
  "iter_order it \<Longrightarrow> evict_target it s = None \<Longrightarrow> \<forall>(k, vs) \<in> set (cs_entries s). vs = []"
  by (force simp: evict_target_def flat_def)

section \<open>The eviction loop\<close>

definition variants_in :: "cache_entry list smap \<Rightarrow> nat" where
  "variants_in es = sum_list (map (\<lambda>(k, vs). length vs) es)"

lemma variant_count_in: "variant_count s = variants_in (cs_entries s)"
  by (simp add: variant_count_def variants_in_def)

lemma put_variants_count:
  assumes "wf_smap es" and "map_of es k = Some old"
  shows "variants_in (put_variants k vs es) + length old = variants_in es + length vs"
  using smap_sum_update[where g = length, of k vs es]
    smap_sum_delete[where g = length, of "AList.update k vs es" k] assms
  by (auto simp: put_variants_def variants_in_def update_conv' distinct_update)

text \<open>One round removes exactly one variant and keeps the invariant.\<close>

lemma evict_round:
  assumes "iter_order it" and "cache_inv s" and "evict_target it s = Some (k, sig)"
    and "evict_variant k sig (s, m) = (s', m')"
  shows "cache_inv s'" and "Suc (variant_count s') = variant_count s"
    and "cs_max_bytes s' = cs_max_bytes s"
proof -
  obtain vs v where vs: "map_of (cs_entries s) k = Some vs"
    and v: "find (\<lambda>v. e_vary_signature v = sig) vs = Some v"
    by (rule evict_target_Some[OF assms(1-3)])
  let ?vs = "remove_first (\<lambda>v. e_vary_signature v = sig) vs"
  have s': "s' = s\<lparr>cs_entries := put_variants k ?vs (cs_entries s),
      cs_total_bytes := cs_total_bytes s - entry_bytes v\<rparr>"
    using evict_variant_store[OF vs v, of m] assms(4) by simp
  have "\<exists>x \<in> set vs. e_vary_signature x = sig" using find_Some_prop[OF v] by blast
  moreover from this have "0 < length vs" by auto
  ultimately have "length vs = Suc (length ?vs)" by (simp add: length_remove_first)
  then show "Suc (variant_count s') = variant_count s"
    using put_variants_count[OF cache_invD(1)[OF assms(2)] vs, of ?vs] s'
    by (simp add: variant_count_in)
  show "cache_inv s'"
    using cache_invD(2)[OF assms(2) vs]
    by (intro cache_inv_replace[OF assms(2) vs sum_list_remove_first[OF v] _ s'])
      (simp add: wf_variants_def distinct_map_remove_first)
  show "cs_max_bytes s' = cs_max_bytes s" using s' by simp
qed

text \<open>The exit condition of the loop of \<^verbatim>\<open>put\<close>: enough room, or nothing left to evict.\<close>

definition evict_done :: "nat \<Rightarrow> cache_store \<Rightarrow> bool" where
  "evict_done need s \<longleftrightarrow> cs_total_bytes s + need \<le> cs_max_bytes s \<or> cs_entries s = []"

lemma evict_target_None_empty:
  assumes "iter_order it" and "cache_inv s" and "evict_target it s = None"
  shows "cs_entries s = []"
proof (rule ccontr)
  assume "cs_entries s \<noteq> []"
  then obtain k vs where kv: "(k, vs) \<in> set (cs_entries s)" by (metis last_in_set surj_pair)
  then have "map_of (cs_entries s) k = Some vs" using cache_invD(1)[OF assms(2)] by simp
  then have "vs \<noteq> []" using cache_invD(2)[OF assms(2)] by (simp add: wf_variants_def)
  moreover have "vs = []" using evict_target_None[OF assms(1,3)] kv by auto
  ultimately show False by simp
qed

lemma evict_loop_result:
  assumes "iter_order it" and "cache_inv s" and "variant_count s < fuel"
    and "evict_loop it fuel need (s, m) = (s', m')"
  shows "cache_inv s' \<and> evict_done need s' \<and> cs_max_bytes s' = cs_max_bytes s"
  using assms(2-4)
proof (induction fuel arbitrary: s m)
  case (Suc fuel)
  show ?case
  proof (cases "cs_total_bytes s + need \<le> cs_max_bytes s")
    case True
    with Suc.prems show ?thesis by (simp add: evict_done_def)
  next
    case False
    show ?thesis
    proof (cases "evict_target it s")
      case None
      with Suc.prems False evict_target_None_empty[OF assms(1) Suc.prems(1) None]
      show ?thesis by (simp add: evict_done_def)
    next
      case (Some p)
      obtain k sig where p: "p = (k, sig)" by (cases p)
      obtain s1 m1 where e: "evict_variant k sig (s, m) = (s1, m1)" by (metis surj_pair)
      note r = evict_round[OF assms(1) Suc.prems(1) Some[unfolded p] e]
      have "evict_loop it fuel need (s1, m1) = (s', m')" using Suc.prems(3) False Some p e by simp
      from Suc.IH[OF r(1) _ this] r Suc.prems(2) show ?thesis by simp
    qed
  qed
qed simp

lemma evict_loop_more_fuel:
  assumes "iter_order it" and "cache_inv s" and "variant_count s < fuel" and "variant_count s < fuel'"
  shows "evict_loop it fuel need (s, m) = evict_loop it fuel' need (s, m)"
  using assms(2-4)
proof (induction fuel arbitrary: s m fuel')
  case (Suc fuel)
  then obtain f' where f': "fuel' = Suc f'" by (cases fuel') auto
  show ?case
  proof (cases "cs_total_bytes s + need \<le> cs_max_bytes s \<or> evict_target it s = None")
    case True
    then show ?thesis using f' by auto
  next
    case False
    then obtain k sig where t: "evict_target it s = Some (k, sig)" by auto
    obtain s1 m1 where e: "evict_variant k sig (s, m) = (s1, m1)" by (metis surj_pair)
    note r = evict_round[OF assms(1) Suc.prems(1) t e]
    from Suc.IH[OF r(1), of f' m1] r(2) Suc.prems f' False t e show ?thesis by simp
  qed
qed simp

section \<open>Putting\<close>

lemma store_variant_eq:
  "store_variant key e s =
     s\<lparr>cs_entries := put_variants key
          (remove_first (\<lambda>v. e_vary_signature v = e_vary_signature e) (variants_of s key) @ [e]) (cs_entries s),
       cs_total_bytes := cs_total_bytes s -
          (case find (\<lambda>v. e_vary_signature v = e_vary_signature e) (variants_of s key) of
             None \<Rightarrow> 0 | Some old \<Rightarrow> entry_bytes old) + entry_bytes e\<rparr>"
  by (cases "map_of (cs_entries s) key")
    (simp_all add: store_variant_def variants_of_def put_variants_def)

lemma variants_of_distinct: "cache_inv s \<Longrightarrow> distinct (map e_vary_signature (variants_of s k))"
  using cache_invD(2)[of s k] by (cases "map_of (cs_entries s) k") (auto simp: variants_of_def wf_variants_def)

lemma variants_of_bytes:
  assumes "cache_inv s"
  shows "sum_list (map entry_bytes (variants_of s k)) \<le> cs_total_bytes s"
    and "stored_bytes (put_variants k vs (cs_entries s)) + sum_list (map entry_bytes (variants_of s k)) =
         cs_total_bytes s + sum_list (map entry_bytes vs)"
  using put_variants_bytes[OF cache_invD(1)[OF assms], of k vs] stored_ge[of "cs_entries s" k]
    cache_invD(3)[OF assms]
  by (cases "map_of (cs_entries s) k"; simp add: variants_of_def)+

lemma remove_first_absent_key:
  "distinct (map f xs) \<Longrightarrow> y \<in> set (remove_first (\<lambda>x. f x = k) xs) \<Longrightarrow> f y \<noteq> k"
  by (induction xs) (force split: if_splits)+

lemma store_variant_inv:
  assumes "cache_inv s" and "evict_done (entry_bytes e) s" and "entry_bytes e \<le> cs_max_bytes s"
  shows "cache_inv (store_variant key e s)"
proof -
  let ?P = "\<lambda>v. e_vary_signature v = e_vary_signature e"
  let ?vs = "variants_of s key"
  let ?new = "remove_first ?P ?vs @ [e]"
  let ?freed = "case find ?P ?vs of None \<Rightarrow> 0 | Some old \<Rightarrow> entry_bytes old"
  note inv = cache_invD[OF assms(1)]
  have rest: "sum_list (map entry_bytes (remove_first ?P ?vs)) + ?freed = sum_list (map entry_bytes ?vs)"
  proof (cases "find ?P ?vs")
    case None
    then have "remove_first ?P ?vs = ?vs" by (intro remove_first_absent) (simp add: find_None_prop)
    with None show ?thesis by simp
  next
    case (Some old)
    then show ?thesis using sum_list_remove_first[OF Some, of entry_bytes] by simp
  qed
  have d: "distinct (map e_vary_signature ?new)"
  proof -
    note dv = variants_of_distinct[OF assms(1), of key]
    have "e_vary_signature e \<notin> e_vary_signature ` set (remove_first ?P ?vs)"
      using remove_first_absent_key[OF dv, of _ "e_vary_signature e"] by (metis imageE)
    then show ?thesis using distinct_map_remove_first[OF dv, of ?P] by simp
  qed
  have bytes: "stored_bytes (put_variants key ?new (cs_entries s)) =
      cs_total_bytes s - ?freed + entry_bytes e"
    using variants_of_bytes(1)[OF assms(1), of key] variants_of_bytes(2)[OF assms(1), of key ?new] rest
    by simp
  have fits: "cs_total_bytes s - ?freed + entry_bytes e \<le> cs_max_bytes s"
    using assms(2,3) inv(3) by (auto simp: evict_done_def stored_bytes_def)
  have "\<forall>k vs. map_of (cs_entries s) k = Some vs \<longrightarrow> wf_variants vs" using inv(2) by blast
  with put_variants_inv[OF this d] show ?thesis
    unfolding cache_inv_def store_variant_eq
    using bytes fits put_variants_wf[OF inv(1)] by simp
qed

lemma cache_put_cases:
  assumes "iter_order it" and "cache_inv s"
  obtains (big) "cs_max_bytes s < entry_bytes e" "cache_put it key e (s, m) = (s, m)"
  | (stored) s1 m' where "entry_bytes e \<le> cs_max_bytes s" "cache_inv s1"
      "evict_done (entry_bytes e) s1" "cs_max_bytes s1 = cs_max_bytes s"
      "cache_put it key e (s, m) = (store_variant key e s1, m')"
proof (cases "cs_max_bytes s < entry_bytes e")
  case True
  then show ?thesis using big by (simp add: cache_put_def)
next
  case False
  obtain s1 m1 where l: "evict_loop it (Suc (variant_count s)) (entry_bytes e) (s, m) = (s1, m1)"
    by (metis surj_pair)
  from evict_loop_result[OF assms _ l] False l show ?thesis
    by (intro stored[of s1]) (simp_all add: cache_put_def Let_def del: evict_loop.simps)
qed

lemma cache_put_inv: "iter_order it \<Longrightarrow> cache_inv s \<Longrightarrow> cache_inv (fst (cache_put it key e (s, m)))"
  by (rule cache_put_cases[of it s e key m]) (auto intro: store_variant_inv)

section \<open>The interface of the store\<close>

lemma variants_of_put_variants:
  "map_of es' = (map_of es)(k := if vs = [] then None else Some vs) \<Longrightarrow>
   (case map_of es' j of None \<Rightarrow> [] | Some vs \<Rightarrow> vs) =
   (if j = k then vs else case map_of es j of None \<Rightarrow> [] | Some vs \<Rightarrow> vs)"
  by simp

lemma variants_of_get:
  "variants_of (fst (snd (cache_get H now key req (s, m)))) j =
     (if j = key then filter (\<lambda>v. now < e_expires_at v) (variants_of s j) else variants_of s j)"
proof (cases "map_of (cs_entries s) key")
  case None
  then show ?thesis by (auto simp: cache_get_def variants_of_def)
next
  case (Some vs)
  show ?thesis
    unfolding variants_of_def cache_get_store[OF Some] using Some
    by (auto simp: put_variants_map_of not_le)
qed

lemma evict_variant_subset:
  "set (variants_of (fst (evict_variant k sig (s, m))) j) \<subseteq> set (variants_of s j)"
proof (cases "map_of (cs_entries s) k")
  case (Some vs)
  have "map_of (cs_entries (fst (evict_variant k sig (s, m)))) =
      (map_of (cs_entries s))(k := if remove_first (\<lambda>v. e_vary_signature v = sig) vs = [] then None
        else Some (remove_first (\<lambda>v. e_vary_signature v = sig) vs))"
    using Some by (auto simp: evict_variant_def Let_def update_conv' delete_conv' fun_eq_iff)
  from variants_of_put_variants[OF this, of j] Some show ?thesis
    using set_remove_first_subset[of "\<lambda>v. e_vary_signature v = sig" vs]
    by (simp add: variants_of_def split: if_splits)
qed (simp add: evict_variant_def)

lemma evict_loop_subset:
  "set (variants_of (fst (evict_loop it fuel need (s, m))) j) \<subseteq> set (variants_of s j)"
proof (induction fuel arbitrary: s m)
  case (Suc fuel)
  have "set (variants_of (fst (evict_loop it fuel need (evict_variant k sig (s, m)))) j)
      \<subseteq> set (variants_of s j)" for k sig
    using Suc[of "fst (evict_variant k sig (s, m))" "snd (evict_variant k sig (s, m))"]
      evict_variant_subset[of k sig s m j] by simp
  then show ?case by (auto split: option.splits)
qed simp

lemma variants_of_store:
  "variants_of (store_variant key e s) j =
     (if j = key then remove_first (\<lambda>v. e_vary_signature v = e_vary_signature e) (variants_of s j) @ [e]
      else variants_of s j)"
  by (auto simp: variants_of_def store_variant_def Let_def update_conv')

lemma variants_of_put_subset:
  "set (variants_of (fst (cache_put it key e (s, m))) j) \<subseteq>
     set (variants_of s j) \<union> (if j = key then {e} else {})"
proof (cases "cs_max_bytes s < entry_bytes e")
  case False
  let ?s1 = "fst (evict_loop it (Suc (variant_count s)) (entry_bytes e) (s, m))"
  have "fst (cache_put it key e (s, m)) = store_variant key e ?s1"
    using False by (simp add: cache_put_def Let_def case_prod_beta del: evict_loop.simps)
  then have "set (variants_of (fst (cache_put it key e (s, m))) j) \<subseteq>
      set (variants_of ?s1 j) \<union> (if j = key then {e} else {})"
    using set_remove_first_subset[of "\<lambda>v. e_vary_signature v = e_vary_signature e" "variants_of ?s1 key"]
    by (auto simp: variants_of_store simp del: evict_loop.simps)
  also have "\<dots> \<subseteq> set (variants_of s j) \<union> (if j = key then {e} else {})"
    using evict_loop_subset by fast
  finally show ?thesis .
qed (simp add: cache_put_def)

text \<open>What a client of the store relies on.\<close>

locale variant_store =
  fixes inv :: "'s \<Rightarrow> bool"
    and capacity :: "'s \<Rightarrow> nat"
    and variants :: "'s \<Rightarrow> string \<Rightarrow> cache_entry list"
    and get :: "'h header_ops \<Rightarrow> nat \<Rightarrow> string \<Rightarrow> 'h \<Rightarrow> 's \<times> metrics \<Rightarrow> cache_entry option \<times> 's \<times> metrics"
    and put :: "'o \<Rightarrow> string \<Rightarrow> cache_entry \<Rightarrow> 's \<times> metrics \<Rightarrow> 's \<times> metrics"
    and order :: "'o \<Rightarrow> bool"
  assumes get_inv: "inv s \<Longrightarrow> inv (fst (snd (get H now key req (s, m))))"
    and put_inv: "order it \<Longrightarrow> inv s \<Longrightarrow> inv (fst (put it key e (s, m)))"
    and get_hit: "fst (get H now key req (s, m)) =
      find (\<lambda>v. build_signature H req (e_vary_headers v) = e_vary_signature v)
        (filter (\<lambda>v. now < e_expires_at v) (variants s key))"
    and get_only_drops: "set (variants (fst (snd (get H now key req (s, m)))) j) \<subseteq> set (variants s j)"
    and put_only_adds: "set (variants (fst (put it key e (s, m))) j) \<subseteq>
      set (variants s j) \<union> (if j = key then {e} else {})"
    and put_stores: "order it \<Longrightarrow> inv s \<Longrightarrow> entry_bytes e \<le> capacity s \<Longrightarrow>
      e \<in> set (variants (fst (put it key e (s, m))) key)"
    and signatures: "inv s \<Longrightarrow> distinct (map e_vary_signature (variants s key))"
begin

text \<open>A stored entry is found again by any request with its header values, as long as it is fresh and
  the other variants of the key vary on the same headers.\<close>

lemma put_then_get:
  assumes "order it" and "inv s" and "entry_bytes e \<le> capacity s"
    and "put it key e (s, m) = (s', m')" and "now < e_expires_at e"
    and "build_signature H req (e_vary_headers e) = e_vary_signature e"
    and "\<forall>v \<in> set (variants s key). e_vary_headers v = e_vary_headers e"
  shows "fst (get H now key req (s', m')) = Some e"
proof -
  let ?vs = "variants s' key"
  have mem: "e \<in> set ?vs" using put_stores[OF assms(1-3), of key m] assms(4) by simp
  have same: "\<forall>v \<in> set ?vs. e_vary_headers v = e_vary_headers e"
    using put_only_adds[of it key e s m key] assms(4,7) by auto
  have d: "distinct (map e_vary_signature ?vs)"
    using signatures put_inv[OF assms(1,2), of key e m] assms(4) by simp
  let ?P = "\<lambda>v. build_signature H req (e_vary_headers v) = e_vary_signature v"
  let ?fresh = "filter (\<lambda>v. now < e_expires_at v) ?vs"
  have "find ?P ?fresh \<noteq> None" using mem assms(5,6) by (auto simp: find_None_iff)
  then obtain v where v: "find ?P ?fresh = Some v" by blast
  then have "v \<in> set ?vs" "?P v" using find_Some_prop[OF v] by auto
  then have "e_vary_signature v = e_vary_signature e" using same assms(6) by auto
  then have "v = e" using d mem \<open>v \<in> set ?vs\<close> by (metis distinct_map inj_onD)
  then show ?thesis using v get_hit by simp
qed

end

interpretation cache: variant_store cache_inv cs_max_bytes variants_of cache_get cache_put iter_order
proof
  fix H :: "'h header_ops" and now key and req :: 'h and s m j e
    and it :: "(string \<times> cache_entry list) list \<Rightarrow> (string \<times> cache_entry list) list"
  show "cache_inv (fst (snd (cache_get H now key req (s, m))))" if "cache_inv s"
    using that by (rule cache_get_inv)
  show "cache_inv (fst (cache_put it key e (s, m)))" if "iter_order it" "cache_inv s"
    using that by (rule cache_put_inv)
  show "fst (cache_get H now key req (s, m)) =
      find (\<lambda>v. build_signature H req (e_vary_headers v) = e_vary_signature v)
        (filter (\<lambda>v. now < e_expires_at v) (variants_of s key))"
    by (cases "map_of (cs_entries s) key") (simp_all add: cache_get_def variants_of_def Let_def not_le)
  show "set (variants_of (fst (snd (cache_get H now key req (s, m)))) j) \<subseteq> set (variants_of s j)"
    by (auto simp: variants_of_get)
  show "set (variants_of (fst (cache_put it key e (s, m))) j) \<subseteq>
      set (variants_of s j) \<union> (if j = key then {e} else {})"
    by (rule variants_of_put_subset)
  show "e \<in> set (variants_of (fst (cache_put it key e (s, m))) key)"
    if "iter_order it" "cache_inv s" "entry_bytes e \<le> cs_max_bytes s"
    by (rule cache_put_cases[OF that(1,2), of e key m]) (use that(3) in \<open>auto simp: variants_of_store\<close>)
  show "distinct (map e_vary_signature (variants_of s key))" if "cache_inv s"
    using that by (rule variants_of_distinct)
qed

section \<open>Signatures\<close>

definition vary_field :: "'h header_ops \<Rightarrow> 'h \<Rightarrow> string \<Rightarrow> string" where
  "vary_field H req name = or_empty (Option.bind (hm_get H req name) (hv_to_str H))"

lemma build_signature_Cons:
  "build_signature H req (n # ns) = n @ ''='' @ vary_field H req n @ CHR 0x00 # build_signature H req ns"
  by (simp add: build_signature_def vary_field_def)

lemma vary_field_no_nul: "header_laws H \<Longrightarrow> CHR 0x00 \<notin> set (vary_field H req n)"
  using header_lawsD(8)[of H]
  by (cases "Option.bind (hm_get H req n) (hv_to_str H)")
    (auto simp: vary_field_def or_empty_def Option.bind_eq_Some_conv)

lemma append_marker_inject:
  "c \<notin> set a \<Longrightarrow> c \<notin> set b \<Longrightarrow> a @ c # x = b @ c # y \<longleftrightarrow> a = b \<and> x = y"
proof (induction a arbitrary: b)
  case Nil
  then show ?case by (cases b) auto
next
  case (Cons d a)
  then show ?case by (cases b) auto
qed

lemma build_signature_determines:
  assumes "header_laws H" and "build_signature H r1 ns = build_signature H r2 ns" and "n \<in> set ns"
  shows "vary_field H r1 n = vary_field H r2 n"
  using assms(2,3)
proof (induction ns)
  case (Cons k ns)
  then have "vary_field H r1 k @ CHR 0x00 # build_signature H r1 ns =
      vary_field H r2 k @ CHR 0x00 # build_signature H r2 ns"
    by (simp add: build_signature_Cons)
  then have "vary_field H r1 k = vary_field H r2 k \<and> build_signature H r1 ns = build_signature H r2 ns"
    using vary_field_no_nul[OF assms(1)] by (simp add: append_marker_inject)
  with Cons show ?case by auto
qed simp

section \<open>Runs\<close>

text \<open>A sequence of operations on one store, in the order their locks are taken.\<close>

datatype 'h cache_op = OpPut string cache_entry | OpGet nat string 'h

fun cache_step :: "'h header_ops \<Rightarrow> ((string \<times> cache_entry list) list \<Rightarrow> (string \<times> cache_entry list) list) \<Rightarrow>
    'h cache_op \<Rightarrow> cache_store \<times> metrics \<Rightarrow> cache_store \<times> metrics" where
  "cache_step H it (OpPut key e) st = cache_put it key e st"
| "cache_step H it (OpGet now key req) st = snd (cache_get H now key req st)"

lemma cache_run_inv:
  assumes "iter_order it" and "cache_inv (fst st)"
  shows "cache_inv (fst (fold (cache_step H it) ops st))"
  using assms(2)
proof (induction ops arbitrary: st)
  case (Cons op ops)
  have "cache_inv (fst (cache_step H it op st))"
    using Cons.prems cache.put_inv[OF assms(1)] cache.get_inv by (cases op; cases st) auto
  then show ?case using Cons.IH by simp
qed simp

lemma cache_run_provenance:
  "v \<in> set (variants_of (fst (fold (cache_step H it) ops st)) key) \<Longrightarrow>
   v \<in> set (variants_of (fst st) key) \<or> OpPut key v \<in> set ops"
proof (induction ops arbitrary: st)
  case (Cons op ops)
  obtain s m where st: "st = (s, m)" by (cases st)
  from Cons.IH[of "cache_step H it op st"] Cons.prems
  have "v \<in> set (variants_of (fst (cache_step H it op st)) key) \<or> OpPut key v \<in> set ops" by simp
  moreover have "v \<in> set (variants_of s key) \<or> op = OpPut key v"
    if "v \<in> set (variants_of (fst (cache_step H it op st)) key)"
  proof (cases op)
    case (OpPut k e)
    with that st show ?thesis using cache.put_only_adds[of it k e s m key] by (auto split: if_splits)
  next
    case (OpGet now k req)
    with that st show ?thesis using cache.get_only_drops[of H now k req s m key] by auto
  qed
  ultimately show ?case using st by auto
qed simp

lemma cache_new_inv: "cache_inv (cache_store_new name n)" "variants_of (cache_store_new name n) k = []"
  by (simp_all add: cache_inv_def cache_store_new_def stored_bytes_def variants_of_def)

text \<open>C24: The accounting of the cache is exact after any sequence of lookups and stores, for every
  order in which the map is scanned: the recorded byte total is the sum over the stored variants
  and never exceeds the configured size, the variants of a key have distinct signatures, and no key
  is left without a variant.\<close>

theorem cache_accounting:
  assumes "iter_order it"
  shows "cache_inv (fst (fold (cache_step H it) ops (cache_store_new name n, m)))"
  by (rule cache_run_inv[OF assms]) (simp add: cache_new_inv(1))

definition demo_entry :: "string \<Rightarrow> string \<Rightarrow> cache_entry" where
  "demo_entry enc body = \<lparr>e_status = 200, e_headers = [], e_body = body, e_expires_at = 50,
     e_vary_headers = [''accept-encoding''],
     e_vary_signature = ''accept-encoding='' @ enc @ [CHR 0x00]\<rparr>"

definition demo_ops :: "header_list cache_op list" where
  "demo_ops = [OpPut ''k'' (demo_entry ''gzip'' ''Z''), OpPut ''k'' (demo_entry ''br'' ''B''),
     OpGet 10 ''k'' [(''accept-encoding'', ''br'')]]"

theorem cache_accounting_witness:
  "cache_inv (fst (fold (cache_step list_headers rev) demo_ops
     (cache_store_new ''z'' 80, initial_metrics)))"
  by (rule cache_accounting[OF iter_order_rev])



text \<open>What is stored is found: after storing an entry that fits the store, a request with the
  entry's signature gets exactly this entry until it expires, provided the variants of the key all
  vary on the same headers; eviction for other entries happened before, never of this one.\<close>

theorem cache_put_get:
  assumes "iter_order it" and "cache_inv s" and "entry_bytes e \<le> cs_max_bytes s"
    and "cache_put it key e (s, m) = (s', m')" and "now < e_expires_at e"
    and "build_signature H req (e_vary_headers e) = e_vary_signature e"
    and "\<forall>v \<in> set (variants_of s key). e_vary_headers v = e_vary_headers e"
  shows "fst (cache_get H now key req (s', m')) = Some e"
  using assms by (rule cache.put_then_get)

theorem cache_put_get_witness:
  "fst (cache_get list_headers 10 ''k'' [(''accept-encoding'', ''br'')]
     (cache_put rev ''k'' (demo_entry ''br'' ''B'')
       (fst (cache_put rev ''j'' (demo_entry ''gzip'' ''Z'') (cache_store_new ''z'' 40, initial_metrics)),
        initial_metrics))) = Some (demo_entry ''br'' ''B'')"
proof -
  let ?s = "fst (cache_put rev ''j'' (demo_entry ''gzip'' ''Z'') (cache_store_new ''z'' 40, initial_metrics))"
  have inv: "cache_inv ?s" by (rule cache_put_inv[OF iter_order_rev cache_new_inv(1)])
  obtain s' m' where p: "cache_put rev ''k'' (demo_entry ''br'' ''B'') (?s, initial_metrics) = (s', m')"
    by (metis surj_pair)
  have fits: "entry_bytes (demo_entry ''br'' ''B'') \<le> cs_max_bytes ?s" by code_simp
  have sig: "build_signature list_headers [(''accept-encoding'', ''br'')]
      (e_vary_headers (demo_entry ''br'' ''B'')) = e_vary_signature (demo_entry ''br'' ''B'')"
    by code_simp
  have fresh: "10 < e_expires_at (demo_entry ''br'' ''B'')" by code_simp
  have "variants_of ?s ''k'' = []" by code_simp
  then have none: "\<forall>v \<in> set (variants_of ?s ''k''). e_vary_headers v = e_vary_headers (demo_entry ''br'' ''B'')"
    by (metis empty_iff empty_set)
  have "fst (cache_get list_headers 10 ''k'' [(''accept-encoding'', ''br'')] (s', m')) =
      Some (demo_entry ''br'' ''B'')"
    by (rule cache_put_get[OF iter_order_rev inv fits p fresh sig none])
  then show ?thesis using p by simp
qed

text \<open>C25: Making room ends and succeeds: the eviction loop of \<^verbatim>\<open>put\<close>, run for as many rounds as
  there are stored variants and one more, has reached its exit condition with the new entry
  fitting, keeps the invariant, and does not change when it is given more rounds.\<close>

theorem evict_loop_ends:
  assumes "iter_order it" and "cache_inv s" and "variant_count s < fuel" and "need \<le> cs_max_bytes s"
    and "evict_loop it fuel need (s, m) = (s', m')"
  shows "cs_total_bytes s' + need \<le> cs_max_bytes s' \<and> cache_inv s' \<and>
    evict_loop it (fuel + k) need (s, m) = (s', m')"
proof -
  note r = evict_loop_result[OF assms(1-3,5)]
  have "cs_total_bytes s' + need \<le> cs_max_bytes s'"
  proof (cases "cs_entries s' = []")
    case True
    then have "cs_total_bytes s' = 0" using r cache_invD(3)[of s'] by (simp add: stored_bytes_def)
    then show ?thesis using r assms(4) by simp
  qed (use r in \<open>simp add: evict_done_def\<close>)
  moreover have "evict_loop it (fuel + k) need (s, m) = (s', m')"
    using evict_loop_more_fuel[OF assms(1-3), of "fuel + k"] assms(3,5) by simp
  ultimately show ?thesis using r by blast
qed

theorem evict_loop_ends_witness:
  "cs_total_bytes (fst (evict_loop rev 2 30
     (fst (cache_put rev ''j'' (demo_entry ''gzip'' ''Z'') (cache_store_new ''z'' 40, initial_metrics)),
      initial_metrics))) + 30 \<le> 40"
proof -
  let ?s = "fst (cache_put rev ''j'' (demo_entry ''gzip'' ''Z'') (cache_store_new ''z'' 40, initial_metrics))"
  have inv: "cache_inv ?s" by (rule cache_put_inv[OF iter_order_rev cache_new_inv(1)])
  have c: "variant_count ?s < 2" "30 \<le> cs_max_bytes ?s" by code_simp+
  obtain s' m' where e: "evict_loop rev 2 30 (?s, initial_metrics) = (s', m')" by (metis surj_pair)
  have "cs_max_bytes ?s = 40" by code_simp
  then have "cs_max_bytes s' = 40" using evict_loop_result[OF iter_order_rev inv c(1) e] by metis
  with evict_loop_ends[OF iter_order_rev inv c e, of 0] e show ?thesis by (metis fst_conv)
qed

section \<open>The caching decision\<close>

lemma matching_ttl_last:
  "matching_ttl status rules =
     map_option snd (find (\<lambda>(codes, d). codes = [] \<or> status \<in> set codes) (rev rules))"
proof (induction rules rule: rev_induct)
  case (snoc r rules)
  then show ?case by (cases r) (simp add: matching_ttl_def)
qed (simp add: matching_ttl_def)

text \<open>A response is stored only when it is safe: exactly for a GET, without a cookie being set,
  without \<^verbatim>\<open>Vary: *\<close>, without a directive against caching in the \<^verbatim>\<open>Cache-Control\<close> field the
  code reads, with a body within the per-entry limit and with the time-to-live of the last
  \<^verbatim>\<open>proxy_cache_valid\<close> rule that covers the status.\<close>

theorem decide_caching_store:
  assumes "header_laws H"
  shows "decide_caching H mthd headers status body_len rules = Store d \<longleftrightarrow>
    mthd = ''GET'' \<and> hm_get_all H headers ''set-cookie'' = [] \<and> ''*'' \<notin> set (parse_vary H headers) \<and>
    (\<forall>cc. Option.bind (hm_get H headers ''cache-control'') (hv_to_str H) = Some cc \<longrightarrow> \<not> cc_disallows cc) \<and>
    body_len \<le> max_entry_bytes \<and>
    (\<exists>codes. find (\<lambda>(codes, d). codes = [] \<or> status \<in> set codes) (rev rules) = Some (codes, d))"
  using header_lawsD(2)[OF assms, of headers "''set-cookie''"]
  by (auto simp: decide_caching_def matching_ttl_last split: option.splits list.splits if_splits)

theorem decide_caching_store_witness:
  "decide_caching list_headers ''GET'' [(''vary'', ''Accept'')] 200 10 [([], 5), ([200], 9)] = Store 9"
proof -
  have "hm_get_all list_headers [(''vary'', ''Accept'')] ''set-cookie'' = []"
      "''*'' \<notin> set (parse_vary list_headers [(''vary'', ''Accept'')])"
      "Option.bind (hm_get list_headers [(''vary'', ''Accept'')] ''cache-control'')
         (hv_to_str list_headers) = None"
      "(10 :: nat) \<le> max_entry_bytes"
    by code_simp+
  then show ?thesis by (simp add: decide_caching_store[OF list_headers_laws])
qed

text \<open>Only the first \<^verbatim>\<open>Cache-Control\<close> field line is read: a response that forbids storing in a
  second line is stored.\<close>

theorem decide_caching_second_line:
  "hm_get_all list_headers [(''cache-control'', ''max-age=60''), (''cache-control'', ''no-store'')]
     ''cache-control'' = [''max-age=60'', ''no-store''] \<and>
   decide_caching list_headers ''GET''
     [(''cache-control'', ''max-age=60''), (''cache-control'', ''no-store'')] 200 1 [([200], 9)] = Store 9"
  by code_simp

end
