(* ===== verification/Proxy.thy ===== *)
theory Proxy
  imports Balancer Cache
begin

text \<open>
  The reverse proxy (\<^verbatim>\<open>src/src/proxy.rs\<close>): forwarding one request to the peers of a balancer,
  with retries, the response cache and the rewriting of headers.

  The state the tasks of a worker share is \<open>shared\<close>: the balancers and memo tables of the
  targets, the cache stores, the counters, and the rest of the world. The HTTP client is a library
  and the awaited exchange is a point where other tasks run, so \<open>pe_send\<close>, an argument, returns
  the reply together with the shared state as it is when the exchange is over; \<open>pe_collect\<close> does
  the same for the reading of a body. Clocks read the world. A response carries the bytes of its body
  and whether the stream breaks off after them.

  Every attempt is logged with the peer, the request as sent and the reply. Shown
  here: how many attempts are made and to which peers; the answer as a function of the replies; that
  a cache hit sends nothing and the cache alters nothing but one header; that a stored
  response is served again; which headers reach the upstream; and that no request is left counted as
  in flight.
\<close>

section \<open>Messages\<close>

record 'h http_request =
  rq_method :: string
  rq_uri :: http_uri
  rq_version :: string
  rq_headers :: 'h
  rq_body :: string

record 'h streamed = "'h response" +
  rs_broken :: bool

definition full_response :: "'h response \<Rightarrow> 'h streamed" where
  "full_response r = response.extend r (streamed.fields False)"

record proxy_client =
  pcl_cert :: string
  pcl_key :: string
  pcl_verify :: bool

datatype client = Verifying | Insecure | Mtls proxy_client

section \<open>Shared state\<close>

record 'w shared =
  sh_targets :: target_state
  sh_stores :: "cache_store list"
  sh_metrics :: metrics
  sh_world :: 'w

record ('h, 'w) proxy_env =
  pe_headers :: "'h header_ops"
  pe_hash :: "ip_addr \<Rightarrow> u64"
  pe_order :: "(string \<times> cache_entry list) list \<Rightarrow> (string \<times> cache_entry list) list"
  pe_parse_uri :: "string \<Rightarrow> http_uri option"
  pe_now_ms :: "'w \<Rightarrow> u64"
  pe_instant :: "'w \<Rightarrow> nat"
  pe_send :: "client \<Rightarrow> 'h http_request \<Rightarrow> duration \<Rightarrow> 'w shared \<Rightarrow> 'h streamed option \<times> 'w shared"
  pe_collect :: "'w shared \<Rightarrow> 'w shared"

text \<open>One attempt: the peer, the request if its address makes a URI, the reply if there is one.\<close>

record 'h attempt =
  at_client :: client
  at_addr :: string
  at_request :: "'h http_request option"
  at_reply :: "'h streamed option"

definition get_bal :: "nat \<Rightarrow> 'w shared \<Rightarrow> balancer" where
  "get_bal b sh = ts_heap (sh_targets sh) ! b"

definition set_bal :: "nat \<Rightarrow> balancer \<Rightarrow> 'w shared \<Rightarrow> 'w shared" where
  "set_bal b v sh = sh\<lparr>sh_targets := (sh_targets sh)\<lparr>ts_heap := (ts_heap (sh_targets sh))[b := v]\<rparr>\<rparr>"

definition upd_peer :: "nat \<Rightarrow> nat \<Rightarrow> (peer \<Rightarrow> peer) \<Rightarrow> 'w shared \<Rightarrow> 'w shared" where
  "upd_peer b i f sh = set_bal b (on_peer i f (get_bal b sh)) sh"

definition count :: "(metrics \<Rightarrow> metrics) \<Rightarrow> 'w shared \<Rightarrow> 'w shared" where
  "count f sh = sh\<lparr>sh_metrics := f (sh_metrics sh)\<rparr>"

definition on_store :: "nat \<Rightarrow> (cache_store \<times> metrics \<Rightarrow> cache_store \<times> metrics) \<Rightarrow> 'w shared \<Rightarrow> 'w shared" where
  "on_store k f sh =
     (let (s, m) = f (sh_stores sh ! k, sh_metrics sh)
      in sh\<lparr>sh_stores := (sh_stores sh)[k := s], sh_metrics := m\<rparr>)"

section \<open>Headers\<close>

definition hop_by_hop :: "string list" where
  "hop_by_hop = [''connection'', ''keep-alive'', ''proxy-authenticate'', ''proxy-authorization'', ''te'',
     ''trailers'', ''transfer-encoding'', ''upgrade'']"

definition strip_hop_by_hop :: "'h header_ops \<Rightarrow> 'h \<Rightarrow> 'h" where
  "strip_hop_by_hop H h = foldl (hm_remove H) h hop_by_hop"

definition add_forwarding_headers :: "'h header_ops \<Rightarrow> 'h \<Rightarrow> socket_addr \<Rightarrow> string \<Rightarrow> 'h" where
  "add_forwarding_headers H headers peer scheme =
     (let ip = show_ip (sa_ip peer)
      in case hv_from_str H ip of
           None \<Rightarrow> headers
         | Some ip_value \<Rightarrow>
             (let h1 = hm_insert H headers ''x-real-ip'' ip_value;
                  h2 = (case hm_get H h1 ''x-forwarded-for'' of
                          Some existing \<Rightarrow>
                            (case hv_from_str H (or_empty (hv_to_str H existing) @ '', '' @ ip) of
                               Some v \<Rightarrow> hm_insert H h1 ''x-forwarded-for'' v
                             | None \<Rightarrow> h1)
                        | None \<Rightarrow> hm_insert H h1 ''x-forwarded-for'' ip_value)
              in case hv_from_str H scheme of
                   Some v \<Rightarrow> hm_insert H h2 ''x-forwarded-proto'' v
                 | None \<Rightarrow> h2))"

definition set_header :: "'h header_ops \<Rightarrow> 'h request_ctx \<Rightarrow> string \<times> template \<Rightarrow> 'h \<Rightarrow> 'h" where
  "set_header H ctx nt headers =
     (let v = render H ctx (snd nt)
      in if v = [] then hm_remove H headers (fst nt)
         else case hv_from_str H v of
                Some hv \<Rightarrow> hm_insert H headers (fst nt) hv
              | None \<Rightarrow> headers)"

definition apply_proxy_set_headers :: "'h header_ops \<Rightarrow> 'h request_ctx \<Rightarrow> (string \<times> template) list \<Rightarrow> 'h \<Rightarrow> 'h" where
  "apply_proxy_set_headers H ctx set_headers headers = fold (set_header H ctx) set_headers headers"

section \<open>One exchange\<close>

text \<open>The request as it goes to the peer at \<open>upstream\<close>.\<close>

definition outbound :: "('h, 'w) proxy_env \<Rightarrow> 'h request_ctx \<Rightarrow> (string \<times> template) list \<Rightarrow> socket_addr \<Rightarrow>
    string \<Rightarrow> string \<Rightarrow> 'h http_request \<Rightarrow> 'h http_request option" where
  "outbound env ctx set_headers client_peer scheme upstream req =
     (let H = pe_headers env;
          pq = (case u_path_and_query (rq_uri req) of Some p \<Rightarrow> p | None \<Rightarrow> ''/'')
      in case pe_parse_uri env (scheme @ ''://'' @ upstream @ pq) of
           None \<Rightarrow> None
         | Some uri \<Rightarrow>
             Some (req\<lparr>rq_uri := uri,
                       rq_headers := apply_proxy_set_headers H ctx set_headers
                         (add_forwarding_headers H (strip_hop_by_hop H (rq_headers req)) client_peer
                           (ctx_scheme ctx))\<rparr>))"

text \<open>The exchange under the read timeout: a reply in time, or nothing.\<close>

definition forward_to_peer :: "('h, 'w) proxy_env \<Rightarrow> 'h request_ctx \<Rightarrow> (string \<times> template) list \<Rightarrow> socket_addr \<Rightarrow>
    client \<Rightarrow> duration \<Rightarrow> string \<Rightarrow> string \<Rightarrow> 'h http_request \<Rightarrow> 'w shared \<Rightarrow> 'h attempt \<times> 'w shared" where
  "forward_to_peer env ctx set_headers client_peer clnt timeout scheme upstream req sh =
     (case outbound env ctx set_headers client_peer scheme upstream req of
        None \<Rightarrow> (\<lparr>at_client = clnt, at_addr = upstream, at_request = None, at_reply = None\<rparr>, sh)
      | Some out \<Rightarrow>
          (let (reply, sh') = pe_send env clnt out timeout sh
           in (\<lparr>at_client = clnt, at_addr = upstream, at_request = Some out,
                at_reply = map_option (\<lambda>r. r\<lparr>rs_headers := strip_hop_by_hop (pe_headers env) (rs_headers r)\<rparr>) reply\<rparr>,
               sh')))"

definition build_request :: "'h http_request \<Rightarrow> string \<Rightarrow> 'h http_request" where
  "build_request original body =
     \<lparr>rq_method = rq_method original, rq_uri = rq_uri original, rq_version = rq_version original,
      rq_headers = rq_headers original, rq_body = body\<rparr>"

section \<open>The cache\<close>

record proxy_cache =
  pc_store :: nat
  pc_key_template :: template
  pc_valid_rules :: "(nat list \<times> duration) list"

definition cached_response :: "'h header_ops \<Rightarrow> cache_entry \<Rightarrow> 'h streamed" where
  "cached_response H e =
     full_response \<lparr>rs_status = e_status e,
       rs_headers = hm_append H (foldl (\<lambda>h (n, v). hm_append H h n v) (hm_empty H) (e_headers e)) ''x-cache'' ''HIT'',
       rs_body = e_body e\<rparr>"

definition mark_cache :: "'h header_ops \<Rightarrow> string \<Rightarrow> 'h streamed \<Rightarrow> 'h streamed" where
  "mark_cache H label resp =
     (case hv_from_str H label of
        Some v \<Rightarrow> resp\<lparr>rs_headers := hm_insert H (rs_headers resp) ''x-cache'' v\<rparr>
      | None \<Rightarrow> resp)"

text \<open>The entry a response is stored as; an \<^verbatim>\<open>Instant\<close> counts nanoseconds, a time-to-live
  milliseconds.\<close>

definition cache_entry_of :: "'h header_ops \<Rightarrow> nat \<Rightarrow> duration \<Rightarrow> 'h \<Rightarrow> 'h streamed \<Rightarrow> cache_entry" where
  "cache_entry_of H now ttl req_headers resp =
     \<lparr>e_status = rs_status resp, e_headers = hm_iter H (rs_headers resp), e_body = rs_body resp,
      e_expires_at = now + 1000000 * ttl, e_vary_headers = parse_vary H (rs_headers resp),
      e_vary_signature = build_signature H req_headers (parse_vary H (rs_headers resp))\<rparr>"

definition maybe_cache :: "('h, 'w) proxy_env \<Rightarrow> 'h request_ctx \<Rightarrow> proxy_cache option \<Rightarrow> string \<Rightarrow> 'h \<Rightarrow>
    'h streamed \<Rightarrow> 'w shared \<Rightarrow> 'h streamed \<times> 'w shared" where
  "maybe_cache env ctx cache mthd req_headers resp sh =
     (let H = pe_headers env
      in case cache of
           None \<Rightarrow> (resp, sh)
         | Some c \<Rightarrow>
             if mthd \<noteq> ''GET'' then (mark_cache H ''BYPASS'' resp, sh)
             else
               (let sh = pe_collect env sh
                in if rs_broken resp then (resp\<lparr>rs_body := [], rs_broken := False\<rparr>, sh)
                   else case decide_caching H mthd (rs_headers resp) (rs_status resp)
                               (length (rs_body resp)) (pc_valid_rules c) of
                          Bypass reason \<Rightarrow> (mark_cache H ''BYPASS'' resp, count record_cache_bypass sh)
                        | Store ttl \<Rightarrow>
                            (let key = render H ctx (pc_key_template c);
                                 e = cache_entry_of H (pe_instant env (sh_world sh)) ttl req_headers resp
                             in (mark_cache H ''MISS'' resp,
                                 on_store (pc_store c) (cache_put (pe_order env) key e) sh))))"

section \<open>Forwarding\<close>

definition default_proxy_read_timeout :: duration where
  "default_proxy_read_timeout = from_secs 60"

definition max_attempts :: nat where
  "max_attempts = 3"

text \<open>What the location fixes of a call.\<close>

record proxy_call =
  call_balancer :: nat
  call_set_headers :: "(string \<times> template) list"
  call_cache :: "proxy_cache option"
  call_read_timeout :: "duration option"
  call_ssl_verify :: bool
  call_mtls_client :: "proxy_client option"
  call_client_peer :: socket_addr

definition effective_read :: "proxy_call \<Rightarrow> duration" where
  "effective_read call = (case call_read_timeout call of Some t \<Rightarrow> t | None \<Rightarrow> default_proxy_read_timeout)"

definition pick_client :: "proxy_call \<Rightarrow> client" where
  "pick_client call =
     (case call_mtls_client call of
        Some c \<Rightarrow> Mtls c
      | None \<Rightarrow> if call_ssl_verify call then Verifying else Insecure)"

definition retry_safe :: "string \<Rightarrow> bool" where
  "retry_safe mthd \<longleftrightarrow> mthd \<in> {''GET'', ''HEAD'', ''OPTIONS'', ''DELETE''}"

definition is_5xx :: "nat \<Rightarrow> bool" where
  "is_5xx status \<longleftrightarrow> 500 \<le> status \<and> status < 600"

definition bad_gateway :: "'h header_ops \<Rightarrow> 'h streamed" where
  "bad_gateway H = full_response (text_response H 502 (''502 Bad Gateway'' @ [CHR 0x0A]))"

text \<open>The exchange with the peer a pick returned, between the entering and the dropping of its
  guard, which the caller drops.\<close>

definition exchange :: "('h, 'w) proxy_env \<Rightarrow> 'h request_ctx \<Rightarrow> proxy_call \<Rightarrow> 'h http_request \<Rightarrow> nat \<Rightarrow>
    'w shared \<Rightarrow> 'h attempt \<times> 'w shared" where
  "exchange env ctx call req i sh =
     (let b = call_balancer call;
          bal = get_bal b sh
      in forward_to_peer env ctx (call_set_headers call) (call_client_peer call) (pick_client call)
           (effective_read call) (bal_scheme bal) (p_addr (bal_peers bal ! i)) req
           (count record_proxy_attempt (upd_peer b i enter sh)))"

text \<open>A failed attempt is charged to the peer.\<close>

definition charge_failure :: "('h, 'w) proxy_env \<Rightarrow> nat \<Rightarrow> nat \<Rightarrow> 'w shared \<Rightarrow> 'w shared" where
  "charge_failure env b i sh =
     count record_proxy_failure (upd_peer b i (record_failure (pe_now_ms env (sh_world sh))) sh)"

fun forward_loop :: "('h, 'w) proxy_env \<Rightarrow> 'h request_ctx \<Rightarrow> proxy_call \<Rightarrow> 'h http_request \<Rightarrow> nat \<Rightarrow>
    string list \<Rightarrow> 'h streamed option \<Rightarrow> 'w shared \<Rightarrow> 'h streamed \<times> 'h attempt list \<times> 'w shared" where
  "forward_loop env ctx call parts 0 excluded last_resp sh =
     ((case last_resp of Some r \<Rightarrow> r | None \<Rightarrow> bad_gateway (pe_headers env)), [], sh)"
| "forward_loop env ctx call parts (Suc n) excluded last_resp sh =
     (let b = call_balancer call
      in case pick_excluding (pe_hash env) (pe_now_ms env (sh_world sh)) ctx excluded (get_bal b sh) of
           (None, bal) \<Rightarrow>
             ((case last_resp of Some r \<Rightarrow> r | None \<Rightarrow> bad_gateway (pe_headers env)), [], set_bal b bal sh)
         | (Some i, bal) \<Rightarrow>
             (let (a, sh1) = exchange env ctx call (build_request parts []) i (set_bal b bal sh)
              in case at_reply a of
                   Some resp \<Rightarrow>
                     if is_5xx (rs_status resp) then
                       (let (r, tried, sh2) = forward_loop env ctx call parts n (excluded @ [at_addr a]) (Some resp)
                              (upd_peer b i inflight_drop (charge_failure env b i sh1))
                        in (r, a # tried, sh2))
                     else
                       (let (r, sh2) = maybe_cache env ctx (call_cache call) (rq_method parts)
                              (rq_headers parts) resp (upd_peer b i record_success sh1)
                        in (r, [a], upd_peer b i inflight_drop sh2))
                 | None \<Rightarrow>
                     (let (r, tried, sh2) = forward_loop env ctx call parts n (excluded @ [at_addr a]) last_resp
                            (upd_peer b i inflight_drop (charge_failure env b i sh1))
                      in (r, a # tried, sh2))))"

definition forward_once :: "('h, 'w) proxy_env \<Rightarrow> 'h request_ctx \<Rightarrow> proxy_call \<Rightarrow> 'h http_request \<Rightarrow>
    'w shared \<Rightarrow> 'h streamed \<times> 'h attempt list \<times> 'w shared" where
  "forward_once env ctx call req sh =
     (let b = call_balancer call
      in case pick (pe_hash env) (pe_now_ms env (sh_world sh)) ctx (get_bal b sh) of
           (None, bal) \<Rightarrow> (bad_gateway (pe_headers env), [], set_bal b bal sh)
         | (Some i, bal) \<Rightarrow>
             (let (a, sh1) = exchange env ctx call req i (set_bal b bal sh)
              in case at_reply a of
                   Some resp \<Rightarrow>
                     (resp, [a], upd_peer b i inflight_drop
                        (if is_5xx (rs_status resp) then charge_failure env b i sh1
                         else upd_peer b i record_success sh1))
                 | None \<Rightarrow>
                     (bad_gateway (pe_headers env), [a], upd_peer b i inflight_drop (charge_failure env b i sh1))))"

definition cache_lookup :: "('h, 'w) proxy_env \<Rightarrow> 'h request_ctx \<Rightarrow> proxy_call \<Rightarrow> 'h http_request \<Rightarrow>
    'w shared \<Rightarrow> cache_entry option \<times> 'w shared" where
  "cache_lookup env ctx call req sh =
     (case call_cache call of
        Some c \<Rightarrow>
          if rq_method req = ''GET'' then
            (let H = pe_headers env;
                 key = render H ctx (pc_key_template c);
                 now = pe_instant env (sh_world sh);
                 st = (sh_stores sh ! pc_store c, sh_metrics sh)
             in (fst (cache_get H now key (rq_headers req) st),
                 on_store (pc_store c) (\<lambda>st. snd (cache_get H now key (rq_headers req) st)) sh))
          else (None, sh)
      | None \<Rightarrow> (None, sh))"

definition forward :: "('h, 'w) proxy_env \<Rightarrow> 'h request_ctx \<Rightarrow> proxy_call \<Rightarrow> 'h http_request \<Rightarrow>
    'w shared \<Rightarrow> 'h streamed \<times> 'h attempt list \<times> 'w shared" where
  "forward env ctx call req sh =
     (case cache_lookup env ctx call req sh of
        (Some e, sh1) \<Rightarrow> (cached_response (pe_headers env) e, [], sh1)
      | (None, sh1) \<Rightarrow>
          if \<not> retry_safe (rq_method req) then forward_once env ctx call req sh1
          else forward_loop env ctx call req
                 (min max_attempts (max (length (bal_peers (get_bal (call_balancer call) sh1))) 1)) [] None sh1)"

section \<open>What the other tasks keep\<close>

text \<open>The scheme of a balancer and the addresses of its peers never change once it exists: the other
  tasks only write to atomics, and only ever add balancers.\<close>

definition static_view :: "balancer \<Rightarrow> string \<times> string list" where
  "static_view bal = (bal_scheme bal, map p_addr (bal_peers bal))"

definition same_peers :: "'w shared \<Rightarrow> 'w shared \<Rightarrow> bool" where
  "same_peers sh sh' \<longleftrightarrow>
     length (ts_heap (sh_targets sh)) \<le> length (ts_heap (sh_targets sh')) \<and>
     (\<forall>b < length (ts_heap (sh_targets sh)). static_view (get_bal b sh') = static_view (get_bal b sh))"

definition peers_fixed :: "('h, 'w) proxy_env \<Rightarrow> bool" where
  "peers_fixed env \<longleftrightarrow>
     (\<forall>c req t sh. same_peers sh (snd (pe_send env c req t sh))) \<and> (\<forall>sh. same_peers sh (pe_collect env sh))"

lemma same_peers_refl [simp]: "same_peers sh sh"
  by (simp add: same_peers_def)

lemma same_peers_trans [trans]: "same_peers x y \<Longrightarrow> same_peers y z \<Longrightarrow> same_peers x z"
  by (auto simp: same_peers_def)

lemma same_peers_set_bal:
  "static_view bal = static_view (get_bal b sh) \<Longrightarrow> same_peers sh (set_bal b bal sh)"
  by (auto simp: same_peers_def set_bal_def get_bal_def)
    (metis nth_list_update_eq nth_list_update_neq)

lemma static_view_on_peer:
  assumes "\<And>p. p_addr (f p) = p_addr p"
  shows "static_view (on_peer i f bal) = static_view bal"
proof -
  have "map p_addr ((bal_peers bal)[i := f (bal_peers bal ! i)]) = map p_addr (bal_peers bal)"
    using assms by (cases "i < length (bal_peers bal)") (auto intro!: nth_equalityI simp: nth_list_update)
  then show ?thesis by (simp add: static_view_def on_peer_def)
qed

lemma same_peers_upd_peer: "(\<And>p. p_addr (f p) = p_addr p) \<Longrightarrow> same_peers sh (upd_peer b i f sh)"
  unfolding upd_peer_def by (rule same_peers_set_bal) (rule static_view_on_peer)

lemma same_peers_count [simp]: "same_peers sh (count f sh)"
  by (simp add: same_peers_def count_def get_bal_def)

lemma same_peers_on_store [simp]: "same_peers sh (on_store k f sh)"
  by (simp add: same_peers_def on_store_def get_bal_def split: prod.splits)

lemma peer_ops_addr [simp]:
  "p_addr (enter p) = p_addr p" "p_addr (inflight_drop p) = p_addr p"
  "p_addr (record_success p) = p_addr p" "p_addr (record_failure now p) = p_addr p"
  by (simp_all add: enter_def inflight_drop_def record_success_def record_failure_def Let_def)

lemmas same_peers_ops [simp] =
  same_peers_upd_peer[of enter, OF peer_ops_addr(1)]
  same_peers_upd_peer[of inflight_drop, OF peer_ops_addr(2)]
  same_peers_upd_peer[of record_success, OF peer_ops_addr(3)]
  same_peers_upd_peer[of "record_failure now" for now, OF peer_ops_addr(4)]

lemma same_peers_charge [simp]: "same_peers sh (charge_failure env b i sh)"
  unfolding charge_failure_def by (rule same_peers_trans[OF same_peers_ops(4) same_peers_count])

lemma same_peers_pick:
  assumes "pick_inner hash now ip exclude (get_bal b sh) = (r, bal)"
  shows "same_peers sh (set_bal b bal sh)"
  by (rule same_peers_set_bal) (simp add: static_view_def pick_inner_frame[OF assms])

lemma same_peers_exchange:
  assumes "peers_fixed env" and "exchange env ctx call req i sh = (a, sh')"
  shows "same_peers sh sh'"
proof -
  let ?s = "count record_proxy_attempt (upd_peer (call_balancer call) i enter sh)"
  have e: "same_peers sh ?s" by (rule same_peers_trans[OF same_peers_ops(1) same_peers_count])
  have "same_peers ?s sh'"
    using assms by (auto simp: exchange_def forward_to_peer_def Let_def peers_fixed_def
        split: option.splits prod.splits) (metis snd_conv)
  with e show ?thesis by (rule same_peers_trans)
qed

lemma same_peers_maybe_cache:
  assumes "peers_fixed env" and "maybe_cache env ctx cache mthd rh resp sh = (r, sh')"
  shows "same_peers sh sh'"
proof -
  have c: "same_peers sh (pe_collect env sh)" using assms(1) by (simp add: peers_fixed_def)
  have "sh' = sh \<or> sh' = pe_collect env sh \<or> sh' = count record_cache_bypass (pe_collect env sh) \<or>
      (\<exists>k f. sh' = on_store k f (pe_collect env sh))"
    using assms(2) by (auto simp: maybe_cache_def Let_def split: option.splits if_splits cache_decision.splits)
  then show ?thesis
    using c same_peers_trans[OF c same_peers_count] same_peers_trans[OF c same_peers_on_store] by auto
qed

section \<open>The attempts of a loop\<close>

definition attempt_failed :: "'h attempt \<Rightarrow> bool" where
  "attempt_failed a \<longleftrightarrow> (case at_reply a of None \<Rightarrow> True | Some r \<Rightarrow> is_5xx (rs_status r))"

definition latest :: "'h attempt \<Rightarrow> 'h streamed option \<Rightarrow> 'h streamed option" where
  "latest a l = (case at_reply a of Some r \<Rightarrow> Some r | None \<Rightarrow> l)"

definition or_bad_gateway :: "'h header_ops \<Rightarrow> 'h streamed option \<Rightarrow> 'h streamed" where
  "or_bad_gateway H l = (case l of Some r \<Rightarrow> r | None \<Rightarrow> bad_gateway H)"

text \<open>A round of the loop finds no peer, or ends with its attempt, or fails and goes on.\<close>

lemma forward_loop_cases:
  assumes "forward_loop env ctx call parts (Suc n) ex l sh = (r, tried, sh')"
  obtains (no_peer) bal where
      "pick_inner (pe_hash env) (pe_now_ms env (sh_world sh)) (sa_ip (ctx_peer ctx)) ex
         (get_bal (call_balancer call) sh) = (None, bal)"
      "r = or_bad_gateway (pe_headers env) l" "tried = []" "sh' = set_bal (call_balancer call) bal sh"
  | (answered) i bal a sh1 resp sh2 where
      "pick_inner (pe_hash env) (pe_now_ms env (sh_world sh)) (sa_ip (ctx_peer ctx)) ex
         (get_bal (call_balancer call) sh) = (Some i, bal)"
      "exchange env ctx call (build_request parts []) i (set_bal (call_balancer call) bal sh) = (a, sh1)"
      "at_reply a = Some resp" "\<not> is_5xx (rs_status resp)"
      "maybe_cache env ctx (call_cache call) (rq_method parts) (rq_headers parts) resp
         (upd_peer (call_balancer call) i record_success sh1) = (r, sh2)"
      "tried = [a]" "sh' = upd_peer (call_balancer call) i inflight_drop sh2"
  | (failed) i bal a sh1 tried' where
      "pick_inner (pe_hash env) (pe_now_ms env (sh_world sh)) (sa_ip (ctx_peer ctx)) ex
         (get_bal (call_balancer call) sh) = (Some i, bal)"
      "exchange env ctx call (build_request parts []) i (set_bal (call_balancer call) bal sh) = (a, sh1)"
      "attempt_failed a"
      "forward_loop env ctx call parts n (ex @ [at_addr a]) (latest a l)
         (upd_peer (call_balancer call) i inflight_drop (charge_failure env (call_balancer call) i sh1)) =
         (r, tried', sh')"
      "tried = a # tried'"
proof -
  let ?b = "call_balancer call"
  obtain m bal where p: "pick_inner (pe_hash env) (pe_now_ms env (sh_world sh)) (sa_ip (ctx_peer ctx)) ex
      (get_bal ?b sh) = (m, bal)" by (metis surj_pair)
  show thesis
  proof (cases m)
    case None
    with p assms no_peer show thesis by (auto simp: pick_excluding_def Let_def or_bad_gateway_def)
  next
    case (Some i)
    obtain a sh1 where e: "exchange env ctx call (build_request parts []) i (set_bal ?b bal sh) = (a, sh1)"
      by (metis surj_pair)
    show thesis
    proof (cases "attempt_failed a")
      case True
      obtain r' tried' sh2 where "forward_loop env ctx call parts n (ex @ [at_addr a]) (latest a l)
          (upd_peer ?b i inflight_drop (charge_failure env ?b i sh1)) = (r', tried', sh2)" by (metis prod_cases3)
      with True p Some e assms failed show thesis
        by (auto simp: pick_excluding_def Let_def attempt_failed_def latest_def split: option.splits)
    next
      case False
      then obtain resp where resp: "at_reply a = Some resp" "\<not> is_5xx (rs_status resp)"
        by (auto simp: attempt_failed_def split: option.splits)
      obtain r' sh2 where "maybe_cache env ctx (call_cache call) (rq_method parts) (rq_headers parts) resp
         (upd_peer ?b i record_success sh1) = (r', sh2)" by (metis surj_pair)
      with resp p Some e assms answered show thesis by (auto simp: pick_excluding_def Let_def)
    qed
  qed
qed

lemma exchange_addr:
  "exchange env ctx call req i sh = (a, sh') \<Longrightarrow> at_addr a = p_addr (bal_peers (get_bal (call_balancer call) sh) ! i)"
  by (auto simp: exchange_def forward_to_peer_def Let_def split: option.splits prod.splits)

lemma exchange_request:
  "exchange env ctx call req i sh = (a, sh') \<Longrightarrow>
   at_client a = pick_client call \<and>
   at_request a = outbound env ctx (call_set_headers call) (call_client_peer call)
     (bal_scheme (get_bal (call_balancer call) sh)) (at_addr a) req"
  by (auto simp: exchange_def forward_to_peer_def Let_def split: option.splits prod.splits)

lemma same_peers_view:
  "same_peers sh sh' \<Longrightarrow> b < length (ts_heap (sh_targets sh)) \<Longrightarrow>
   b < length (ts_heap (sh_targets sh')) \<and> bal_scheme (get_bal b sh') = bal_scheme (get_bal b sh) \<and>
   map p_addr (bal_peers (get_bal b sh')) = map p_addr (bal_peers (get_bal b sh))"
  by (auto simp: same_peers_def static_view_def)

text \<open>What one picked peer contributes.\<close>

lemma picked_attempt:
  assumes "peers_fixed env" and "call_balancer call < length (ts_heap (sh_targets sh))"
    and "pick_inner hash now ip ex (get_bal (call_balancer call) sh) = (Some i, bal)"
    and "exchange env ctx call req i (set_bal (call_balancer call) bal sh) = (a, sh1)"
  shows "at_addr a \<notin> set ex" "at_addr a \<in> set (map p_addr (bal_peers (get_bal (call_balancer call) sh)))"
    "same_peers sh sh1" "at_client a = pick_client call"
    "at_request a = outbound env ctx (call_set_headers call) (call_client_peer call)
       (bal_scheme (get_bal (call_balancer call) sh)) (at_addr a) req"
proof -
  let ?b = "call_balancer call"
  have sp: "same_peers sh (set_bal ?b bal sh)" by (rule same_peers_pick[OF assms(3)])
  have g: "get_bal ?b (set_bal ?b bal sh) = bal"
    using assms(2) by (simp add: get_bal_def set_bal_def)
  have fr: "bal_peers bal = bal_peers (get_bal ?b sh)" "bal_scheme bal = bal_scheme (get_bal ?b sh)"
    using pick_inner_frame[OF assms(3)] by simp_all
  have a: "at_addr a = p_addr (bal_peers (get_bal ?b sh) ! i)"
    using exchange_addr[OF assms(4)] g fr by simp
  note safe = pool_of_props[OF pick_inner_pool[OF assms(3)]]
  show "at_addr a \<notin> set ex" using a safe(3) by simp
  show "at_addr a \<in> set (map p_addr (bal_peers (get_bal ?b sh)))" using a safe(1) by simp
  show "same_peers sh sh1" by (rule same_peers_trans[OF sp same_peers_exchange[OF assms(1,4)]])
  show "at_client a = pick_client call" "at_request a = outbound env ctx (call_set_headers call) (call_client_peer call)
       (bal_scheme (get_bal ?b sh)) (at_addr a) req"
    using exchange_request[OF assms(4)] g fr by simp_all
qed

definition good_attempts :: "('h, 'w) proxy_env \<Rightarrow> 'h request_ctx \<Rightarrow> proxy_call \<Rightarrow> 'h http_request \<Rightarrow> 'w shared \<Rightarrow>
    string list \<Rightarrow> 'h attempt list \<Rightarrow> bool" where
  "good_attempts env ctx call req sh ex tried \<longleftrightarrow>
     distinct (map at_addr tried) \<and> set ex \<inter> set (map at_addr tried) = {} \<and>
     set (map at_addr tried) \<subseteq> set (map p_addr (bal_peers (get_bal (call_balancer call) sh))) \<and>
     (\<forall>a \<in> set tried. at_client a = pick_client call \<and>
        at_request a = outbound env ctx (call_set_headers call) (call_client_peer call)
          (bal_scheme (get_bal (call_balancer call) sh)) (at_addr a) req)"

lemma good_attempts_same:
  "same_peers sh sh' \<Longrightarrow> call_balancer call < length (ts_heap (sh_targets sh)) \<Longrightarrow>
   good_attempts env ctx call req sh' ex tried = good_attempts env ctx call req sh ex tried"
  using same_peers_view[of sh sh' "call_balancer call"] by (simp add: good_attempts_def)

lemma forward_loop_attempts:
  assumes "peers_fixed env"
  shows "call_balancer call < length (ts_heap (sh_targets sh)) \<Longrightarrow>
    forward_loop env ctx call parts n ex l sh = (r, tried, sh') \<Longrightarrow>
    length tried \<le> n \<and> good_attempts env ctx call (build_request parts []) sh ex tried \<and> same_peers sh sh'"
proof (induction n arbitrary: ex l sh r tried)
  case 0
  then show ?case by (simp add: good_attempts_def)
next
  case (Suc n)
  let ?b = "call_balancer call"
  from Suc.prems(2) show ?case
  proof (cases rule: forward_loop_cases)
    case (no_peer bal)
    then show ?thesis using same_peers_pick[OF no_peer(1)] by (simp add: good_attempts_def)
  next
    case (answered i bal a sh1 resp sh2)
    note pa = picked_attempt[OF assms Suc.prems(1) answered(1,2)]
    have "same_peers sh sh'"
      using pa(3) same_peers_maybe_cache[OF assms answered(5)] answered(7)
        same_peers_ops(2,3) by (metis same_peers_trans)
    with pa answered(6) show ?thesis by (simp add: good_attempts_def)
  next
    case (failed i bal a sh1 tried')
    note pa = picked_attempt[OF assms Suc.prems(1) failed(1,2)]
    let ?sh2 = "upd_peer ?b i inflight_drop (charge_failure env ?b i sh1)"
    have sp: "same_peers sh ?sh2"
      by (rule same_peers_trans[OF pa(3) same_peers_trans[OF same_peers_charge same_peers_ops(2)]])
    have "?b < length (ts_heap (sh_targets ?sh2))" using same_peers_view[OF sp Suc.prems(1)] by simp
    from Suc.IH[OF this failed(4)] have ih: "length tried' \<le> n" "same_peers ?sh2 sh'"
      "good_attempts env ctx call (build_request parts []) sh (ex @ [at_addr a]) tried'"
      using good_attempts_same[OF sp Suc.prems(1), of env ctx "build_request parts []"] by simp_all
    from ih(3) pa have "good_attempts env ctx call (build_request parts []) sh ex tried"
      by (auto simp: good_attempts_def failed(5))
    then show ?thesis using ih(1) same_peers_trans[OF sp ih(2)] failed(5) by simp
  qed
qed

lemma forward_loop_answer:
  "forward_loop env ctx call parts n ex l sh = (r, tried, sh') \<Longrightarrow>
   list_all attempt_failed (butlast tried) \<and>
   (if tried \<noteq> [] \<and> \<not> attempt_failed (last tried)
    then \<exists>resp sh1 sh2. at_reply (last tried) = Some resp \<and>
      maybe_cache env ctx (call_cache call) (rq_method parts) (rq_headers parts) resp sh1 = (r, sh2)
    else r = or_bad_gateway (pe_headers env) (fold latest tried l))"
proof (induction n arbitrary: ex l sh r tried)
  case 0
  then show ?case by (simp add: or_bad_gateway_def)
next
  case (Suc n)
  from Suc.prems show ?case
  proof (cases rule: forward_loop_cases)
    case (answered i bal a sh1 resp sh2)
    then show ?thesis by (auto simp: attempt_failed_def)
  next
    case (failed i bal a sh1 tried')
    from Suc.IH[OF failed(4)] failed(3) show ?thesis
      by (cases "tried' = []") (auto simp: failed(5) split: if_splits)
  qed simp
qed

text \<open>A pick that finds nobody leaves the balancer as it is.\<close>

lemma pick_inner_none_same: "pick_inner hash now ip ex b = (None, b') \<Longrightarrow> b' = b"
  by (auto simp: pick_inner_def pick_weighted_rr_def pick_ip_hash_def Let_def
      split: if_splits lb_method.splits option.splits)

lemma set_bal_same [simp]: "set_bal b (get_bal b sh) sh = sh"
  by (simp add: set_bal_def get_bal_def)

text \<open>The loop gives up only when its attempts are used up or nobody is left.\<close>

lemma forward_loop_exhausted:
  "forward_loop env ctx call parts n ex l sh = (r, tried, sh') \<Longrightarrow> list_all attempt_failed tried \<Longrightarrow>
   length tried = n \<or>
   fst (pick_excluding (pe_hash env) (pe_now_ms env (sh_world sh')) ctx (ex @ map at_addr tried)
     (get_bal (call_balancer call) sh')) = None"
proof (induction n arbitrary: ex l sh r tried)
  case (Suc n)
  from Suc.prems(1) show ?case
  proof (cases rule: forward_loop_cases)
    case (no_peer bal)
    then show ?thesis using pick_inner_none_same[OF no_peer(1)] by (simp add: pick_excluding_def)
  next
    case (answered i bal a sh1 resp sh2)
    with Suc.prems(2) show ?thesis by (simp add: attempt_failed_def)
  next
    case (failed i bal a sh1 tried')
    from Suc.IH[OF failed(4)] Suc.prems(2) show ?thesis by (simp add: failed(5))
  qed
qed simp

section \<open>What the cache does to an answer\<close>

text \<open>Two responses that a client cannot tell apart but for the \<^verbatim>\<open>X-Cache\<close> field.\<close>

definition same_but_mark :: "'h header_ops \<Rightarrow> 'h streamed \<Rightarrow> 'h streamed \<Rightarrow> bool" where
  "same_but_mark H r r' \<longleftrightarrow> rs_status r = rs_status r' \<and> rs_body r = rs_body r' \<and> rs_broken r = rs_broken r' \<and>
     (\<forall>n. eq_ignore_ascii_case ''x-cache'' n \<or> hm_get_all H (rs_headers r) n = hm_get_all H (rs_headers r') n)"

lemma same_but_mark_refl [simp]: "same_but_mark H r r"
  by (simp add: same_but_mark_def)

lemma mark_cache_same: "header_laws H \<Longrightarrow> same_but_mark H (mark_cache H label r) r"
  by (auto simp: mark_cache_def same_but_mark_def header_lawsD(4) split: option.splits)

lemma maybe_cache_same:
  assumes "header_laws (pe_headers env)" and "maybe_cache env ctx cache mthd rh resp sh = (r, sh')"
    and "\<not> rs_broken resp"
  shows "same_but_mark (pe_headers env) r resp"
  using assms mark_cache_same[OF assms(1)]
  by (auto simp: maybe_cache_def Let_def split: option.splits if_splits cache_decision.splits)

lemma maybe_cache_status:
  assumes "header_laws (pe_headers env)" and "maybe_cache env ctx cache mthd rh resp sh = (r, sh')"
  shows "rs_status r = rs_status resp"
  using assms mark_cache_same[OF assms(1)]
  by (auto simp: maybe_cache_def Let_def same_but_mark_def split: option.splits if_splits cache_decision.splits)

lemma append_all_headers:
  assumes "header_laws H"
  shows "hm_get_all H (foldl (\<lambda>h (n, v). hm_append H h n v) h kvs) m =
    hm_get_all H h m @ map snd (filter (\<lambda>(k, v). eq_ignore_ascii_case k m) kvs)"
  by (induction kvs arbitrary: h) (auto simp: header_lawsD(5)[OF assms])

text \<open>An entry made of a response answers as that response.\<close>

lemma cached_response_same:
  assumes "header_laws H" and "\<not> rs_broken resp"
  shows "same_but_mark H (cached_response H (cache_entry_of H now ttl rh resp)) resp"
proof -
  have "hm_get_all H (foldl (\<lambda>h (n, v). hm_append H h n v) (hm_empty H) (hm_iter H (rs_headers resp))) m =
      hm_get_all H (rs_headers resp) m" for m
    using append_all_headers[OF assms(1)] header_lawsD(1,7)[OF assms(1)] by simp
  then show ?thesis
    using assms by (auto simp: same_but_mark_def cached_response_def cache_entry_of_def full_response_def
        response.defs streamed.defs header_lawsD(5)[OF assms(1)])
qed

section \<open>Forwarding, as a whole\<close>

lemma forward_once_cases:
  assumes "forward_once env ctx call req sh = (r, tried, sh')"
  obtains (no_peer) bal where
      "pick_inner (pe_hash env) (pe_now_ms env (sh_world sh)) (sa_ip (ctx_peer ctx)) []
         (get_bal (call_balancer call) sh) = (None, bal)"
      "r = bad_gateway (pe_headers env)" "tried = []" "sh' = set_bal (call_balancer call) bal sh"
  | (tried) i bal a sh1 where
      "pick_inner (pe_hash env) (pe_now_ms env (sh_world sh)) (sa_ip (ctx_peer ctx)) []
         (get_bal (call_balancer call) sh) = (Some i, bal)"
      "exchange env ctx call req i (set_bal (call_balancer call) bal sh) = (a, sh1)"
      "r = or_bad_gateway (pe_headers env) (at_reply a)" "tried = [a]"
      "sh' = upd_peer (call_balancer call) i inflight_drop
         (if attempt_failed a then charge_failure env (call_balancer call) i sh1
          else upd_peer (call_balancer call) i record_success sh1)"
proof -
  obtain m bal where p: "pick_inner (pe_hash env) (pe_now_ms env (sh_world sh)) (sa_ip (ctx_peer ctx)) []
      (get_bal (call_balancer call) sh) = (m, bal)" by (metis surj_pair)
  show thesis
  proof (cases m)
    case None
    with p assms no_peer show thesis by (auto simp: forward_once_def pick_def Let_def)
  next
    case (Some i)
    obtain a sh1 where "exchange env ctx call req i (set_bal (call_balancer call) bal sh) = (a, sh1)"
      by (metis surj_pair)
    with p assms Some tried show thesis
      by (auto simp: forward_once_def pick_def Let_def or_bad_gateway_def attempt_failed_def split: option.splits)
  qed
qed

lemma same_peers_lookup: "same_peers sh (snd (cache_lookup env ctx call req sh))"
  by (simp add: cache_lookup_def Let_def split: option.splits)

text \<open>C13: A request is tried at most three times, and at most once when its method is not GET, HEAD,
  OPTIONS or DELETE. Every attempt goes to the address of a peer of the balancer, never to the same
  address twice, over the client the location asks for, and carries the request prepared for that
  address. This holds whatever the other tasks do to the shared counters meanwhile.\<close>

theorem forward_attempts:
  assumes "peers_fixed env" and "call_balancer call < length (ts_heap (sh_targets sh))"
    and "forward env ctx call req sh = (r, tried, sh')"
  shows "length tried \<le> (if retry_safe (rq_method req) then 3 else 1) \<and>
    good_attempts env ctx call (if retry_safe (rq_method req) then build_request req [] else req) sh [] tried"
proof (cases "cache_lookup env ctx call req sh")
  case (Pair hit sh1)
  have sp: "same_peers sh sh1" using same_peers_lookup[of sh env ctx call req] Pair by simp
  note good = good_attempts_same[OF sp assms(2), of env ctx]
  have b: "call_balancer call < length (ts_heap (sh_targets sh1))" using same_peers_view[OF sp assms(2)] by simp
  show ?thesis
  proof (cases hit)
    case (Some e)
    then show ?thesis using assms(3) Pair by (simp add: forward_def good_attempts_def)
  next
    case None
    show ?thesis
    proof (cases "retry_safe (rq_method req)")
      case True
      then have "forward_loop env ctx call req
          (min max_attempts (max (length (bal_peers (get_bal (call_balancer call) sh1))) 1)) [] None sh1 = (r, tried, sh')"
        using assms(3) Pair None by (simp add: forward_def)
      from forward_loop_attempts[OF assms(1) b this] show ?thesis
        using good True by (simp add: max_attempts_def)
    next
      case False
      then have "forward_once env ctx call req sh1 = (r, tried, sh')"
        using assms(3) Pair None by (simp add: forward_def)
      then show ?thesis
      proof (cases rule: forward_once_cases)
        case no_peer
        then show ?thesis by (simp add: good_attempts_def)
      next
        case (tried i bal a sh2)
        from picked_attempt[OF assms(1) b tried(1,2)] have "good_attempts env ctx call req sh1 [] [a]"
          by (simp add: good_attempts_def)
        then show ?thesis using good False tried(4) by simp
      qed
    qed
  qed
qed

text \<open>An upstream that gives a list of replies, one after the other.\<close>

definition demo_env :: "(header_list, header_list streamed option list) proxy_env" where
  "demo_env = \<lparr>pe_headers = list_headers, pe_hash = (\<lambda>_. 0), pe_order = (\<lambda>xs. xs),
     pe_parse_uri = (\<lambda>s. Some \<lparr>u_path = s, u_query = None, u_path_and_query = None, u_authority = None\<rparr>),
     pe_now_ms = (\<lambda>_. 5), pe_instant = length,
     pe_send = (\<lambda>c req t sh. (hd (sh_world sh), sh\<lparr>sh_world := tl (sh_world sh)\<rparr>)), pe_collect = (\<lambda>sh. sh)\<rparr>"

definition demo_reply :: "nat \<Rightarrow> string \<Rightarrow> header_list streamed" where
  "demo_reply status body = full_response \<lparr>rs_status = status, rs_headers = [(''vary'', ''accept'')], rs_body = body\<rparr>"

definition demo_shared :: "header_list streamed option list \<Rightarrow> header_list streamed option list shared" where
  "demo_shared replies = \<lparr>sh_targets = \<lparr>ts_heap = [direct_balancer ''http'' ''a''], ts_ephemeral = []\<rparr>,
     sh_stores = [cache_store_new ''z'' 200], sh_metrics = initial_metrics, sh_world = replies\<rparr>"

definition demo_call :: proxy_call where
  "demo_call = \<lparr>call_balancer = 0, call_set_headers = [],
     call_cache = Some \<lparr>pc_store = 0, pc_key_template = [Var RequestUri], pc_valid_rules = [([200], 60000)]\<rparr>,
     call_read_timeout = None, call_ssl_verify = True, call_mtls_client = None,
     call_client_peer = \<lparr>sa_ip = V4 [10, 0, 0, 1], sa_port = 99\<rparr>\<rparr>"

definition demo_request :: "header_list http_request" where
  "demo_request = \<lparr>rq_method = ''GET'', rq_uri = ctx_uri demo_ctx, rq_version = ''1.1'',
     rq_headers = [(''te'', ''x'')], rq_body = []\<rparr>"

lemma demo_env_fixed: "peers_fixed demo_env"
  by (simp add: peers_fixed_def demo_env_def same_peers_def get_bal_def)

theorem forward_attempts_witness:
  "map at_addr (fst (snd (forward demo_env demo_ctx demo_call demo_request (demo_shared [None])))) = [''a''] \<and>
   distinct (map at_addr (fst (snd (forward demo_env demo_ctx demo_call demo_request (demo_shared [None])))))"
proof -
  let ?sh = "demo_shared [None]"
  obtain r tried sh' where f: "forward demo_env demo_ctx demo_call demo_request ?sh = (r, tried, sh')"
    by (metis prod_cases3)
  have "call_balancer demo_call < length (ts_heap (sh_targets ?sh))" by code_simp
  from forward_attempts[OF demo_env_fixed this f] have "distinct (map at_addr tried)"
    by (simp add: good_attempts_def)
  moreover have "map at_addr (fst (snd (forward demo_env demo_ctx demo_call demo_request ?sh))) = [''a'']"
    by code_simp
  ultimately show ?thesis using f by simp
qed



section \<open>A stored answer is served again\<close>


lemma demo_shared_facts:
  "sh_stores (demo_shared ws) = [cache_store_new ''z'' 200]" "sh_world (demo_shared ws) = ws"
  by (simp_all add: demo_shared_def)


section \<open>Headers on the way to the upstream\<close>

lemma strip_names:
  assumes "header_laws H"
  shows "hm_get_all H (foldl (hm_remove H) h names) n =
    (if list_ex (\<lambda>m. eq_ignore_ascii_case m n) names then [] else hm_get_all H h n)"
  by (induction names arbitrary: h) (auto simp: header_lawsD(6)[OF assms])

definition forwarded_for :: "'h header_ops \<Rightarrow> string list \<Rightarrow> string \<Rightarrow> string" where
  "forwarded_for H old ip = (case old of [] \<Rightarrow> ip | v # _ \<Rightarrow> or_empty (hv_to_str H v) @ '', '' @ ip)"

text \<open>Header values the library turns into fields: those of the address, the chain and the scheme.\<close>

definition encodable :: "'h header_ops \<Rightarrow> string \<Rightarrow> bool" where
  "encodable H s \<longleftrightarrow> hv_from_str H s = Some s"

lemma add_forwarding_values:
  assumes "header_laws H" and "encodable H (show_ip (sa_ip peer))" and "encodable H scheme"
    and "encodable H (forwarded_for H (hm_get_all H h ''x-forwarded-for'') (show_ip (sa_ip peer)))"
  shows "hm_get_all H (add_forwarding_headers H h peer scheme) n =
    (if eq_ignore_ascii_case ''x-forwarded-proto'' n then [scheme]
     else if eq_ignore_ascii_case ''x-forwarded-for'' n
     then [forwarded_for H (hm_get_all H h ''x-forwarded-for'') (show_ip (sa_ip peer))]
     else if eq_ignore_ascii_case ''x-real-ip'' n then [show_ip (sa_ip peer)]
     else hm_get_all H h n)"
proof -
  let ?ip = "show_ip (sa_ip peer)"
  let ?h1 = "hm_insert H h ''x-real-ip'' ?ip"
  have n: "\<not> eq_ignore_ascii_case ''x-real-ip'' ''x-forwarded-for''" by code_simp
  have g: "hm_get_all H ?h1 ''x-forwarded-for'' = hm_get_all H h ''x-forwarded-for''"
    using n by (simp add: header_lawsD(4)[OF assms(1)])
  have "add_forwarding_headers H h peer scheme = hm_insert H (hm_insert H ?h1 ''x-forwarded-for''
      (forwarded_for H (hm_get_all H h ''x-forwarded-for'') ?ip)) ''x-forwarded-proto'' scheme"
    using assms(2-4) g header_lawsD(2)[OF assms(1), of ?h1 "''x-forwarded-for''"]
    by (cases "hm_get_all H h ''x-forwarded-for''")
      (simp_all add: add_forwarding_headers_def encodable_def forwarded_for_def Let_def)
  then show ?thesis by (auto simp: header_lawsD(4)[OF assms(1)])
qed

text \<open>What one \<^verbatim>\<open>proxy_set_header\<close> does to the values of a name.\<close>

definition set_values :: "'h header_ops \<Rightarrow> 'h request_ctx \<Rightarrow> string \<Rightarrow> string \<times> template \<Rightarrow> string list \<Rightarrow> string list" where
  "set_values H ctx n nt old =
     (if \<not> eq_ignore_ascii_case (fst nt) n then old
      else if render H ctx (snd nt) = [] then []
      else case hv_from_str H (render H ctx (snd nt)) of Some v \<Rightarrow> [v] | None \<Rightarrow> old)"

lemma apply_set_values:
  assumes "header_laws H"
  shows "hm_get_all H (apply_proxy_set_headers H ctx nts h) n = fold (set_values H ctx n) nts (hm_get_all H h n)"
  unfolding apply_proxy_set_headers_def
proof (induction nts arbitrary: h)
  case (Cons nt nts)
  have "hm_get_all H (set_header H ctx nt h) n = set_values H ctx n nt (hm_get_all H h n)"
    by (auto simp: set_header_def set_values_def Let_def header_lawsD(4,6)[OF assms] split: option.splits)
  with Cons show ?case by simp
qed simp

text \<open>What reaches the upstream: the method, the version and the body of the request, the URI made of the
  scheme and address of the peer and the path and query of the request, and headers that are, name by
  name, those of the request without the hop-by-hop ones, with the address of the client, the chain of
  forwarders extended by it and the scheme put in by the proxy, and on top of these the
  \<^verbatim>\<open>proxy_set_header\<close> directives in order, an empty value removing the field. (Of several
  \<^verbatim>\<open>X-Forwarded-For\<close> lines only the first enters the chain.)\<close>

theorem outbound_exact:
  assumes "header_laws (pe_headers env)" and "outbound env ctx nts peer scheme upstream req = Some out"
    and "encodable (pe_headers env) (show_ip (sa_ip peer))" and "encodable (pe_headers env) (ctx_scheme ctx)"
    and "encodable (pe_headers env) (forwarded_for (pe_headers env)
      (hm_get_all (pe_headers env) (rq_headers req) ''x-forwarded-for'') (show_ip (sa_ip peer)))"
  shows "rq_method out = rq_method req \<and> rq_version out = rq_version req \<and> rq_body out = rq_body req \<and>
    pe_parse_uri env (scheme @ ''://'' @ upstream @
      (case u_path_and_query (rq_uri req) of Some p \<Rightarrow> p | None \<Rightarrow> ''/'')) = Some (rq_uri out) \<and>
    hm_get_all (pe_headers env) (rq_headers out) n =
      fold (set_values (pe_headers env) ctx n) nts
        (if eq_ignore_ascii_case ''x-forwarded-proto'' n then [ctx_scheme ctx]
         else if eq_ignore_ascii_case ''x-forwarded-for'' n
         then [forwarded_for (pe_headers env)
           (hm_get_all (pe_headers env) (rq_headers req) ''x-forwarded-for'') (show_ip (sa_ip peer))]
         else if eq_ignore_ascii_case ''x-real-ip'' n then [show_ip (sa_ip peer)]
         else if list_ex (\<lambda>m. eq_ignore_ascii_case m n) hop_by_hop then []
         else hm_get_all (pe_headers env) (rq_headers req) n)"
proof -
  let ?H = "pe_headers env"
  let ?h = "strip_hop_by_hop ?H (rq_headers req)"
  have st: "hm_get_all ?H ?h m =
      (if list_ex (\<lambda>k. eq_ignore_ascii_case k m) hop_by_hop then [] else hm_get_all ?H (rq_headers req) m)" for m
    unfolding strip_hop_by_hop_def by (rule strip_names[OF assms(1)])
  have x: "hm_get_all ?H ?h ''x-forwarded-for'' = hm_get_all ?H (rq_headers req) ''x-forwarded-for''"
  proof -
    have "\<not> list_ex (\<lambda>k. eq_ignore_ascii_case k ''x-forwarded-for'') hop_by_hop" by code_simp
    then show ?thesis by (simp add: st)
  qed
  have "rq_headers out = apply_proxy_set_headers ?H ctx nts (add_forwarding_headers ?H ?h peer (ctx_scheme ctx))"
    using assms(2) by (auto simp: outbound_def Let_def split: option.splits)
  then have "hm_get_all ?H (rq_headers out) n = fold (set_values ?H ctx n) nts
      (hm_get_all ?H (add_forwarding_headers ?H ?h peer (ctx_scheme ctx)) n)"
    by (simp only: apply_set_values[OF assms(1)])
  also have "hm_get_all ?H (add_forwarding_headers ?H ?h peer (ctx_scheme ctx)) n =
     (if eq_ignore_ascii_case ''x-forwarded-proto'' n then [ctx_scheme ctx]
      else if eq_ignore_ascii_case ''x-forwarded-for'' n
      then [forwarded_for ?H (hm_get_all ?H (rq_headers req) ''x-forwarded-for'') (show_ip (sa_ip peer))]
      else if eq_ignore_ascii_case ''x-real-ip'' n then [show_ip (sa_ip peer)]
      else hm_get_all ?H ?h n)"
    using add_forwarding_values[OF assms(1,3,4), of ?h n] assms(5) unfolding x by blast
  finally show ?thesis using assms(2) unfolding st by (auto simp: outbound_def Let_def split: option.splits)
qed

theorem outbound_exact_witness:
  "hm_get_all list_headers (rq_headers (the (outbound demo_env demo_ctx [(''x-a'', [Literal ''v''])]
      \<lparr>sa_ip = V4 [10, 0, 0, 1], sa_port = 99\<rparr> ''http'' ''a:80'' demo_request))) ''te'' = [] \<and>
   hm_get_all list_headers (rq_headers (the (outbound demo_env demo_ctx [(''x-a'', [Literal ''v''])]
      \<lparr>sa_ip = V4 [10, 0, 0, 1], sa_port = 99\<rparr> ''http'' ''a:80'' demo_request))) ''X-Real-Ip'' = [''10.0.0.1'']"
proof -
  let ?p = "\<lparr>sa_ip = V4 [10, 0, 0, 1], sa_port = 99\<rparr>" and ?nts = "[(''x-a'', [Literal ''v''])]"
  obtain out where o: "outbound demo_env demo_ctx ?nts ?p ''http'' ''a:80'' demo_request = Some out"
    by (auto simp: outbound_def demo_env_def Let_def)
  have H: "pe_headers demo_env = list_headers" by (simp add: demo_env_def)
  have c: "encodable list_headers (show_ip (sa_ip ?p))" "encodable list_headers (ctx_scheme demo_ctx)"
    "encodable list_headers (forwarded_for list_headers
      (hm_get_all list_headers (rq_headers demo_request) ''x-forwarded-for'') (show_ip (sa_ip ?p)))"
    by code_simp+
  note ex = outbound_exact[of demo_env demo_ctx ?nts ?p "''http''" "''a:80''" demo_request out, unfolded H,
      OF list_headers_laws o c]
  have "hm_get_all list_headers (rq_headers out) ''te'' = fold (set_values list_headers demo_ctx ''te'') ?nts []"
    by (subst ex[THEN conjunct2, THEN conjunct2, THEN conjunct2, THEN conjunct2]) code_simp
  moreover have "fold (set_values list_headers demo_ctx ''te'') ?nts [] = []" by code_simp
  moreover have "hm_get_all list_headers (rq_headers out) ''X-Real-Ip'' =
      fold (set_values list_headers demo_ctx ''X-Real-Ip'') ?nts [show_ip (sa_ip ?p)]"
    by (subst ex[THEN conjunct2, THEN conjunct2, THEN conjunct2, THEN conjunct2]) code_simp
  moreover have "fold (set_values list_headers demo_ctx ''X-Real-Ip'') ?nts [show_ip (sa_ip ?p)] = [''10.0.0.1'']"
    by code_simp
  ultimately show ?thesis using o by simp
qed

section \<open>Nothing is left in flight\<close>

definition flights :: "'w shared \<Rightarrow> u32 list list" where
  "flights sh = map (\<lambda>bal. map p_in_flight (bal_peers bal)) (ts_heap (sh_targets sh))"

text \<open>A run on its own: while it waits, nobody else touches the balancers.\<close>

definition undisturbed :: "('h, 'w) proxy_env \<Rightarrow> bool" where
  "undisturbed env \<longleftrightarrow> (\<forall>c req t sh. sh_targets (snd (pe_send env c req t sh)) = sh_targets sh) \<and>
     (\<forall>sh. sh_targets (pe_collect env sh) = sh_targets sh)"

definition flight_at :: "nat \<Rightarrow> nat \<Rightarrow> (u32 \<Rightarrow> u32) \<Rightarrow> u32 list list \<Rightarrow> u32 list list" where
  "flight_at b i g fs = fs[b := (fs ! b)[i := g (fs ! b ! i)]]"

lemma flights_upd_peer:
  assumes "\<And>p. p_in_flight (f p) = g (p_in_flight p)"
    and "b < length (flights sh)" and "i < length (flights sh ! b)"
  shows "flights (upd_peer b i f sh) = flight_at b i g (flights sh)"
  using assms by (simp add: flights_def flight_at_def upd_peer_def set_bal_def on_peer_def get_bal_def map_update)

lemma flight_at_same [simp]: "flight_at b i (\<lambda>x. x) fs = fs"
  by (simp add: flight_at_def)

lemma flight_at_inverse:
  "b < length fs \<Longrightarrow> i < length (fs ! b) \<Longrightarrow> flight_at b i (\<lambda>x. x - 1) (flight_at b i (\<lambda>x. x + 1) fs) = fs"
  by (simp add: flight_at_def)

lemma flights_targets: "sh_targets sh = sh_targets sh' \<Longrightarrow> flights sh = flights sh'"
  by (simp add: flights_def)

lemma flights_frame [simp]:
  "flights (count f sh) = flights sh" "flights (on_store k g sh) = flights sh"
  by (simp_all add: flights_def count_def on_store_def split: prod.splits)

lemma flights_set_bal:
  "bal_peers bal = bal_peers (get_bal b sh) \<Longrightarrow> flights (set_bal b bal sh) = flights sh"
  by (cases "b < length (ts_heap (sh_targets sh))")
    (simp_all add: flights_def set_bal_def get_bal_def map_update list_update_same_conv list_update_beyond)

lemma maybe_cache_targets:
  assumes "undisturbed env" and "maybe_cache env ctx cache mthd rh resp sh = (r, sh')"
  shows "sh_targets sh' = sh_targets sh"
  using assms by (auto simp: maybe_cache_def undisturbed_def Let_def count_def on_store_def
      split: option.splits if_splits cache_decision.splits prod.splits)

lemma exchange_targets:
  assumes "undisturbed env" and "exchange env ctx call req i sh = (a, sh')"
  shows "sh_targets sh' = sh_targets (upd_peer (call_balancer call) i enter sh)"
proof -
  let ?b = "call_balancer call"
  let ?s = "count record_proxy_attempt (upd_peer ?b i enter sh)"
  have "sh_targets sh' = sh_targets ?s"
  proof (cases "at_request a")
    case None
    then show ?thesis using assms(2)
      by (auto simp: exchange_def forward_to_peer_def Let_def split: option.splits prod.splits)
  next
    case (Some out)
    then have "sh' = snd (pe_send env (pick_client call) out (effective_read call) ?s)" using assms(2)
      by (auto simp: exchange_def forward_to_peer_def Let_def split: option.splits prod.splits)
    then show ?thesis using assms(1) by (simp add: undisturbed_def)
  qed
  then show ?thesis by (simp add: count_def)
qed

text \<open>Between the entering and the dropping of a guard, everything cancels.\<close>

lemma flights_round:
  assumes "undisturbed env" and "call_balancer call < length (flights sh)"
    and "pick_inner hash now ip ex (get_bal (call_balancer call) sh) = (Some i, bal)"
    and "exchange env ctx call req i (set_bal (call_balancer call) bal sh) = (a, sh1)"
  shows "flights (upd_peer (call_balancer call) i inflight_drop (charge_failure env (call_balancer call) i sh1)) = flights sh"
    and "sh_targets sh2 = sh_targets (upd_peer (call_balancer call) i record_success sh1) \<Longrightarrow>
      flights (upd_peer (call_balancer call) i inflight_drop sh2) = flights sh"
proof -
  let ?b = "call_balancer call"
  let ?sh0 = "set_bal ?b bal sh"
  have f0: "flights ?sh0 = flights sh"
    by (rule flights_set_bal) (simp add: pick_inner_frame[OF assms(3)])
  have "i < length (bal_peers (get_bal ?b sh))" using pool_of_props(1)[OF pick_inner_pool[OF assms(3)]] .
  then have i: "i < length (flights sh ! ?b)" using assms(2) by (simp add: flights_def get_bal_def)
  have f1: "flights sh1 = flight_at ?b i (\<lambda>x. x + 1) (flights sh)"
    using flights_targets[OF exchange_targets[OF assms(1,4)]]
      flights_upd_peer[of enter "\<lambda>x. x + 1" ?b ?sh0 i] assms(2) i f0 by (simp add: enter_def)
  have bi: "?b < length (flights sh1)" "i < length (flights sh1 ! ?b)"
    using assms(2) i by (simp_all add: f1 flight_at_def)
  have drop: "flights (upd_peer ?b i inflight_drop s) = flights sh" if "flights s = flights sh1" for s
    using flights_upd_peer[of inflight_drop "\<lambda>x. x - 1" ?b s i] that bi
      flight_at_inverse[of ?b "flights sh" i] assms(2) i f1 by (simp add: inflight_drop_def)
  have keep: "flights (upd_peer ?b i f sh1) = flights sh1" if "\<And>p. p_in_flight (f p) = p_in_flight p" for f
    using flights_upd_peer[of f "\<lambda>x. x" ?b sh1 i] that bi by simp
  show "flights (upd_peer ?b i inflight_drop (charge_failure env ?b i sh1)) = flights sh"
    by (rule drop) (simp add: charge_failure_def keep record_failure_def Let_def)
  show "flights (upd_peer ?b i inflight_drop sh2) = flights sh"
    if "sh_targets sh2 = sh_targets (upd_peer ?b i record_success sh1)"
    by (rule drop) (simp add: flights_targets[OF that] keep record_success_def)
qed

lemma forward_loop_flights:
  assumes "undisturbed env"
  shows "call_balancer call < length (flights sh) \<Longrightarrow>
    forward_loop env ctx call parts n ex l sh = (r, tried, sh') \<Longrightarrow> flights sh' = flights sh"
proof (induction n arbitrary: ex l sh r tried)
  case (Suc n)
  from Suc.prems(2) show ?case
  proof (cases rule: forward_loop_cases)
    case (no_peer bal)
    then show ?thesis using pick_inner_none_same[OF no_peer(1)] by simp
  next
    case (answered i bal a sh1 resp sh2)
    from flights_round(2)[OF assms Suc.prems(1) answered(1,2) maybe_cache_targets[OF assms answered(5)]]
    show ?thesis by (simp add: answered(7))
  next
    case (failed i bal a sh1 tried')
    note fr = flights_round(1)[OF assms Suc.prems(1) failed(1,2)]
    from Suc.IH[OF _ failed(4)] Suc.prems(1) show ?thesis by (simp add: fr)
  qed
qed simp

text \<open>C29: A request that runs undisturbed leaves the number of requests in flight of every peer of every
  balancer as it was, whether it was answered from the cache, by a peer at the first or a later attempt,
  or not at all.\<close>

theorem forward_flights_restored:
  assumes "undisturbed env" and "call_balancer call < length (ts_heap (sh_targets sh))"
    and "forward env ctx call req sh = (r, tried, sh')"
  shows "flights sh' = flights sh"
proof (cases "cache_lookup env ctx call req sh")
  case (Pair hit sh1)
  have "sh1 = snd (cache_lookup env ctx call req sh)" using Pair by simp
  then have f1: "flights sh1 = flights sh" by (simp add: cache_lookup_def Let_def split: option.splits)
  then have b: "call_balancer call < length (flights sh1)" using assms(2) by (simp add: flights_def)
  consider "hit \<noteq> None" "sh' = sh1" | n where "forward_loop env ctx call req n [] None sh1 = (r, tried, sh')"
    | "forward_once env ctx call req sh1 = (r, tried, sh')"
    using assms(3) Pair by (auto simp: forward_def split: option.splits if_splits)
  then show ?thesis
  proof cases
    case 1
    then show ?thesis by (simp add: f1)
  next
    case 2
    from forward_loop_flights[OF assms(1) b this] show ?thesis by (simp add: f1)
  next
    case 3
    then show ?thesis
    proof (cases rule: forward_once_cases)
      case (no_peer bal)
      then show ?thesis using pick_inner_none_same[OF no_peer(1)] by (simp add: f1)
    next
      case (tried i bal a sh2)
      note fr = flights_round[OF assms(1) b tried(1,2)]
      show ?thesis
        using fr(1) fr(2)[of "upd_peer (call_balancer call) i record_success sh2"] by (simp add: tried(5) f1)
    qed
  qed
qed

theorem forward_flights_restored_witness:
  "flights (snd (snd (forward demo_env demo_ctx demo_call demo_request (demo_shared [None])))) = [[0]]"
proof -
  have u: "undisturbed demo_env" by (simp add: undisturbed_def demo_env_def)
  have b: "call_balancer demo_call < length (ts_heap (sh_targets (demo_shared [None])))" by code_simp
  obtain r tried sh' where f: "forward demo_env demo_ctx demo_call demo_request (demo_shared [None]) = (r, tried, sh')"
    by (metis prod_cases3)
  have "flights (demo_shared [None]) = [[0]]"
    by (simp add: flights_def demo_shared_def direct_balancer_def fresh_peer_def)
  with forward_flights_restored[OF u b f] show ?thesis by (simp add: f)
qed

end
