(* ===== verification/Tls.thy ===== *)
theory Tls
  imports Config_Ast
begin

text \<open>
  TLS set-up (\<^verbatim>\<open>src/src/tls.rs\<close>): loading certificate chains and keys, and the server
  configuration with its choice of a certificate by server name. The PEM reader, the test whether a
  key can sign and the acceptance of a client identity are library functions and
  arguments (\<open>tls_ops\<close>); a certified key is the chain and the key it is made of. The
  configuration a listener gets is the protocol versions, the resolver and the list of application
  protocols; with no versions given the library offers both.

  Shown here: a configuration is built exactly when there is an entry and each loads, and
  the certificate offered to a client is that of the entry a plain specification picks.
\<close>

record cert_entry =
  ce_server_name :: "string option"
  ce_cert_path :: string
  ce_key_path :: string

record tls_ops =
  tls_open :: "string \<Rightarrow> string option"
  pem_certs :: "string \<Rightarrow> string option list"
  pem_private_key :: "string \<Rightarrow> string option option"
  any_supported_type :: "string \<Rightarrow> bool"
  client_auth_cert :: "string list \<Rightarrow> string \<Rightarrow> bool"

datatype tls_error =
    Cert_unopenable string | Cert_unparsable string | No_certificates string
  | Key_unopenable string | Key_unparsable string | No_private_key string | Invalid_key string
  | No_tls_entries | Mtls_rejected

definition load_certs :: "tls_ops \<Rightarrow> string \<Rightarrow> tls_error + string list" where
  "load_certs T path =
     and_then (ok_or (Cert_unopenable path) (tls_open T path)) (\<lambda>f.
     and_then (map_res (ok_or (Cert_unparsable path)) (pem_certs T f)) (\<lambda>out.
     if out = [] then Inl (No_certificates path) else Inr out))"

definition load_key :: "tls_ops \<Rightarrow> string \<Rightarrow> tls_error + string" where
  "load_key T path =
     and_then (ok_or (Key_unopenable path) (tls_open T path)) (\<lambda>f.
     and_then (ok_or (Key_unparsable path) (pem_private_key T f)) (\<lambda>k.
     ok_or (No_private_key path) k))"

type_synonym certified_key = "string list \<times> string"

definition build_certified :: "tls_ops \<Rightarrow> cert_entry \<Rightarrow> tls_error + certified_key" where
  "build_certified T entry =
     and_then (load_certs T (ce_cert_path entry)) (\<lambda>chain.
     and_then (load_key T (ce_key_path entry)) (\<lambda>key.
     if any_supported_type T key then Inr (chain, key) else Inl (Invalid_key (ce_key_path entry))))"

record sni_resolver =
  sni_by_name :: "certified_key smap"
  sni_default :: certified_key

definition resolve_cert :: "sni_resolver \<Rightarrow> string option \<Rightarrow> certified_key" where
  "resolve_cert r hello =
     (case hello of
        Some name \<Rightarrow>
          (case map_of (sni_by_name r) (to_ascii_lowercase name) of
             Some ck \<Rightarrow> ck
           | None \<Rightarrow> sni_default r)
      | None \<Rightarrow> sni_default r)"

text \<open>The loop over the entries: the table by name and the default.\<close>

definition resolver_step :: "tls_ops \<Rightarrow> cert_entry \<Rightarrow> certified_key smap \<times> certified_key option \<Rightarrow>
    tls_error + certified_key smap \<times> certified_key option" where
  "resolver_step T e st =
     and_then (build_certified T e) (\<lambda>ck.
     let dflt = (if snd st = None then Some ck else snd st)
     in Inr (case ce_server_name e of
               Some name \<Rightarrow> (AList.update (to_ascii_lowercase name) ck (fst st), dflt)
             | None \<Rightarrow> (fst st, dflt)))"

definition build_resolver :: "tls_ops \<Rightarrow> cert_entry list \<Rightarrow> tls_error + sni_resolver" where
  "build_resolver T entries =
     (if entries = [] then Inl No_tls_entries
      else and_then (fold_res (resolver_step T) entries ([], None)) (\<lambda>(by_name, dflt).
             Inr \<lparr>sni_by_name = by_name, sni_default = the dflt\<rparr>))"

record server_config =
  tc_versions :: "tls_version list"
  tc_resolver :: sni_resolver
  tc_alpn :: "string list"

definition build_server_config :: "tls_ops \<Rightarrow> cert_entry list \<Rightarrow> tls_version list \<Rightarrow>
    tls_error + server_config" where
  "build_server_config T entries protocols =
     and_then (build_resolver T entries) (\<lambda>resolver.
     Inr \<lparr>tc_versions = (if protocols = [] then [Tls12, Tls13] else protocols),
          tc_resolver = resolver, tc_alpn = [''h2'', ''http/1.1'']\<rparr>)"

definition build_h3_server_config :: "tls_ops \<Rightarrow> cert_entry list \<Rightarrow> tls_error + server_config" where
  "build_h3_server_config T entries =
     and_then (build_resolver T entries) (\<lambda>resolver.
     Inr \<lparr>tc_versions = [Tls13], tc_resolver = resolver, tc_alpn = [''h3'']\<rparr>)"

definition single_server_config :: "tls_ops \<Rightarrow> string \<Rightarrow> string \<Rightarrow> tls_error + server_config" where
  "single_server_config T cert_path key_path =
     build_server_config T [\<lparr>ce_server_name = None, ce_cert_path = cert_path, ce_key_path = key_path\<rparr>] []"

section \<open>The specification\<close>

text \<open>Which entry serves a client: the last one with the name it asks for, without regard to case, or
  else the first of all.\<close>

definition named :: "string \<Rightarrow> cert_entry \<Rightarrow> bool" where
  "named name e \<longleftrightarrow> map_option to_ascii_lowercase (ce_server_name e) = Some (to_ascii_lowercase name)"

definition sni_choice :: "cert_entry list \<Rightarrow> string option \<Rightarrow> cert_entry" where
  "sni_choice entries hello =
     (case Option.bind hello (\<lambda>name. find (named name) (rev entries)) of
        Some e \<Rightarrow> e
      | None \<Rightarrow> hd entries)"

text \<open>The state of the loop after some entries.\<close>

definition resolver_inv :: "tls_ops \<Rightarrow> cert_entry list \<Rightarrow> certified_key smap \<times> certified_key option \<Rightarrow> bool" where
  "resolver_inv T es st \<longleftrightarrow>
     (\<forall>e \<in> set es. \<exists>ck. build_certified T e = Inr ck) \<and>
     (\<forall>name. map_of (fst st) (to_ascii_lowercase name) =
        map_option (\<lambda>e. projr (build_certified T e)) (find (named name) (rev es))) \<and>
     snd st = (case es of [] \<Rightarrow> None | e # _ \<Rightarrow> Some (projr (build_certified T e)))"

lemma find_append: "find P (xs @ ys) = (case find P xs of Some x \<Rightarrow> Some x | None \<Rightarrow> find P ys)"
  by (induction xs) auto

lemma resolver_step_inv:
  assumes "resolver_inv T es st" and "resolver_step T e st = Inr st'"
  shows "resolver_inv T (es @ [e]) st'"
proof -
  from assms(2) obtain ck where ck: "build_certified T e = Inr ck"
    by (auto simp: resolver_step_def and_then_Inr_iff)
  have st': "st' = (case ce_server_name e of
      Some name \<Rightarrow> (AList.update (to_ascii_lowercase name) ck (fst st), if snd st = None then Some ck else snd st)
    | None \<Rightarrow> (fst st, if snd st = None then Some ck else snd st))"
    using assms(2) ck by (simp add: resolver_step_def Let_def)
  have "map_of (fst st') (to_ascii_lowercase name) =
      map_option (\<lambda>e. projr (build_certified T e)) (find (named name) (rev (es @ [e])))" for name
    using assms(1) ck by (auto simp: st' resolver_inv_def named_def update_conv' split: option.splits)
  moreover have "snd st' = (case es @ [e] of [] \<Rightarrow> None | e # _ \<Rightarrow> Some (projr (build_certified T e)))"
    using assms(1) ck by (auto simp: st' resolver_inv_def split: option.splits list.splits)
  ultimately show ?thesis using assms(1) ck by (auto simp: resolver_inv_def)
qed

lemma resolver_loop:
  "fold_res (resolver_step T) es st = Inr st' \<Longrightarrow> resolver_inv T ds st \<Longrightarrow> resolver_inv T (ds @ es) st'"
proof (induction es arbitrary: ds st)
  case (Cons e es)
  from Cons.prems(1) obtain st1 where s: "resolver_step T e st = Inr st1" "fold_res (resolver_step T) es st1 = Inr st'"
    by (auto simp: and_then_Inr_iff)
  from Cons.IH[OF s(2) resolver_step_inv[OF Cons.prems(2) s(1)]] show ?case by simp
qed simp

lemma resolver_step_total:
  "build_certified T e = Inr ck \<Longrightarrow> \<exists>st'. resolver_step T e st = Inr st'"
  by (simp add: resolver_step_def Let_def)

lemma resolver_loop_total:
  "\<forall>e \<in> set es. \<exists>ck. build_certified T e = Inr ck \<Longrightarrow> \<exists>st'. fold_res (resolver_step T) es st = Inr st'"
proof (induction es arbitrary: st)
  case (Cons e es)
  then obtain ck where "build_certified T e = Inr ck" by auto
  then obtain st1 where "resolver_step T e st = Inr st1" using resolver_step_total by blast
  with Cons show ?case by simp
qed simp

lemma build_resolver_choice:
  assumes "build_resolver T entries = Inr r"
  shows "build_certified T (sni_choice entries hello) = Inr (resolve_cert r hello)"
proof -
  from assms obtain by_name dflt where ne: "entries \<noteq> []"
    and f: "fold_res (resolver_step T) entries ([], None) = Inr (by_name, dflt)"
    and r: "r = \<lparr>sni_by_name = by_name, sni_default = the dflt\<rparr>"
    by (auto simp: build_resolver_def and_then_Inr_iff split: if_splits)
  have "resolver_inv T [] ([], None)" by (simp add: resolver_inv_def)
  from resolver_loop[OF f this] have inv: "resolver_inv T entries (by_name, dflt)" by simp
  have ok: "build_certified T e = Inr (projr (build_certified T e))" if "e \<in> set entries" for e
    using inv that by (fastforce simp: resolver_inv_def)
  have hd: "sni_default r = projr (build_certified T (hd entries))"
    using inv ne by (cases entries) (simp_all add: resolver_inv_def r)
  have nm: "map_of (sni_by_name r) (to_ascii_lowercase name) =
      map_option (\<lambda>e. projr (build_certified T e)) (find (named name) (rev entries))" for name
    using inv by (simp add: resolver_inv_def r)
  have "sni_choice entries hello \<in> set entries"
  proof (cases "Option.bind hello (\<lambda>name. find (named name) (rev entries))")
    case (Some e)
    then obtain name where "find (named name) (rev entries) = Some e" by (auto simp: bind_eq_Some_conv)
    from find_Some_prop[OF this] Some show ?thesis by (simp add: sni_choice_def)
  qed (use ne in \<open>simp add: sni_choice_def\<close>)
  moreover have "resolve_cert r hello = projr (build_certified T (sni_choice entries hello))"
    by (auto simp: resolve_cert_def sni_choice_def nm hd split: option.splits bind_splits)
  ultimately show ?thesis using ok by simp
qed

text \<open>C23: The certificate a client is offered is the one the specification picks: a listener's TLS
  configuration is built exactly when it has an entry and every entry's chain and key load and the key
  can sign; a handshake then gets the certificate of the last entry whose server name is the one the
  client asks for, in any case of letters, and of the first entry when it asks for none or for one nobody
  has. Only the configured protocol versions are offered, both when none is configured, and HTTP/2
  before HTTP/1.1.\<close>

theorem server_config_refines_choice:
  "(case build_server_config T entries protocols of
      Inr cfg \<Rightarrow> entries \<noteq> [] \<and> list_all (\<lambda>e. \<not> isl (build_certified T e)) entries \<and>
        build_certified T (sni_choice entries hello) = Inr (resolve_cert (tc_resolver cfg) hello) \<and>
        tc_versions cfg = (if protocols = [] then [Tls12, Tls13] else protocols) \<and>
        tc_alpn cfg = [''h2'', ''http/1.1'']
    | Inl e \<Rightarrow> entries = [] \<or> list_ex (\<lambda>e. isl (build_certified T e)) entries)"
proof (cases "build_server_config T entries protocols")
  case (Inl e)
  have "entries = [] \<or> list_ex (\<lambda>e. isl (build_certified T e)) entries"
  proof (rule ccontr)
    assume n: "\<not> ?thesis"
    have "\<exists>ck. build_certified T e = Inr ck" if "e \<in> set entries" for e
      using n that by (cases "build_certified T e") (auto simp: list_ex_iff)
    then have "\<forall>e \<in> set entries. \<exists>ck. build_certified T e = Inr ck" by blast
    from resolver_loop_total[OF this, of "([], None)"] n Inl show False
      by (auto simp: build_server_config_def build_resolver_def and_then_Inl_iff)
  qed
  with Inl show ?thesis by simp
next
  case (Inr cfg)
  then obtain r where r: "build_resolver T entries = Inr r" and cfg: "cfg =
      \<lparr>tc_versions = (if protocols = [] then [Tls12, Tls13] else protocols), tc_resolver = r, tc_alpn = [''h2'', ''http/1.1'']\<rparr>"
    by (auto simp: build_server_config_def and_then_Inr_iff)
  have "entries \<noteq> []" "list_all (\<lambda>e. \<not> isl (build_certified T e)) entries"
  proof -
    from r show "entries \<noteq> []" by (auto simp: build_resolver_def)
    from r obtain st where "fold_res (resolver_step T) entries ([], None) = Inr st"
      by (auto simp: build_resolver_def and_then_Inr_iff split: if_splits)
    from resolver_loop[OF this, of "[]"] show "list_all (\<lambda>e. \<not> isl (build_certified T e)) entries"
      by (auto simp: resolver_inv_def list_all_iff isl_def)
  qed
  then show ?thesis using build_resolver_choice[OF r] by (simp add: Inr cfg)
qed

end
