(* ===== verification/App.thy ===== *)
theory App
  imports Config_Build Access Auth Proxy Limit Tls
begin

text \<open>
  The run-time model and its construction from a configuration (\<^verbatim>\<open>src/src/app.rs\<close>): the choice
  of the virtual host and of the location of a request, and \<^verbatim>\<open>build\<close>, which lowers a
  configuration into listeners, balancers, zones and stores.

  What the source shares by reference counting lives in lists, and a reference is an index: the
  balancers and memo tables of the dynamic targets (\<open>target_state\<close>), the cache stores and the zones
  of the limits. A health probe that \<^verbatim>\<open>build\<close> starts is listed in \<open>rt_probes\<close>. The regular
  expressions are those of a library, of an arbitrary type, and so are an argument (\<open>app_env\<close>), as
  are the operations on headers, the files and the TLS library.
\<close>

section \<open>Locations\<close>

datatype static_kind = StaticRoot | StaticAlias string

datatype try_files_entry_rt = RtPath template | RtStatus nat

record limit_req_apply =
  lra_zone :: nat
  lra_burst :: nat

record limit_conn_apply =
  lca_zone :: nat
  lca_max_conn :: nat

datatype action_rt =
    RtReturn nat template
  | RtProxy proxy_target "(string \<times> template) list" "proxy_cache option"
  | RtStatic string static_kind
  | RtMetrics
  | RtTryFiles string "try_files_entry_rt list"

record location_rt =
  lr_path :: string
  lr_action :: action_rt
  lr_add_headers :: "(string \<times> template) list"
  lr_expires :: "duration option"
  lr_gzip :: "bool option"
  lr_autoindex :: bool
  lr_auth :: "auth_basic option"
  lr_limit_req :: "limit_req_apply option"
  lr_limit_conn :: "limit_conn_apply option"
  lr_access_rules :: "access_rule list"
  lr_proxy_connect_timeout :: "duration option"
  lr_proxy_read_timeout :: "duration option"
  lr_auth_request :: "template option"
  lr_mirrors :: "template list"
  lr_proxy_ssl_verify :: bool
  lr_proxy_client :: "proxy_client option"

section \<open>Servers and listeners\<close>

record 'r server_state =
  sv_server_name :: "string option"
  sv_scheme :: string
  sv_gzip :: bool
  sv_gzip_types :: "string list"
  sv_gzip_min_length :: nat
  sv_maps :: "map_decl list"
  sv_client_max_body_size :: nat
  sv_h3_advertised_port :: "nat option"
  sv_exact_locs :: "location_rt list"
  sv_regex_locs :: "('r \<times> location_rt) list"
  sv_prefix_locs :: "location_rt list"

record 'r virtual_host =
  vh_server_name :: "string option"
  vh_state :: "'r server_state"

record 'r listener_cfg =
  lc_addr :: socket_addr
  lc_vhosts :: "'r virtual_host list"
  lc_tls :: "server_config option"
  lc_h3_tls :: "server_config option"
  lc_tls_paths :: "cert_entry list"

definition prefix_matches :: "string \<Rightarrow> location_rt \<Rightarrow> bool" where
  "prefix_matches path l \<longleftrightarrow> lr_path l = ''/'' \<or> starts_with path (lr_path l)"

definition route :: "('r \<Rightarrow> string \<Rightarrow> bool) \<Rightarrow> 'r server_state \<Rightarrow> string \<Rightarrow> location_rt option" where
  "route is_match st path =
     (case find (\<lambda>l. lr_path l = path) (sv_exact_locs st) of
        Some l \<Rightarrow> Some l
      | None \<Rightarrow>
          (case find (\<lambda>(re, l). is_match re path) (sv_regex_locs st) of
             Some (re, l) \<Rightarrow> Some l
           | None \<Rightarrow> find (prefix_matches path) (sv_prefix_locs st)))"

definition pick_state :: "'r listener_cfg \<Rightarrow> string option \<Rightarrow> 'r server_state" where
  "pick_state cfg host_header =
     (case host_header of
        Some h \<Rightarrow>
          (let hst = to_ascii_lowercase (hd (split_char (CHR '':'') h))
           in case find (\<lambda>v. map_option to_ascii_lowercase (vh_server_name v) = Some hst) (lc_vhosts cfg) of
                Some v \<Rightarrow> vh_state v
              | None \<Rightarrow> vh_state (hd (lc_vhosts cfg)))
      | None \<Rightarrow> vh_state (hd (lc_vhosts cfg)))"

section \<open>Lowering\<close>

datatype app_error =
    No_http_block | Missing_listen | Unknown_cache_zone string | Unknown_limit_req_zone string
  | Unknown_limit_conn_zone string | Bad_access_rule string access_error | Bad_header_name string
  | Auth_load_failed auth_error | Mtls_failed tls_error | Bad_regex string
  | Missing_ssl_certificate | Missing_ssl_certificate_key | Mixed_tls socket_addr | Tls_failed tls_error
  | Stream_missing_listen | Stream_missing_proxy_pass | No_server_blocks

record ('h, 'r) app_env =
  ae_headers :: "'h header_ops"
  ae_regex :: "string \<Rightarrow> bool \<Rightarrow> 'r option"
  ae_files :: file_system
  ae_tls :: tls_ops
  ae_order :: "'r listener_cfg list \<Rightarrow> 'r listener_cfg list"

definition compile_headers :: "'h header_ops \<Rightarrow> (string \<times> template) list \<Rightarrow>
    app_error + (string \<times> template) list" where
  "compile_headers H items =
     map_res (\<lambda>(name, tmpl). and_then (ok_or (Bad_header_name name) (hn_from_str H name)) (\<lambda>h. Inr (h, tmpl))) items"

definition with_mtls :: "tls_ops \<Rightarrow> string \<Rightarrow> string \<Rightarrow> bool \<Rightarrow> tls_error + proxy_client" where
  "with_mtls T cert_path key_path verify =
     and_then (load_certs T cert_path) (\<lambda>chain.
     and_then (load_key T key_path) (\<lambda>key.
     if client_auth_cert T chain key
     then Inr \<lparr>pcl_cert = cert_path, pcl_key = key_path, pcl_verify = verify\<rparr>
     else Inl Mtls_rejected))"

text \<open>A fresh balancer for an upstream, and the target of a \<^verbatim>\<open>proxy_pass\<close>.\<close>

definition upstream_peer :: "upstream_server \<Rightarrow> peer" where
  "upstream_peer s = \<lparr>p_addr = us_addr s, p_weight = of_nat (us_weight s), p_max_fails = of_nat (us_max_fails s),
     p_fail_timeout = us_fail_timeout s, p_backup = us_backup s, p_down = us_down s, p_in_flight = 0,
     p_consecutive_failures = 0, p_failed_until_ms = 0\<rparr>"

definition upstream_balancer :: "upstream \<Rightarrow> balancer" where
  "upstream_balancer up = \<lparr>bal_name = up_name up, bal_method = up_method up,
     bal_peers = map upstream_peer (up_servers up), bal_scheme = ''http'', bal_rr_counter = 0\<rparr>"

text \<open>A table from names to positions: a later declaration of a name replaces the earlier one.\<close>

definition index_names :: "nat \<Rightarrow> string list \<Rightarrow> nat smap" where
  "index_names base names = fold (\<lambda>(i, n). AList.update n i) (enumerate base names) []"

definition resolve_proxy :: "string \<Rightarrow> nat smap \<Rightarrow> target_state \<Rightarrow> nat \<times> target_state" where
  "resolve_proxy target balancers ts =
     (let (scheme, rest) =
            (case strip_prefix ''https://'' target of
               Some s \<Rightarrow> (''https'', s)
             | None \<Rightarrow>
                 (case strip_prefix ''http://'' target of
                    Some s \<Rightarrow> (''http'', s)
                  | None \<Rightarrow> (''http'', target)));
          hst = trim_end_matches (CHR ''/'') rest
      in case map_of balancers hst of
           Some b \<Rightarrow> (b, ts)
         | None \<Rightarrow>
             (length (ts_heap ts), ts\<lparr>ts_heap := ts_heap ts @ [direct_balancer scheme hst]\<rparr>))"

text \<open>The tables the locations are lowered against.\<close>

record tables =
  tb_cache :: "nat smap"
  tb_limit_req :: "nat smap"
  tb_limit_conn :: "nat smap"
  tb_balancers :: "nat smap"

definition default_cache_key :: string where
  "default_cache_key = ''$scheme$host$request_uri''"

definition lower_cache :: "tables \<Rightarrow> location \<Rightarrow> app_error + proxy_cache option" where
  "lower_cache tb loc =
     (case loc_proxy_cache loc of
        None \<Rightarrow> Inr None
      | Some zone_name \<Rightarrow>
          and_then (ok_or (Unknown_cache_zone zone_name) (map_of (tb_cache tb) zone_name)) (\<lambda>k.
          Inr (Some \<lparr>pc_store = k,
            pc_key_template = (case loc_proxy_cache_key loc of Some t \<Rightarrow> t | None \<Rightarrow> template_parse default_cache_key),
            pc_valid_rules = loc_proxy_cache_valid loc\<rparr>)))"

definition lower_target :: "tables \<Rightarrow> string \<Rightarrow> target_state \<Rightarrow> proxy_target \<times> target_state" where
  "lower_target tb target ts =
     (if CHR ''$'' \<in> set target
      then (Dynamic (template_parse target) (tb_balancers tb) (length (ts_ephemeral ts)),
            ts\<lparr>ts_ephemeral := ts_ephemeral ts @ [[]]\<rparr>)
      else let (b, ts') = resolve_proxy target (tb_balancers tb) ts in (Fixed b, ts'))"

fun lower_try_files_entry :: "try_files_entry \<Rightarrow> try_files_entry_rt" where
  "lower_try_files_entry (TPath t) = RtPath t"
| "lower_try_files_entry (TStatus c) = RtStatus c"

definition lower_action :: "'h header_ops \<Rightarrow> tables \<Rightarrow> location \<Rightarrow> target_state \<Rightarrow>
    app_error + action_rt \<times> target_state" where
  "lower_action H tb loc ts =
     (case loc_action loc of
        Return status body \<Rightarrow> Inr (RtReturn status body, ts)
      | Root dir \<Rightarrow> Inr (RtStatic dir StaticRoot, ts)
      | Alias dir \<Rightarrow> Inr (RtStatic dir (StaticAlias (loc_path loc)), ts)
      | ProxyPass target \<Rightarrow>
          and_then (lower_cache tb loc) (\<lambda>cache.
          let (tgt, ts') = lower_target tb target ts
          in and_then (compile_headers H (loc_set_headers loc)) (\<lambda>hs. Inr (RtProxy tgt hs cache, ts')))
      | Metrics \<Rightarrow> Inr (RtMetrics, ts)
      | TryFiles dir entries \<Rightarrow> Inr (RtTryFiles dir (map lower_try_files_entry entries), ts))"

definition lower_auth :: "file_system \<Rightarrow> location \<Rightarrow> app_error + auth_basic option" where
  "lower_auth fs loc =
     (case (loc_auth_basic_realm loc, loc_auth_basic_user_file loc) of
        (Some realm, Some file) \<Rightarrow> and_then (map_err Auth_load_failed (auth_load fs file realm)) (\<lambda>a. Inr (Some a))
      | _ \<Rightarrow> Inr None)"

definition lower_limit_req :: "tables \<Rightarrow> location \<Rightarrow> app_error + limit_req_apply option" where
  "lower_limit_req tb loc =
     (case loc_limit_req loc of
        None \<Rightarrow> Inr None
      | Some (zone_name, burst) \<Rightarrow>
          and_then (ok_or (Unknown_limit_req_zone zone_name) (map_of (tb_limit_req tb) zone_name)) (\<lambda>z.
          Inr (Some \<lparr>lra_zone = z, lra_burst = burst\<rparr>)))"

definition lower_limit_conn :: "tables \<Rightarrow> location \<Rightarrow> app_error + limit_conn_apply option" where
  "lower_limit_conn tb loc =
     (case loc_limit_conn loc of
        None \<Rightarrow> Inr None
      | Some (zone_name, max_conn) \<Rightarrow>
          and_then (ok_or (Unknown_limit_conn_zone zone_name) (map_of (tb_limit_conn tb) zone_name)) (\<lambda>z.
          Inr (Some \<lparr>lca_zone = z, lca_max_conn = max_conn\<rparr>)))"

definition lower_access :: "location \<Rightarrow> app_error + access_rule list" where
  "lower_access loc =
     map_res (\<lambda>(is_allow, target).
       and_then (map_err (Bad_access_rule (loc_path loc)) (parse_target target)) (\<lambda>t.
       Inr (if is_allow then rule_allow t else rule_deny t))) (loc_access_rules loc)"

definition lower_proxy_client :: "tls_ops \<Rightarrow> location \<Rightarrow> app_error + proxy_client option" where
  "lower_proxy_client T loc =
     (case (loc_proxy_ssl_certificate loc, loc_proxy_ssl_certificate_key loc) of
        (Some cert, Some key) \<Rightarrow>
          and_then (map_err Mtls_failed (with_mtls T cert key (loc_proxy_ssl_verify loc))) (\<lambda>c. Inr (Some c))
      | _ \<Rightarrow> Inr None)"

definition lower_location :: "('h, 'r) app_env \<Rightarrow> tables \<Rightarrow> (string \<times> template) list \<Rightarrow> location \<Rightarrow> target_state \<Rightarrow>
    app_error + location_rt \<times> target_state" where
  "lower_location env tb server_headers loc ts =
     and_then (lower_action (ae_headers env) tb loc ts) (\<lambda>(act, ts').
     and_then (lower_auth (ae_files env) loc) (\<lambda>auth.
     and_then (lower_limit_req tb loc) (\<lambda>lreq.
     and_then (lower_limit_conn tb loc) (\<lambda>lconn.
     and_then (lower_access loc) (\<lambda>rules.
     and_then (compile_headers (ae_headers env) (server_headers @ loc_add_headers loc)) (\<lambda>hs.
     and_then (lower_proxy_client (ae_tls env) loc) (\<lambda>pclient.
     Inr (\<lparr>lr_path = loc_path loc, lr_action = act, lr_add_headers = hs, lr_expires = loc_expires loc,
       lr_gzip = loc_gzip loc, lr_autoindex = loc_autoindex loc, lr_auth = auth, lr_limit_req = lreq,
       lr_limit_conn = lconn, lr_access_rules = rules,
       lr_proxy_connect_timeout = loc_proxy_connect_timeout loc,
       lr_proxy_read_timeout = loc_proxy_read_timeout loc, lr_auth_request = loc_auth_request loc,
       lr_mirrors = loc_mirrors loc, lr_proxy_ssl_verify = loc_proxy_ssl_verify loc,
       lr_proxy_client = pclient\<rparr>, ts'))))))))"

text \<open>The three vectors of a server's locations, while they are filled.\<close>

record 'r loc_table =
  lt_exact :: "location_rt list"
  lt_regex :: "('r \<times> location_rt) list"
  lt_prefix :: "location_rt list"
  lt_targets :: target_state

definition place_location :: "('h, 'r) app_env \<Rightarrow> tables \<Rightarrow> (string \<times> template) list \<Rightarrow> location \<Rightarrow> 'r loc_table \<Rightarrow>
    app_error + 'r loc_table" where
  "place_location env tb server_headers loc lt =
     and_then (lower_location env tb server_headers loc (lt_targets lt)) (\<lambda>(l, ts).
     let lt' = lt\<lparr>lt_targets := ts\<rparr>
     in case loc_kind loc of
          Exact \<Rightarrow> Inr (lt'\<lparr>lt_exact := lt_exact lt @ [l]\<rparr>)
        | Regex pattern case_insensitive \<Rightarrow>
            and_then (ok_or (Bad_regex pattern) (ae_regex env pattern case_insensitive)) (\<lambda>re.
            Inr (lt'\<lparr>lt_regex := lt_regex lt @ [(re, l)]\<rparr>))
        | Prefix \<Rightarrow> Inr (lt'\<lparr>lt_prefix := lt_prefix lt @ [l]\<rparr>))"

definition sort_prefix_locs :: "location_rt list \<Rightarrow> location_rt list" where
  "sort_prefix_locs ls = sort_key (\<lambda>l. - int (length (lr_path l))) ls"

definition lower_cert :: "server \<Rightarrow> app_error + cert_entry option" where
  "lower_cert s =
     (if srv_tls s then
        and_then (ok_or Missing_ssl_certificate (srv_ssl_certificate s)) (\<lambda>cert.
        and_then (ok_or Missing_ssl_certificate_key (srv_ssl_certificate_key s)) (\<lambda>key.
        Inr (Some \<lparr>ce_server_name = srv_server_name s, ce_cert_path = cert, ce_key_path = key\<rparr>)))
      else Inr None)"

definition default_client_max_body_size :: nat where
  "default_client_max_body_size = 1024 * 1024"

definition or_default :: "'a \<Rightarrow> 'a option \<Rightarrow> 'a" where
  "or_default d m = (case m of Some x \<Rightarrow> x | None \<Rightarrow> d)"

definition wants_h3 :: "http_block \<Rightarrow> socket_addr \<Rightarrow> bool" where
  "wants_h3 http addr \<longleftrightarrow> list_ex (\<lambda>s. srv_http3 s \<and> srv_listen s = Some addr) (http_servers http)"

type_synonym 'r staged = "socket_addr \<times> 'r virtual_host \<times> cert_entry option"

definition lower_server :: "('h, 'r) app_env \<Rightarrow> tables \<Rightarrow> http_block \<Rightarrow> server \<Rightarrow> target_state \<Rightarrow>
    app_error + 'r staged \<times> target_state" where
  "lower_server env tb http s ts =
     and_then (ok_or Missing_listen (srv_listen s)) (\<lambda>addr.
     and_then (fold_res (place_location env tb (srv_add_headers s)) (srv_locations s)
       \<lparr>lt_exact = [], lt_regex = [], lt_prefix = [], lt_targets = ts\<rparr>) (\<lambda>lt.
     and_then (lower_cert s) (\<lambda>cert.
     let st = \<lparr>sv_server_name = srv_server_name s, sv_scheme = (if srv_tls s then ''https'' else ''http''),
                sv_gzip = or_default False (srv_gzip s), sv_gzip_types = srv_gzip_types s,
                sv_gzip_min_length = or_default 20 (srv_gzip_min_length s), sv_maps = http_maps http,
                sv_client_max_body_size = or_default default_client_max_body_size (srv_client_max_body_size s),
                sv_h3_advertised_port = (if wants_h3 http addr then Some (sa_port addr) else None),
                sv_exact_locs = lt_exact lt, sv_regex_locs = lt_regex lt,
                sv_prefix_locs = sort_prefix_locs (lt_prefix lt)\<rparr>
     in Inr ((addr, \<lparr>vh_server_name = srv_server_name s, vh_state = st\<rparr>, cert), lt_targets lt))))"

definition stage_server :: "('h, 'r) app_env \<Rightarrow> tables \<Rightarrow> http_block \<Rightarrow> server \<Rightarrow> 'r staged list \<times> target_state \<Rightarrow>
    app_error + 'r staged list \<times> target_state" where
  "stage_server env tb http s st =
     and_then (lower_server env tb http s (snd st)) (\<lambda>(x, ts). Inr (fst st @ [x], ts))"

section \<open>Grouping by address\<close>

text \<open>The listeners in the order their addresses were first seen.\<close>

definition empty_listener :: "socket_addr \<Rightarrow> 'r listener_cfg" where
  "empty_listener addr = \<lparr>lc_addr = addr, lc_vhosts = [], lc_tls = None, lc_h3_tls = None, lc_tls_paths = []\<rparr>"

definition group_one :: "'r staged \<Rightarrow> (socket_addr \<times> 'r listener_cfg) list \<Rightarrow>
    app_error + (socket_addr \<times> 'r listener_cfg) list" where
  "group_one x m =
     (case x of (addr, vhost, cert) \<Rightarrow>
        (let entry = (case map_of m addr of Some l \<Rightarrow> l | None \<Rightarrow> empty_listener addr)
         in if lc_vhosts entry \<noteq> [] \<and> (lc_tls_paths entry = []) \<noteq> (cert = None) then Inl (Mixed_tls addr)
            else Inr (AList.update addr
                   (entry\<lparr>lc_tls_paths := lc_tls_paths entry @ (case cert of Some c \<Rightarrow> [c] | None \<Rightarrow> []),
                          lc_vhosts := lc_vhosts entry @ [vhost]\<rparr>) m)))"

definition protocols_for :: "http_block \<Rightarrow> socket_addr \<Rightarrow> tls_version list" where
  "protocols_for http addr =
     remdups_adj (sort_key (\<lambda>p. p = Tls13)
       (concat (map srv_ssl_protocols (filter (\<lambda>s. srv_listen s = Some addr \<and> srv_tls s) (http_servers http)))))"

definition materialize_tls :: "tls_ops \<Rightarrow> http_block \<Rightarrow> 'r listener_cfg \<Rightarrow> app_error + 'r listener_cfg" where
  "materialize_tls T http cfg =
     (if lc_tls_paths cfg = [] then Inr cfg
      else and_then (map_err Tls_failed (build_server_config T (lc_tls_paths cfg) (protocols_for http (lc_addr cfg)))) (\<lambda>tls.
           let cfg' = cfg\<lparr>lc_tls := Some tls\<rparr>
           in if wants_h3 http (lc_addr cfg)
              then and_then (map_err Tls_failed (build_h3_server_config T (lc_tls_paths cfg))) (\<lambda>h3.
                   Inr (cfg'\<lparr>lc_h3_tls := Some h3\<rparr>))
              else Inr cfg'))"

text \<open>The hash map is visited in some order, which only decides which failure is reported.\<close>

definition materialize_all :: "('h, 'r) app_env \<Rightarrow> http_block \<Rightarrow> 'r listener_cfg list \<Rightarrow> app_error + 'r listener_cfg list" where
  "materialize_all env http ls =
     and_then (map_res (materialize_tls (ae_tls env) http) (ae_order env ls)) (\<lambda>_.
     map_res (materialize_tls (ae_tls env) http) ls)"

section \<open>The whole\<close>

record 'r runtime =
  rt_listeners :: "'r listener_cfg list"
  rt_stream_servers :: "(socket_addr \<times> nat \<times> bool) list"
  rt_targets :: target_state
  rt_stores :: "cache_store list"
  rt_limit_req_zones :: "limit_req_zone list"
  rt_limit_conn_zones :: "limit_conn_zone list"
  rt_probes :: "(nat \<times> health_check_cfg) list"

definition build_tables :: "http_block \<Rightarrow> tables" where
  "build_tables http = \<lparr>
     tb_cache = index_names 0 (map cz_name (http_cache_zones http)),
     tb_limit_req = index_names 0 (map lrz_name (http_limit_req_zones http)),
     tb_limit_conn = index_names 0 (map lcz_name (http_limit_conn_zones http)),
     tb_balancers = index_names 0 (map up_name (http_upstreams http))\<rparr>"

definition build_probes :: "upstream list \<Rightarrow> (nat \<times> health_check_cfg) list" where
  "build_probes ups =
     concat (map (\<lambda>(i, up). case up_health_check up of Some hc \<Rightarrow> [(i, hc)] | None \<Rightarrow> []) (enumerate 0 ups))"

definition add_stream_server :: "nat smap \<Rightarrow> stream_server \<Rightarrow> (socket_addr \<times> nat \<times> bool) list \<times> target_state \<Rightarrow>
    app_error + (socket_addr \<times> nat \<times> bool) list \<times> target_state" where
  "add_stream_server balancers s st =
     and_then (ok_or Stream_missing_listen (ss_listen s)) (\<lambda>addr.
     and_then (ok_or Stream_missing_proxy_pass (ss_proxy_pass s)) (\<lambda>target.
     let (b, ts) = resolve_proxy target balancers (snd st)
     in Inr (fst st @ [(addr, b, ss_udp s)], ts)))"

definition build_stream_servers :: "stream_block option \<Rightarrow> target_state \<Rightarrow>
    app_error + (socket_addr \<times> nat \<times> bool) list \<times> target_state" where
  "build_stream_servers stream ts =
     (case stream of
        None \<Rightarrow> Inr ([], ts)
      | Some st \<Rightarrow>
          (let balancers = index_names (length (ts_heap ts)) (map up_name (st_upstreams st));
               ts' = ts\<lparr>ts_heap := ts_heap ts @ map upstream_balancer (st_upstreams st)\<rparr>
           in fold_res (add_stream_server balancers) (st_servers st) ([], ts')))"

definition build_runtime :: "('h, 'r) app_env \<Rightarrow> config \<Rightarrow> app_error + 'r runtime" where
  "build_runtime env cfg =
     and_then (ok_or No_http_block (cfg_http cfg)) (\<lambda>http.
     let tb = build_tables http;
         ts0 = \<lparr>ts_heap = map upstream_balancer (http_upstreams http), ts_ephemeral = []\<rparr>
     in and_then (fold_res (stage_server env tb http) (http_servers http) ([], ts0)) (\<lambda>(staged, ts1).
        and_then (fold_res group_one staged []) (\<lambda>groups.
        and_then (materialize_all env http (map snd groups)) (\<lambda>listeners.
        and_then (build_stream_servers (cfg_stream cfg) ts1) (\<lambda>(streams, ts2).
        if listeners = [] \<and> streams = [] then Inl No_server_blocks
        else Inr \<lparr>rt_listeners = listeners, rt_stream_servers = streams, rt_targets = ts2,
                  rt_stores = map (\<lambda>z. cache_store_new (cz_name z) (cz_max_bytes z)) (http_cache_zones http),
                  rt_limit_req_zones = map (\<lambda>z. limit_req_zone_new (lrz_name z) (lrz_key_template z)
                    (lrz_rate_per_sec z) (lrz_max_entries z)) (http_limit_req_zones http),
                  rt_limit_conn_zones = map (\<lambda>z. limit_conn_zone_new (lcz_name z) (lcz_key_template z)
                    (lcz_max_entries z)) (http_limit_conn_zones http),
                  rt_probes = build_probes (http_upstreams http)\<rparr>)))))"

section \<open>Routing\<close>

text \<open>Searching a sorted list is choosing the first minimum among the matches.\<close>

lemma hd_sort_key: "min_by_key f xs = (case sort_key f xs of [] \<Rightarrow> None | y # ys \<Rightarrow> Some y)"
  by (induction xs) (auto split: list.splits)

lemma find_as_hd: "find P xs = (case filter P xs of [] \<Rightarrow> None | y # ys \<Rightarrow> Some y)"
  by (induction xs) auto

lemma find_sort_key: "find P (sort_key f xs) = min_by_key f (filter P xs)"
  by (simp add: find_as_hd hd_sort_key filter_sort)

lemma find_filter: "find P (filter Q xs) = find (\<lambda>x. Q x \<and> P x) xs"
  by (induction xs) auto

lemma find_list_all2:
  "list_all2 R xs ys \<Longrightarrow> (\<And>x y. R x y \<Longrightarrow> P x = Q y) \<Longrightarrow> rel_option R (find P xs) (find Q ys)"
  by (induction rule: list_all2_induct) auto

lemma min_by_key_list_all2:
  assumes "\<And>x y. R x y \<Longrightarrow> f x = g y"
  shows "list_all2 R xs ys \<Longrightarrow> rel_option R (min_by_key f xs) (min_by_key g ys)"
proof (induction rule: list_all2_induct)
  case (Cons x xs y ys)
  from Cons(3) Cons(1) assms show ?case
    by (cases "min_by_key f xs"; cases "min_by_key g ys") (auto)
qed simp

lemma filter_list_all2:
  "list_all2 R xs ys \<Longrightarrow> (\<And>x y. R x y \<Longrightarrow> P x = Q y) \<Longrightarrow> list_all2 R (filter P xs) (filter Q ys)"
  by (induction rule: list_all2_induct) auto

text \<open>The location of a request as the configuration means it: an exact one, else the first regular
  expression that matches, else the longest prefix, of equal ones the first.\<close>

definition loc_exact :: "string \<Rightarrow> location \<Rightarrow> bool" where
  "loc_exact path l \<longleftrightarrow> loc_kind l = Exact \<and> loc_path l = path"

definition loc_regex :: "(string \<Rightarrow> bool \<Rightarrow> 'r option) \<Rightarrow> ('r \<Rightarrow> string \<Rightarrow> bool) \<Rightarrow> string \<Rightarrow> location \<Rightarrow> bool" where
  "loc_regex compile is_match path l =
     (case loc_kind l of
        Regex pattern ci \<Rightarrow> (case compile pattern ci of Some re \<Rightarrow> is_match re path | None \<Rightarrow> False)
      | _ \<Rightarrow> False)"

definition loc_prefix :: "string \<Rightarrow> location \<Rightarrow> bool" where
  "loc_prefix path l \<longleftrightarrow> loc_kind l = Prefix \<and> (loc_path l = ''/'' \<or> starts_with path (loc_path l))"

definition route_spec :: "(string \<Rightarrow> bool \<Rightarrow> 'r option) \<Rightarrow> ('r \<Rightarrow> string \<Rightarrow> bool) \<Rightarrow> location list \<Rightarrow> string \<Rightarrow>
    location option" where
  "route_spec compile is_match locs path =
     (case find (loc_exact path) locs of
        Some l \<Rightarrow> Some l
      | None \<Rightarrow>
          (case find (loc_regex compile is_match path) locs of
             Some l \<Rightarrow> Some l
           | None \<Rightarrow> min_by_key (\<lambda>l. - int (length (loc_path l))) (filter (loc_prefix path) locs)))"

definition lowered :: "('h, 'r) app_env \<Rightarrow> tables \<Rightarrow> (string \<times> template) list \<Rightarrow> location \<Rightarrow> location_rt \<Rightarrow> bool" where
  "lowered env tb hs loc l \<longleftrightarrow> (\<exists>ts ts'. lower_location env tb hs loc ts = Inr (l, ts'))"

lemma lowered_path: "lowered env tb hs loc l \<Longrightarrow> lr_path l = loc_path loc"
  by (auto simp: lowered_def lower_location_def and_then_Inr_iff split: prod.splits)

definition is_regex :: "location \<Rightarrow> bool" where
  "is_regex l = (case loc_kind l of Regex _ _ \<Rightarrow> True | _ \<Rightarrow> False)"

definition lowered_regex :: "('h, 'r) app_env \<Rightarrow> tables \<Rightarrow> (string \<times> template) list \<Rightarrow> location \<Rightarrow> 'r \<times> location_rt \<Rightarrow> bool" where
  "lowered_regex env tb hs loc rl \<longleftrightarrow> lowered env tb hs loc (snd rl) \<and>
     (\<exists>pattern ci. loc_kind loc = Regex pattern ci \<and> ae_regex env pattern ci = Some (fst rl))"

definition table_inv :: "('h, 'r) app_env \<Rightarrow> tables \<Rightarrow> (string \<times> template) list \<Rightarrow> location list \<Rightarrow> 'r loc_table \<Rightarrow> bool" where
  "table_inv env tb hs locs lt \<longleftrightarrow>
     list_all2 (lowered env tb hs) (filter (\<lambda>l. loc_kind l = Exact) locs) (lt_exact lt) \<and>
     list_all2 (lowered_regex env tb hs) (filter is_regex locs) (lt_regex lt) \<and>
     list_all2 (lowered env tb hs) (filter (\<lambda>l. loc_kind l = Prefix) locs) (lt_prefix lt)"

lemma place_location_inv:
  assumes "table_inv env tb hs locs lt" and "place_location env tb hs loc lt = Inr lt'"
  shows "table_inv env tb hs (locs @ [loc]) lt'"
proof -
  from assms(2) obtain l ts where l: "lower_location env tb hs loc (lt_targets lt) = Inr (l, ts)"
    by (auto simp: place_location_def and_then_Inr_iff)
  then have lw: "lowered env tb hs loc l" by (auto simp: lowered_def)
  show ?thesis
  proof (cases "loc_kind loc")
    case (Regex pattern ci)
    with assms(2) l obtain re where "ae_regex env pattern ci = Some re" "lt' = lt\<lparr>lt_targets := ts, lt_regex := lt_regex lt @ [(re, l)]\<rparr>"
      by (auto simp: place_location_def and_then_Inr_iff ok_or_Inr_iff Let_def)
    with assms(1) lw Regex show ?thesis
      by (auto simp: table_inv_def is_regex_def lowered_regex_def intro!: list_all2_appendI)
  qed (use assms l lw in \<open>auto simp: place_location_def table_inv_def is_regex_def Let_def intro!: list_all2_appendI\<close>)
qed

lemma place_locations_inv:
  "fold_res (place_location env tb hs) ls lt = Inr lt' \<Longrightarrow> table_inv env tb hs locs lt \<Longrightarrow>
   table_inv env tb hs (locs @ ls) lt'"
proof (induction ls arbitrary: locs lt)
  case (Cons l ls)
  from Cons.prems(1) obtain lt1 where "place_location env tb hs l lt = Inr lt1"
    "fold_res (place_location env tb hs) ls lt1 = Inr lt'" by (auto simp: and_then_Inr_iff)
  with Cons.IH[of lt1 "locs @ [l]"] place_location_inv[OF Cons.prems(2)] show ?case by simp
qed simp

lemma lower_server_table:
  assumes "lower_server env tb http s ts = Inr ((addr, vh, cert), ts')"
  obtains lt where "table_inv env tb (srv_add_headers s) (srv_locations s) lt"
    "sv_exact_locs (vh_state vh) = lt_exact lt" "sv_regex_locs (vh_state vh) = lt_regex lt"
    "sv_prefix_locs (vh_state vh) = sort_prefix_locs (lt_prefix lt)"
proof -
  from assms obtain lt where f: "fold_res (place_location env tb (srv_add_headers s)) (srv_locations s)
      \<lparr>lt_exact = [], lt_regex = [], lt_prefix = [], lt_targets = ts\<rparr> = Inr lt"
    and v: "sv_exact_locs (vh_state vh) = lt_exact lt" "sv_regex_locs (vh_state vh) = lt_regex lt"
      "sv_prefix_locs (vh_state vh) = sort_prefix_locs (lt_prefix lt)"
    by (auto simp: lower_server_def and_then_Inr_iff Let_def)
  have "table_inv env tb (srv_add_headers s) [] \<lparr>lt_exact = [], lt_regex = [], lt_prefix = [], lt_targets = ts\<rparr>"
    by (simp add: table_inv_def)
  from place_locations_inv[OF f this] that v show thesis by simp
qed

text \<open>C3: Routing implements the configuration: for the state a server block is lowered to, the location
  a path is routed to is the lowering of the location the specification picks: an exact location
  with this path, else the first regular expression in the order of declaration that matches, else the
  longest prefix, the first one of several; and there is none exactly when there is none in the
  configuration.\<close>

theorem route_refines_spec:
  assumes "lower_server env tb http s ts = Inr ((addr, vh, cert), ts')"
  shows "rel_option (lowered env tb (srv_add_headers s))
    (route_spec (ae_regex env) is_match (srv_locations s) path) (route is_match (vh_state vh) path)"
proof -
  let ?L = "lowered env tb (srv_add_headers s)" and ?locs = "srv_locations s"
  obtain lt where inv: "table_inv env tb (srv_add_headers s) ?locs lt"
    and v: "sv_exact_locs (vh_state vh) = lt_exact lt" "sv_regex_locs (vh_state vh) = lt_regex lt"
      "sv_prefix_locs (vh_state vh) = sort_prefix_locs (lt_prefix lt)" by (rule lower_server_table[OF assms])
  have e: "rel_option ?L (find (loc_exact path) ?locs) (find (\<lambda>l. lr_path l = path) (lt_exact lt))"
    using find_list_all2[of ?L "filter (\<lambda>l. loc_kind l = Exact) ?locs" "lt_exact lt"
        "\<lambda>l. loc_path l = path" "\<lambda>l. lr_path l = path"] inv
    by (simp add: table_inv_def find_filter loc_exact_def[abs_def] lowered_path)
  have "rel_option (lowered_regex env tb (srv_add_headers s))
      (find (loc_regex (ae_regex env) is_match path) (filter is_regex ?locs)) (find (\<lambda>(re, l). is_match re path) (lt_regex lt))"
    by (rule find_list_all2) (use inv in \<open>auto simp: table_inv_def lowered_regex_def loc_regex_def\<close>)
  moreover have "find (loc_regex (ae_regex env) is_match path) (filter is_regex ?locs) =
      find (loc_regex (ae_regex env) is_match path) ?locs"
    unfolding find_filter by (rule arg_cong[where f = "\<lambda>P. find P ?locs"])
      (auto simp: loc_regex_def is_regex_def fun_eq_iff split: location_kind.splits)
  ultimately have r: "rel_option (lowered_regex env tb (srv_add_headers s))
      (find (loc_regex (ae_regex env) is_match path) ?locs) (find (\<lambda>(re, l). is_match re path) (lt_regex lt))" by simp
  have "list_all2 ?L (filter (\<lambda>l. loc_path l = ''/'' \<or> starts_with path (loc_path l)) (filter (\<lambda>l. loc_kind l = Prefix) ?locs))
      (filter (prefix_matches path) (lt_prefix lt))"
    by (rule filter_list_all2) (use inv in \<open>auto simp: table_inv_def prefix_matches_def lowered_path\<close>)
  then have "list_all2 ?L (filter (loc_prefix path) ?locs) (filter (prefix_matches path) (lt_prefix lt))"
    by (simp add: loc_prefix_def[abs_def] conj_commute)
  from min_by_key_list_all2[OF _ this, of "\<lambda>l. - int (length (loc_path l))" "\<lambda>l. - int (length (lr_path l))"]
  have p: "rel_option ?L (min_by_key (\<lambda>l. - int (length (loc_path l))) (filter (loc_prefix path) ?locs))
      (find (prefix_matches path) (sort_prefix_locs (lt_prefix lt)))"
    by (simp add: sort_prefix_locs_def find_sort_key lowered_path)
  from e r p show ?thesis
    unfolding route_spec_def route_def v
    by (cases "find (loc_exact path) ?locs"; cases "find (\<lambda>l. lr_path l = path) (lt_exact lt)";
        cases "find (loc_regex (ae_regex env) is_match path) ?locs"; cases "find (\<lambda>(re, l). is_match re path) (lt_regex lt)")
      (auto simp: lowered_regex_def)
qed

text \<open>An environment for examples: a regular expression is a suffix to look for.\<close>

definition demo_app_env :: "(header_list, string) app_env" where
  "demo_app_env = \<lparr>ae_headers = list_headers, ae_regex = (\<lambda>p ci. Some p),
     ae_files = \<lparr>canonicalize = Some, read_to_string = (\<lambda>p. None)\<rparr>,
     ae_tls = \<lparr>tls_open = Some, pem_certs = (\<lambda>f. [Some f]), pem_private_key = (\<lambda>f. Some (Some f)),
       any_supported_type = (\<lambda>k. True), client_auth_cert = (\<lambda>c k. True)\<rparr>,
     ae_order = (\<lambda>ls. ls)\<rparr>"

definition demo_location :: "location_kind \<Rightarrow> string \<Rightarrow> location" where
  "demo_location kind path = loc_opts.extend (loc_opts.truncate loc_build_init)
     (location.fields kind path (Return 200 [Literal path]))"

definition demo_server :: server where
  "demo_server = default_server\<lparr>srv_listen := Some \<lparr>sa_ip = V4 [0, 0, 0, 0], sa_port = 80\<rparr>,
     srv_locations := [demo_location Prefix ''/'', demo_location Prefix ''/api'', demo_location Exact ''/x'',
       demo_location (Regex ''z'' False) ''z'']\<rparr>"

theorem route_refines_spec_witness:
  "map_option lr_path (route (\<lambda>re p. starts_with (rev p) (rev re))
     (vh_state (fst (snd (fst (projr (lower_server demo_app_env (build_tables default_http) default_http demo_server
        \<lparr>ts_heap = [], ts_ephemeral = []\<rparr>)))))) ''/apiary'') = Some ''/api''"
proof -
  let ?r = "lower_server demo_app_env (build_tables default_http) default_http demo_server
      \<lparr>ts_heap = [], ts_ephemeral = []\<rparr>"
  have "\<not> isl ?r" by code_simp
  then obtain addr vh cert ts' where r: "?r = Inr ((addr, vh, cert), ts')" by (cases ?r) auto
  have spec: "map_option loc_path (route_spec (ae_regex demo_app_env) (\<lambda>re p. starts_with (rev p) (rev re))
      (srv_locations demo_server) ''/apiary'') = Some ''/api''" by code_simp
  from route_refines_spec[OF r, of "\<lambda>re p. starts_with (rev p) (rev re)" "''/apiary''"] spec show ?thesis
    unfolding r by (cases "route (\<lambda>re p. starts_with (rev p) (rev re)) (vh_state vh) ''/apiary''")
      (auto simp: option_rel_Some2 lowered_path)
qed

section \<open>Grouping\<close>

definition of_addr :: "socket_addr \<Rightarrow> 'r staged list \<Rightarrow> 'r staged list" where
  "of_addr a xs = filter (\<lambda>x. fst x = a) xs"

definition certs_of :: "'r staged list \<Rightarrow> cert_entry list" where
  "certs_of xs = List.map_filter (\<lambda>x. snd (snd x)) xs"

definition listener_of :: "'r staged list \<Rightarrow> socket_addr \<Rightarrow> 'r listener_cfg" where
  "listener_of xs a = \<lparr>lc_addr = a, lc_vhosts = map (\<lambda>x. fst (snd x)) (of_addr a xs), lc_tls = None,
     lc_h3_tls = None, lc_tls_paths = certs_of (of_addr a xs)\<rparr>"

text \<open>Addresses in the order of their first occurrence.\<close>

definition firsts :: "'a list \<Rightarrow> 'a list" where
  "firsts xs = rev (remdups (rev xs))"

lemma firsts_simps [simp]:
  "firsts [] = []" "firsts (xs @ [x]) = (if x \<in> set xs then firsts xs else firsts xs @ [x])"
  by (simp_all add: firsts_def)

lemma firsts_props [simp]: "set (firsts xs) = set xs" "distinct (firsts xs)"
  by (simp_all add: firsts_def)

text \<open>On one address, either every server block has a certificate or none has.\<close>

definition uniform_tls :: "'r staged list \<Rightarrow> bool" where
  "uniform_tls xs \<longleftrightarrow> (\<forall>a. list_all (\<lambda>x. snd (snd x) = None) (of_addr a xs) \<or>
     list_all (\<lambda>x. snd (snd x) \<noteq> None) (of_addr a xs))"

definition group_spec :: "'r staged list \<Rightarrow> (socket_addr \<times> 'r listener_cfg) list" where
  "group_spec xs = map (\<lambda>a. (a, listener_of xs a)) (firsts (map fst xs))"

lemma map_of_group_spec:
  "map_of (group_spec xs) a = (if a \<in> fst ` set xs then Some (listener_of xs a) else None)"
proof -
  have "map_of (group_spec xs) a = (if a \<in> set (firsts (map fst xs)) then Some (listener_of xs a) else None)"
    unfolding group_spec_def by (induction "firsts (map fst xs)") (auto simp: map_of_map_restrict restrict_map_def)
  then show ?thesis by simp
qed

lemma update_map_keys:
  "distinct ks \<Longrightarrow> AList.update k v (map (\<lambda>a. (a, f a)) ks) =
   (if k \<in> set ks then map (\<lambda>a. (a, if a = k then v else f a)) ks else map (\<lambda>a. (a, f a)) ks @ [(k, v)])"
  by (induction ks) auto

lemma of_addr_snoc: "of_addr a (xs @ [x]) = (if fst x = a then of_addr a xs @ [x] else of_addr a xs)"
  by (simp add: of_addr_def)

lemma certs_of_snoc:
  "certs_of (xs @ [x]) = certs_of xs @ (case snd (snd x) of Some c \<Rightarrow> [c] | None \<Rightarrow> [])"
  by (auto simp: certs_of_def map_filter_def split: option.splits)

lemma certs_of_empty: "certs_of xs = [] \<longleftrightarrow> list_all (\<lambda>x. snd (snd x) = None) xs"
  by (induction xs rule: rev_induct) (auto simp: certs_of_snoc certs_of_def map_filter_def split: option.splits)

lemma group_spec_snoc:
  "group_spec (xs @ [(a, v, c)]) =
   AList.update a ((case map_of (group_spec xs) a of Some l \<Rightarrow> l | None \<Rightarrow> empty_listener a)
      \<lparr>lc_tls_paths := certs_of (of_addr a xs) @ (case c of Some c \<Rightarrow> [c] | None \<Rightarrow> []),
       lc_vhosts := map (\<lambda>x. fst (snd x)) (of_addr a xs) @ [v]\<rparr>) (group_spec xs)"
proof -
  let ?ks = "firsts (map fst xs)"
  have other: "listener_of (xs @ [(a, v, c)]) b = listener_of xs b" if "b \<noteq> a" for b
    using that by (simp add: listener_of_def of_addr_snoc)
  have new: "listener_of (xs @ [(a, v, c)]) a = (listener_of xs a)
      \<lparr>lc_tls_paths := certs_of (of_addr a xs) @ (case c of Some c \<Rightarrow> [c] | None \<Rightarrow> []),
       lc_vhosts := map (\<lambda>x. fst (snd x)) (of_addr a xs) @ [v]\<rparr>"
    by (simp add: listener_of_def of_addr_snoc certs_of_snoc)
  have empty: "listener_of xs a = empty_listener a" if "a \<notin> fst ` set xs"
  proof -
    have "of_addr a xs = []" using that by (auto simp: of_addr_def filter_empty_conv)
    then show ?thesis by (simp add: listener_of_def empty_listener_def certs_of_def map_filter_def)
  qed
  show ?thesis
    unfolding map_of_group_spec unfolding group_spec_def
    using other new empty by (auto simp: update_map_keys intro!: map_cong) (metis fst_conv image_eqI)
qed

lemma uniform_snoc:
  "uniform_tls (xs @ [(a, v, c)]) \<longleftrightarrow> uniform_tls xs \<and>
     (of_addr a xs = [] \<or> (certs_of (of_addr a xs) = []) = (c = None))"
proof -
  let ?N = "\<lambda>b. list_all (\<lambda>x. snd (snd x) = None) (of_addr b xs)"
  let ?S = "\<lambda>b. list_all (\<lambda>x. snd (snd x) \<noteq> None) (of_addr b xs)"
  have "uniform_tls (xs @ [(a, v, c)]) \<longleftrightarrow> (\<forall>b. b \<noteq> a \<longrightarrow> ?N b \<or> ?S b) \<and> (c = None \<and> ?N a \<or> c \<noteq> None \<and> ?S a)"
    unfolding uniform_tls_def of_addr_snoc by (auto simp: all_conj_distrib)
  moreover have "uniform_tls xs \<longleftrightarrow> (\<forall>b. b \<noteq> a \<longrightarrow> ?N b \<or> ?S b) \<and> (?N a \<or> ?S a)"
    unfolding uniform_tls_def by metis
  moreover have "of_addr a xs = [] \<longleftrightarrow> ?N a \<and> ?S a" by (cases "of_addr a xs") auto
  ultimately show ?thesis unfolding certs_of_empty by blast
qed

text \<open>The listeners are the server blocks grouped by address: the grouping succeeds exactly when no
  address mixes blocks with and without TLS, and then there is one listener for each address, in
  the order the addresses first appear, with the virtual hosts and the certificates of exactly
  the blocks on that address, in their order.\<close>

theorem grouping_exact:
  "fold_res group_one xs [] = Inr m \<longleftrightarrow> uniform_tls xs \<and> m = group_spec xs"
proof (induction xs arbitrary: m rule: rev_induct)
  case Nil
  then show ?case by (auto simp: uniform_tls_def of_addr_def group_spec_def)
next
  case (snoc x xs)
  obtain a v c where x: "x = (a, v, c)" by (cases x)
  let ?e = "case map_of (group_spec xs) a of Some l \<Rightarrow> l | None \<Rightarrow> empty_listener a"
  have e: "lc_vhosts ?e = map (\<lambda>x. fst (snd x)) (of_addr a xs)" "lc_tls_paths ?e = certs_of (of_addr a xs)"
  proof -
    have "of_addr a xs = []" if "a \<notin> fst ` set xs" using that by (auto simp: of_addr_def filter_empty_conv)
    then show "lc_vhosts ?e = map (\<lambda>x. fst (snd x)) (of_addr a xs)" "lc_tls_paths ?e = certs_of (of_addr a xs)"
      by (auto simp: map_of_group_spec listener_of_def empty_listener_def certs_of_def map_filter_def)
  qed
  have g: "group_one (a, v, c) (group_spec xs) =
      (if of_addr a xs \<noteq> [] \<and> (certs_of (of_addr a xs) = []) \<noteq> (c = None) then Inl (Mixed_tls a)
       else Inr (group_spec (xs @ [(a, v, c)])))"
    unfolding group_spec_snoc by (cases c) (simp_all add: group_one_def Let_def e)
  have "fold_res group_one (xs @ [x]) [] = Inr m \<longleftrightarrow>
      (\<exists>m0. fold_res group_one xs [] = Inr m0 \<and> group_one (a, v, c) m0 = Inr m)"
    by (auto simp: fold_res_append and_then_Inr_iff x)
  also have "\<dots> \<longleftrightarrow> uniform_tls xs \<and> group_one (a, v, c) (group_spec xs) = Inr m"
    by (auto simp: snoc.IH)
  also have "\<dots> \<longleftrightarrow> uniform_tls (xs @ [x]) \<and> m = group_spec (xs @ [x])"
    unfolding g x uniform_snoc by auto
  finally show ?case .
qed

section \<open>References\<close>

text \<open>The indices a location holds.\<close>

fun target_ok :: "target_state \<Rightarrow> proxy_target \<Rightarrow> bool" where
  "target_ok ts (Fixed b) \<longleftrightarrow> b < length (ts_heap ts)"
| "target_ok ts (Dynamic t balancers eph) \<longleftrightarrow> wf_targets balancers ts \<and> eph < length (ts_ephemeral ts)"

definition opt_all :: "('a \<Rightarrow> bool) \<Rightarrow> 'a option \<Rightarrow> bool" where
  "opt_all P m = (case m of None \<Rightarrow> True | Some x \<Rightarrow> P x)"

definition action_ok :: "nat \<Rightarrow> target_state \<Rightarrow> action_rt \<Rightarrow> bool" where
  "action_ok n_stores ts a =
     (case a of
        RtProxy tgt hs cache \<Rightarrow> target_ok ts tgt \<and> opt_all (\<lambda>c. pc_store c < n_stores) cache
      | _ \<Rightarrow> True)"

definition ids_ok :: "nat \<Rightarrow> nat \<Rightarrow> nat \<Rightarrow> target_state \<Rightarrow> location_rt \<Rightarrow> bool" where
  "ids_ok n_stores n_req n_conn ts l \<longleftrightarrow>
     action_ok n_stores ts (lr_action l) \<and> opt_all (\<lambda>a. lra_zone a < n_req) (lr_limit_req l) \<and>
     opt_all (\<lambda>a. lca_zone a < n_conn) (lr_limit_conn l)"

definition state_locations :: "'r server_state \<Rightarrow> location_rt list" where
  "state_locations st = sv_exact_locs st @ map snd (sv_regex_locs st) @ sv_prefix_locs st"

text \<open>While the locations are lowered, balancers and empty memo tables are added.\<close>

definition grows :: "target_state \<Rightarrow> target_state \<Rightarrow> bool" where
  "grows ts ts' \<longleftrightarrow> (\<exists>hs n. ts' = \<lparr>ts_heap = ts_heap ts @ hs, ts_ephemeral = ts_ephemeral ts @ replicate n []\<rparr>)"

lemma grows_refl [simp]: "grows ts ts"
  unfolding grows_def by (rule exI[of _ "[]"], rule exI[of _ 0]) simp

lemma grows_trans: "grows a b \<Longrightarrow> grows b c \<Longrightarrow> grows a c"
  unfolding grows_def by (auto simp flip: replicate_add)

lemma grows_heap [simp]: "grows ts (ts\<lparr>ts_heap := ts_heap ts @ hs\<rparr>)"
  unfolding grows_def by (rule exI[of _ hs], rule exI[of _ 0]) simp

lemma grows_ephemeral [simp]: "grows ts (ts\<lparr>ts_ephemeral := ts_ephemeral ts @ [[]]\<rparr>)"
  unfolding grows_def by (rule exI[of _ "[]"], rule exI[of _ 1]) simp

lemma wf_targets_grows: "grows ts ts' \<Longrightarrow> wf_targets m ts \<Longrightarrow> wf_targets m ts'"
  by (fastforce simp: grows_def wf_targets_def)

lemma target_ok_grows: "grows ts ts' \<Longrightarrow> target_ok ts t \<Longrightarrow> target_ok ts' t"
  using wf_targets_grows[of ts ts'] by (cases t) (auto simp: grows_def)

lemma ids_ok_grows: "grows ts ts' \<Longrightarrow> ids_ok a b c ts l \<Longrightarrow> ids_ok a b c ts' l"
  using target_ok_grows[of ts ts'] by (auto simp: ids_ok_def action_ok_def split: action_rt.splits)

lemma index_names_range:
  assumes "map_of (index_names base names) k = Some i"
  shows "base \<le> i \<and> i < base + length names"
proof -
  have "map_of (fold (\<lambda>(i, n). AList.update n i) ps m) k = Some i \<Longrightarrow> map_of m k = Some i \<or> i \<in> fst ` set ps"
    for ps and m :: "nat smap"
    by (induction ps arbitrary: m) (fastforce simp: update_conv' split: if_splits)+
  from this[of "enumerate base names" "[]"] assms have "i \<in> fst ` set (enumerate base names)"
    by (simp add: index_names_def)
  moreover have "fst ` set (enumerate base names) = set [base..<base + length names]"
    by (metis list.set_map map_fst_enumerate)
  ultimately show ?thesis by simp
qed

lemma resolve_proxy_ok:
  assumes "resolve_proxy target balancers ts = (b, ts')" and "\<And>k i. map_of balancers k = Some i \<Longrightarrow> i < length (ts_heap ts)"
  shows "b < length (ts_heap ts') \<and> grows ts ts'"
  using assms by (auto simp: resolve_proxy_def Let_def split: option.splits prod.splits)

lemma lower_target_ok:
  assumes "wf_targets (tb_balancers tb) ts" and "lower_target tb target ts = (t, ts')"
  shows "target_ok ts' t \<and> grows ts ts'"
proof (cases "CHR ''$'' \<in> set target")
  case True
  then have "t = Dynamic (template_parse target) (tb_balancers tb) (length (ts_ephemeral ts))"
    and ts': "ts' = ts\<lparr>ts_ephemeral := ts_ephemeral ts @ [[]]\<rparr>"
    using assms(2) by (auto simp: lower_target_def)
  moreover have g: "grows ts ts'" by (simp add: ts')
  ultimately show ?thesis using wf_targets_grows[OF g assms(1)] by simp
next
  case False
  obtain b where "resolve_proxy target (tb_balancers tb) ts = (b, ts')" "t = Fixed b"
    using assms(2) False by (auto simp: lower_target_def split: prod.splits)
  with resolve_proxy_ok[of target "tb_balancers tb" ts b ts'] assms(1) show ?thesis
    by (auto simp: wf_targets_def)
qed

definition tables_ok :: "nat \<Rightarrow> nat \<Rightarrow> nat \<Rightarrow> tables \<Rightarrow> bool" where
  "tables_ok n_stores n_req n_conn tb \<longleftrightarrow>
     (\<forall>k i. map_of (tb_cache tb) k = Some i \<longrightarrow> i < n_stores) \<and>
     (\<forall>k i. map_of (tb_limit_req tb) k = Some i \<longrightarrow> i < n_req) \<and>
     (\<forall>k i. map_of (tb_limit_conn tb) k = Some i \<longrightarrow> i < n_conn)"

lemma lower_action_ok:
  assumes "tables_ok a b c tb" and "wf_targets (tb_balancers tb) ts" and "lower_action H tb loc ts = Inr (act, ts')"
  shows "action_ok a ts' act \<and> grows ts ts'"
proof (cases "loc_action loc")
  case (ProxyPass target)
  with assms(3) obtain cache tgt hs where c: "lower_cache tb loc = Inr cache"
    and t: "lower_target tb target ts = (tgt, ts')" and act: "act = RtProxy tgt hs cache"
    by (cases "lower_target tb target ts") (auto simp: lower_action_def and_then_Inr_iff)
  have "opt_all (\<lambda>c. pc_store c < a) cache"
    using c assms(1) by (auto simp: lower_cache_def opt_all_def tables_ok_def and_then_Inr_iff ok_or_Inr_iff
        split: option.splits)
  with lower_target_ok[OF assms(2) t] act show ?thesis by (simp add: action_ok_def)
qed (use assms(3) in \<open>auto simp: lower_action_def action_ok_def\<close>)

lemma lower_location_ok:
  assumes "tables_ok a b c tb" and "wf_targets (tb_balancers tb) ts"
    and "lower_location env tb hs loc ts = Inr (l, ts')"
  shows "ids_ok a b c ts' l \<and> grows ts ts'"
proof -
  from assms(3) obtain act lreq lconn where act: "lower_action (ae_headers env) tb loc ts = Inr (act, ts')"
    and lr: "lower_limit_req tb loc = Inr lreq" and ln: "lower_limit_conn tb loc = Inr lconn"
    and l: "lr_action l = act" "lr_limit_req l = lreq" "lr_limit_conn l = lconn"
    by (auto simp: lower_location_def and_then_Inr_iff split: prod.splits)
  have "opt_all (\<lambda>a. lra_zone a < b) lreq"
    using lr assms(1) by (auto simp: lower_limit_req_def opt_all_def tables_ok_def and_then_Inr_iff ok_or_Inr_iff
        split: option.splits)
  moreover have "opt_all (\<lambda>a. lca_zone a < c) lconn"
    using ln assms(1) by (auto simp: lower_limit_conn_def opt_all_def tables_ok_def and_then_Inr_iff ok_or_Inr_iff
        split: option.splits)
  ultimately show ?thesis using lower_action_ok[OF assms(1,2) act] l by (simp add: ids_ok_def)
qed

definition lt_locations :: "'r loc_table \<Rightarrow> location_rt list" where
  "lt_locations lt = lt_exact lt @ map snd (lt_regex lt) @ lt_prefix lt"

definition lt_ok :: "nat \<Rightarrow> nat \<Rightarrow> nat \<Rightarrow> tables \<Rightarrow> target_state \<Rightarrow> 'r loc_table \<Rightarrow> bool" where
  "lt_ok a b c tb ts0 lt \<longleftrightarrow> grows ts0 (lt_targets lt) \<and> wf_targets (tb_balancers tb) (lt_targets lt) \<and>
     list_all (ids_ok a b c (lt_targets lt)) (lt_locations lt)"

lemma place_location_ok:
  assumes "tables_ok a b c tb" and "lt_ok a b c tb ts0 lt" and "place_location env tb hs loc lt = Inr lt'"
  shows "lt_ok a b c tb ts0 lt'"
proof -
  from assms(3) obtain l ts where l: "lower_location env tb hs loc (lt_targets lt) = Inr (l, ts)"
    by (auto simp: place_location_def and_then_Inr_iff)
  have ok: "ids_ok a b c ts l" "grows (lt_targets lt) ts"
    using lower_location_ok[OF assms(1) _ l] assms(2) by (auto simp: lt_ok_def)
  have ts: "lt_targets lt' = ts" and "set (lt_locations lt') = insert l (set (lt_locations lt))"
    using assms(3) l by (auto simp: place_location_def and_then_Inr_iff lt_locations_def Let_def split: location_kind.splits)
  then have "list_all (ids_ok a b c ts) (lt_locations lt')"
    using ok assms(2) ids_ok_grows[OF ok(2)] by (auto simp: lt_ok_def list_all_iff)
  then show ?thesis
    using ok(2) assms(2) grows_trans wf_targets_grows[OF ok(2)] by (auto simp: lt_ok_def ts)
qed

definition staged_ok :: "nat \<Rightarrow> nat \<Rightarrow> nat \<Rightarrow> tables \<Rightarrow> target_state \<Rightarrow> 'r staged list \<times> target_state \<Rightarrow> bool" where
  "staged_ok a b c tb ts0 st \<longleftrightarrow> grows ts0 (snd st) \<and> wf_targets (tb_balancers tb) (snd st) \<and>
     list_all (\<lambda>x. list_all (ids_ok a b c (snd st)) (state_locations (vh_state (fst (snd x))))) (fst st)"

lemma stage_server_ok:
  assumes "tables_ok a b c tb" and "staged_ok a b c tb ts0 st" and "stage_server env tb http s st = Inr st'"
  shows "staged_ok a b c tb ts0 st'"
proof -
  from assms(3) obtain x ts where x: "lower_server env tb http s (snd st) = Inr (x, ts)" and st': "st' = (fst st @ [x], ts)"
    by (auto simp: stage_server_def and_then_Inr_iff split: prod.splits)
  then obtain lt where f: "fold_res (place_location env tb (srv_add_headers s)) (srv_locations s)
      \<lparr>lt_exact = [], lt_regex = [], lt_prefix = [], lt_targets = snd st\<rparr> = Inr lt"
    and sl: "set (state_locations (vh_state (fst (snd x)))) = set (lt_locations lt)" and ts: "ts = lt_targets lt"
    by (auto simp: lower_server_def and_then_Inr_iff Let_def state_locations_def lt_locations_def sort_prefix_locs_def)
  have "lt_ok a b c tb (snd st) lt"
  proof (rule fold_res_invariant[OF f])
    show "lt_ok a b c tb (snd st) \<lparr>lt_exact = [], lt_regex = [], lt_prefix = [], lt_targets = snd st\<rparr>"
      using assms(2) by (simp add: lt_ok_def staged_ok_def lt_locations_def)
  qed (rule place_location_ok[OF assms(1)])
  then have g: "grows (snd st) ts" and new: "wf_targets (tb_balancers tb) ts"
      "list_all (ids_ok a b c ts) (state_locations (vh_state (fst (snd x))))"
    using sl by (simp_all add: lt_ok_def ts list_all_iff)
  then show ?thesis
    using assms(2) grows_trans[OF _ g] ids_ok_grows[OF g] by (auto simp: staged_ok_def st' list_all_iff)
qed

section \<open>The steps of a build\<close>

lemma build_runtime_steps:
  assumes "build_runtime env cfg = Inr rt"
  obtains http staged ts1 where
    "cfg_http cfg = Some http"
    "fold_res (stage_server env (build_tables http) http) (http_servers http)
       ([], \<lparr>ts_heap = map upstream_balancer (http_upstreams http), ts_ephemeral = []\<rparr>) = Inr (staged, ts1)"
    "uniform_tls staged"
    "materialize_all env http (map snd (group_spec staged)) = Inr (rt_listeners rt)"
    "build_stream_servers (cfg_stream cfg) ts1 = Inr (rt_stream_servers rt, rt_targets rt)"
    "length (rt_stores rt) = length (http_cache_zones http)"
    "length (rt_limit_req_zones rt) = length (http_limit_req_zones http)"
    "length (rt_limit_conn_zones rt) = length (http_limit_conn_zones http)"
    "rt_probes rt = build_probes (http_upstreams http)"
    "rt_listeners rt \<noteq> [] \<or> rt_stream_servers rt \<noteq> []"
proof -
  from assms obtain http staged ts1 groups listeners streams ts2 where
    "cfg_http cfg = Some http"
    "fold_res (stage_server env (build_tables http) http) (http_servers http)
       ([], \<lparr>ts_heap = map upstream_balancer (http_upstreams http), ts_ephemeral = []\<rparr>) = Inr (staged, ts1)"
    "fold_res group_one staged [] = Inr groups"
    "materialize_all env http (map snd groups) = Inr listeners"
    "build_stream_servers (cfg_stream cfg) ts1 = Inr (streams, ts2)"
    "listeners \<noteq> [] \<or> streams \<noteq> []"
    "rt = \<lparr>rt_listeners = listeners, rt_stream_servers = streams, rt_targets = ts2,
                  rt_stores = map (\<lambda>z. cache_store_new (cz_name z) (cz_max_bytes z)) (http_cache_zones http),
                  rt_limit_req_zones = map (\<lambda>z. limit_req_zone_new (lrz_name z) (lrz_key_template z)
                    (lrz_rate_per_sec z) (lrz_max_entries z)) (http_limit_req_zones http),
                  rt_limit_conn_zones = map (\<lambda>z. limit_conn_zone_new (lcz_name z) (lcz_key_template z)
                    (lcz_max_entries z)) (http_limit_conn_zones http),
                  rt_probes = build_probes (http_upstreams http)\<rparr>"
    by (auto simp: build_runtime_def and_then_Inr_iff ok_or_Inr_iff Let_def split: prod.splits if_splits)
  then show thesis using that[of http staged ts1] grouping_exact[of staged groups] by simp
qed

lemma stage_servers_all2:
  "fold_res (stage_server env tb http) ss st = Inr st' \<Longrightarrow>
   \<exists>xs. fst st' = fst st @ xs \<and> list_all2 (\<lambda>s x. \<exists>ts ts'. lower_server env tb http s ts = Inr (x, ts')) ss xs"
proof (induction ss arbitrary: st)
  case (Cons s ss)
  then obtain st1 where s: "stage_server env tb http s st = Inr st1"
    and "fold_res (stage_server env tb http) ss st1 = Inr st'" by (auto simp: and_then_Inr_iff)
  with Cons.IH obtain xs where xs: "fst st' = fst st1 @ xs"
    "list_all2 (\<lambda>s x. \<exists>ts ts'. lower_server env tb http s ts = Inr (x, ts')) ss xs" by blast
  from s obtain x ts where "lower_server env tb http s (snd st) = Inr (x, ts)" "st1 = (fst st @ [x], ts)"
    by (auto simp: stage_server_def and_then_Inr_iff split: prod.splits)
  with xs show ?case by (intro exI[of _ "x # xs"]) auto
qed simp

lemma materialize_frame:
  assumes "materialize_tls T http l = Inr l'"
  shows "lc_addr l' = lc_addr l \<and> lc_vhosts l' = lc_vhosts l \<and> lc_tls_paths l' = lc_tls_paths l"
  using assms by (auto simp: materialize_tls_def and_then_Inr_iff Let_def split: if_splits)

lemma materialize_tls_iff:
  assumes "materialize_tls T http l = Inr l'" and "lc_tls l = None"
  shows "lc_tls l' = None \<longleftrightarrow> lc_tls_paths l' = []"
  using assms by (auto simp: materialize_tls_def and_then_Inr_iff Let_def split: if_splits)

lemma materialize_config:
  assumes "materialize_tls T http l = Inr l'" and "lc_tls l = None" and "lc_tls l' = Some tls"
  shows "build_server_config T (lc_tls_paths l) (protocols_for http (lc_addr l)) = Inr tls"
  using assms by (auto simp: materialize_tls_def and_then_Inr_iff map_err_Inr_iff Let_def split: if_splits)

lemma materialize_all_in:
  assumes "materialize_all env http (map snd (group_spec staged)) = Inr ls" and "L \<in> set ls"
  obtains a where "a \<in> fst ` set staged" "materialize_tls (ae_tls env) http (listener_of staged a) = Inr L"
proof -
  from assms obtain l where "l \<in> set (map snd (group_spec staged))" "materialize_tls (ae_tls env) http l = Inr L"
    by (auto simp: materialize_all_def and_then_Inr_iff dest: map_res_set)
  with that show thesis by (auto simp: group_spec_def)
qed

lemma stream_servers_ok:
  assumes "build_stream_servers stream ts = Inr (streams, ts')"
  shows "grows ts ts' \<and> list_all (\<lambda>(a, b, u). b < length (ts_heap ts')) streams"
proof (cases stream)
  case None
  then show ?thesis using assms by (simp add: build_stream_servers_def)
next
  case (Some st)
  let ?bs = "index_names (length (ts_heap ts)) (map up_name (st_upstreams st))"
  let ?ts0 = "ts\<lparr>ts_heap := ts_heap ts @ map upstream_balancer (st_upstreams st)\<rparr>"
  let ?I = "\<lambda>p. grows ?ts0 (snd p) \<and> list_all (\<lambda>(a, b, u). b < length (ts_heap (snd p))) (fst p)"
  have f: "fold_res (add_stream_server ?bs) (st_servers st) ([], ?ts0) = Inr (streams, ts')"
    using assms Some by (simp add: build_stream_servers_def)
  have "?I (streams, ts')"
  proof (rule fold_res_invariant[OF f])
    fix s p p'
    assume I: "?I p" and step: "add_stream_server ?bs s p = Inr p'"
    from step obtain addr target where "ss_listen s = Some addr" "ss_proxy_pass s = Some target"
      by (auto simp: add_stream_server_def and_then_Inr_iff ok_or_Inr_iff)
    with step obtain b ts1 where r: "resolve_proxy target ?bs (snd p) = (b, ts1)"
      and p': "p' = (fst p @ [(addr, b, ss_udp s)], ts1)"
      by (cases "resolve_proxy target ?bs (snd p)") (simp add: add_stream_server_def)
    have "i < length (ts_heap (snd p))" if "map_of ?bs k = Some i" for k i
      using index_names_range[OF that] I by (auto simp: grows_def)
    from resolve_proxy_ok[OF r this] have b: "b < length (ts_heap ts1)" "grows (snd p) ts1" by auto
    then have "length (ts_heap (snd p)) \<le> length (ts_heap ts1)" by (auto simp: grows_def)
    then show "?I p'" using I b grows_trans[OF _ b(2)] by (fastforce simp: p' list_all_iff)
  qed simp
  then show ?thesis using grows_trans[OF grows_heap] by fastforce
qed

text \<open>One listener per address.\<close>

lemma build_addrs:
  assumes "build_runtime env cfg = Inr rt"
  shows "distinct (map lc_addr (rt_listeners rt))"
proof -
  obtain http staged where "materialize_all env http (map snd (group_spec staged)) = Inr (rt_listeners rt)"
    by (rule build_runtime_steps[OF assms])
  then have "list_all2 (\<lambda>l l'. materialize_tls (ae_tls env) http l = Inr l') (map snd (group_spec staged)) (rt_listeners rt)"
    by (auto simp: materialize_all_def and_then_Inr_iff map_res_Inr_iff)
  then have "map lc_addr (rt_listeners rt) = map lc_addr (map snd (group_spec staged))"
    by (induction rule: list_all2_induct) (auto simp: materialize_frame)
  then show ?thesis by (simp add: group_spec_def listener_of_def o_def)
qed

text \<open>What a listener was made of.\<close>

lemma build_listener:
  assumes "materialize_all env http (map snd (group_spec staged)) = Inr ls" and "L \<in> set ls"
  obtains a where "lc_vhosts L = map (\<lambda>x. fst (snd x)) (of_addr a staged)" "of_addr a staged \<noteq> []"
    "lc_tls L = None \<longleftrightarrow> lc_tls_paths L = []"
proof -
  from assms obtain a where a: "a \<in> fst ` set staged" and
    m: "materialize_tls (ae_tls env) http (listener_of staged a) = Inr L" by (rule materialize_all_in)
  show thesis
  proof (rule that)
    show "lc_vhosts L = map (\<lambda>x. fst (snd x)) (of_addr a staged)" using materialize_frame[OF m] by (simp add: listener_of_def)
    show "of_addr a staged \<noteq> []" using a by (auto simp: of_addr_def filter_empty_conv)
    show "lc_tls L = None \<longleftrightarrow> lc_tls_paths L = []" by (rule materialize_tls_iff[OF m]) (simp add: listener_of_def)
  qed
qed

lemma build_vhosts:
  assumes "build_runtime env cfg = Inr rt" and "L \<in> set (rt_listeners rt)"
  shows "lc_vhosts L \<noteq> []"
proof -
  obtain http staged where mat: "materialize_all env http (map snd (group_spec staged)) = Inr (rt_listeners rt)"
    by (rule build_runtime_steps[OF assms(1)])
  from mat assms(2) show ?thesis by (rule build_listener) simp
qed

text \<open>C14: A run-time state that was built is closed: every listener has a virtual host, and TLS exactly
  when it has certificates; every location, wherever it is listed, refers only to balancers, memo
  tables, cache stores and zones that exist, the table of names of a dynamic target included; so does every
  stream server and every health probe.\<close>

theorem build_closed:
  assumes "build_runtime env cfg = Inr rt"
  shows "list_all (\<lambda>L. lc_vhosts L \<noteq> [] \<and> (lc_tls L = None \<longleftrightarrow> lc_tls_paths L = []) \<and>
      list_all (\<lambda>v. list_all (ids_ok (length (rt_stores rt)) (length (rt_limit_req_zones rt))
          (length (rt_limit_conn_zones rt)) (rt_targets rt)) (state_locations (vh_state v))) (lc_vhosts L)) (rt_listeners rt) \<and>
    distinct (map lc_addr (rt_listeners rt)) \<and>
    list_all (\<lambda>(a, b, u). b < length (ts_heap (rt_targets rt))) (rt_stream_servers rt) \<and>
    list_all (\<lambda>(i, hc). i < length (ts_heap (rt_targets rt))) (rt_probes rt)"
proof -
  obtain http staged ts1 where st: "fold_res (stage_server env (build_tables http) http) (http_servers http)
       ([], \<lparr>ts_heap = map upstream_balancer (http_upstreams http), ts_ephemeral = []\<rparr>) = Inr (staged, ts1)"
    and mat: "materialize_all env http (map snd (group_spec staged)) = Inr (rt_listeners rt)"
    and str: "build_stream_servers (cfg_stream cfg) ts1 = Inr (rt_stream_servers rt, rt_targets rt)"
    and len: "length (rt_stores rt) = length (http_cache_zones http)"
      "length (rt_limit_req_zones rt) = length (http_limit_req_zones http)"
      "length (rt_limit_conn_zones rt) = length (http_limit_conn_zones http)"
    and pr: "rt_probes rt = build_probes (http_upstreams http)"
    by (rule build_runtime_steps[OF assms])
  let ?ids = "ids_ok (length (rt_stores rt)) (length (rt_limit_req_zones rt)) (length (rt_limit_conn_zones rt))"
  have tb: "tables_ok (length (rt_stores rt)) (length (rt_limit_req_zones rt)) (length (rt_limit_conn_zones rt)) (build_tables http)"
    by (auto simp: tables_ok_def build_tables_def len dest: index_names_range)
  let ?ts0 = "\<lparr>ts_heap = map upstream_balancer (http_upstreams http), ts_ephemeral = []\<rparr>"
  let ?ok = "staged_ok (length (rt_stores rt)) (length (rt_limit_req_zones rt)) (length (rt_limit_conn_zones rt))
      (build_tables http) ?ts0"
  have "?ok (staged, ts1)"
  proof (rule fold_res_invariant[OF st])
    show "?ok ([], ?ts0)" by (auto simp: staged_ok_def wf_targets_def build_tables_def dest: index_names_range)
  qed (rule stage_server_ok[OF tb])
  note ok = this
  have g: "grows ?ts0 (rt_targets rt)"
    using ok stream_servers_ok[OF str] grows_trans by (auto simp: staged_ok_def)
  have loc0: "list_all (?ids ts1) (state_locations (vh_state (fst (snd x))))" if "x \<in> set staged" for x
    using ok that by (simp add: staged_ok_def list_all_iff)
  have loc: "list_all (?ids (rt_targets rt)) (state_locations (vh_state (fst (snd x))))" if "x \<in> set staged" for x
    using loc0[OF that] stream_servers_ok[OF str] ids_ok_grows by (auto simp: list_all_iff)
  have "lc_vhosts L \<noteq> [] \<and> (lc_tls L = None \<longleftrightarrow> lc_tls_paths L = []) \<and>
      list_all (\<lambda>v. list_all (?ids (rt_targets rt)) (state_locations (vh_state v))) (lc_vhosts L)"
    if "L \<in> set (rt_listeners rt)" for L
    using mat that by (rule build_listener) (use loc in \<open>auto simp: list_all_iff of_addr_def\<close>)
  moreover have "list_all (\<lambda>(i, hc). i < length (ts_heap (rt_targets rt))) (rt_probes rt)"
    using g by (auto simp: pr build_probes_def list_all_iff grows_def in_set_enumerate_eq split: option.splits)
  ultimately show ?thesis using stream_servers_ok[OF str] build_addrs[OF assms] by (simp add: list_all_iff)
qed

definition demo_config :: config where
  "demo_config = default_config\<lparr>cfg_http := Some (default_http\<lparr>http_servers := [demo_server]\<rparr>)\<rparr>"

theorem build_closed_witness:
  "\<exists>rt. build_runtime demo_app_env demo_config = Inr rt \<and> distinct (map lc_addr (rt_listeners rt)) \<and>
     map (\<lambda>L. length (lc_vhosts L)) (rt_listeners rt) = [1]"
proof -
  have "\<not> isl (build_runtime demo_app_env demo_config)" by code_simp
  then obtain rt where rt: "build_runtime demo_app_env demo_config = Inr rt"
    by (cases "build_runtime demo_app_env demo_config") auto
  have "map (\<lambda>L. length (lc_vhosts L)) (rt_listeners (projr (build_runtime demo_app_env demo_config))) = [1]"
    by code_simp
  with build_closed[OF rt] rt show ?thesis by simp
qed

section \<open>Virtual hosts and certificates\<close>

definition vhost_names :: "'r listener_cfg \<Rightarrow> string list" where
  "vhost_names L = List.map_filter (\<lambda>v. map_option to_ascii_lowercase (vh_server_name v)) (lc_vhosts L)"

lemma find_rev_unique:
  "(\<And>x y. x \<in> set xs \<Longrightarrow> y \<in> set xs \<Longrightarrow> P x \<Longrightarrow> P y \<Longrightarrow> x = y) \<Longrightarrow> find P (rev xs) = find P xs"
proof (induction xs)
  case (Cons a xs)
  then have ih: "find P (rev xs) = find P xs" by simp
  show ?case
  proof (cases "P a")
    case True
    with Cons.prems have "find P xs = None \<or> find P xs = Some a"
      by (cases "find P xs") (auto dest: find_Some_prop)
    with True show ?thesis by (auto simp: find_append ih)
  next
    case False
    then show ?thesis by (simp add: find_append ih split: option.splits)
  qed
qed simp

lemma distinct_names_index:
  assumes "distinct (List.map_filter f xs)" and "i < length xs" and "j < length xs"
    and "f (xs ! i) = Some k" and "f (xs ! j) = Some k"
  shows "i = j"
  using assms
proof (induction xs arbitrary: i j)
  case (Cons x xs)
  have mem: "k \<in> set (List.map_filter f xs)" if "n < length xs" "f (xs ! n) = Some k" for n
    using that by (force simp: map_filter_def)
  show ?case
  proof (cases i)
    case 0
    with Cons.prems mem show ?thesis by (cases j) (auto simp: List.map_filter_simps)
  next
    case (Suc i')
    show ?thesis
    proof (cases j)
      case 0
      with Suc Cons.prems mem show ?thesis by (auto simp: List.map_filter_simps)
    next
      case (Suc j')
      with \<open>i = Suc i'\<close> Cons show ?thesis by (auto simp: List.map_filter_simps split: option.splits)
    qed
  qed
qed simp

text \<open>The pairs of a TLS listener: each block's virtual host with its certificate entry, both under
  the block's name.\<close>

lemma tls_listener_pairs:
  assumes "build_runtime env cfg = Inr rt" and "L \<in> set (rt_listeners rt)" and "lc_tls L = Some tls"
  shows "length (lc_tls_paths L) = length (lc_vhosts L)"
    and "map ce_server_name (lc_tls_paths L) = map vh_server_name (lc_vhosts L)"
    and "build_resolver (ae_tls env) (lc_tls_paths L) = Inr (tc_resolver tls)"
proof -
  obtain http staged ts1 where st: "fold_res (stage_server env (build_tables http) http) (http_servers http)
       ([], \<lparr>ts_heap = map upstream_balancer (http_upstreams http), ts_ephemeral = []\<rparr>) = Inr (staged, ts1)"
    and un: "uniform_tls staged"
    and mat: "materialize_all env http (map snd (group_spec staged)) = Inr (rt_listeners rt)"
    by (rule build_runtime_steps[OF assms(1)])
  from mat assms(2) obtain a where m: "materialize_tls (ae_tls env) http (listener_of staged a) = Inr L"
    by (rule materialize_all_in)
  let ?xs = "of_addr a staged"
  have v: "lc_vhosts L = map (\<lambda>x. fst (snd x)) ?xs" and c: "lc_tls_paths L = certs_of ?xs"
    using materialize_frame[OF m] by (simp_all add: listener_of_def)
  have "certs_of ?xs \<noteq> []" using materialize_tls_iff[OF m] assms(3) c by (simp add: listener_of_def)
  then have all: "\<forall>x \<in> set ?xs. snd (snd x) \<noteq> None"
    using un certs_of_empty[of ?xs] by (auto simp: uniform_tls_def list_all_iff)
  have name: "ce_server_name (the (snd (snd x))) = vh_server_name (fst (snd x))" if "x \<in> set ?xs" for x
  proof -
    have "x \<in> set staged" using that by (simp add: of_addr_def)
    then obtain s ts ts' where "lower_server env (build_tables http) http s ts = Inr (x, ts')"
      using stage_servers_all2[OF st] by (auto simp: list_all2_conv_all_nth in_set_conv_nth)
    then show ?thesis using all that
      by (auto simp: lower_server_def lower_cert_def and_then_Inr_iff Let_def split: if_splits)
  qed
  have cs: "certs_of ?xs = map (\<lambda>x. the (snd (snd x))) ?xs"
    using all by (induction ?xs) (auto simp: certs_of_def map_filter_def)
  show "length (lc_tls_paths L) = length (lc_vhosts L)" by (simp add: v c cs)
  show "map ce_server_name (lc_tls_paths L) = map vh_server_name (lc_vhosts L)" using name by (simp add: v c cs)
  show "build_resolver (ae_tls env) (lc_tls_paths L) = Inr (tc_resolver tls)"
    using materialize_config[OF m _ assms(3)] c
    by (auto simp: listener_of_def build_server_config_def and_then_Inr_iff)
qed

text \<open>Two lists with names in common, of which at most one matches: the first match of both, or their heads, are at one position.\<close>

lemma find_parallel:
  assumes len: "length xs = length ys" and ne: "xs \<noteq> []"
    and same: "\<And>i. i < length xs \<Longrightarrow> P (xs ! i) \<longleftrightarrow> Q (ys ! i)"
    and uniq: "\<And>i j. i < length xs \<Longrightarrow> j < length xs \<Longrightarrow> P (xs ! i) \<Longrightarrow> P (xs ! j) \<Longrightarrow> i = j"
  obtains i where "i < length xs" "(case find P xs of Some v \<Rightarrow> v | None \<Rightarrow> hd xs) = xs ! i" "(case find Q ys of Some e \<Rightarrow> e | None \<Rightarrow> hd ys) = ys ! i"
proof (cases "find P xs")
  case (Some v)
  then obtain i where i: "i < length xs" "P (xs ! i)" "v = xs ! i" by (auto simp: find_Some_iff)
  have "find Q ys \<noteq> None" using i same len by (auto simp: find_None_iff in_set_conv_nth)
  then obtain j where j: "j < length ys" "Q (ys ! j)" "find Q ys = Some (ys ! j)" by (auto simp: find_Some_iff)
  have "j = i" using uniq[of j i] i j same len by simp
  then show thesis using that[of i] i j Some by simp
next
  case None
  have "\<not> Q e" if e: "e \<in> set ys" for e
  proof -
    obtain i where i: "i < length xs" "e = ys ! i" using e len by (auto simp: in_set_conv_nth)
    have "\<not> P (xs ! i)" using None[unfolded find_None_prop] nth_mem[OF i(1)] by blast
    then show ?thesis using same[OF i(1)] i(2) by blast
  qed
  then have "find Q ys = None" by (auto simp: find_None_prop)
  moreover have "ys \<noteq> []" using ne len by auto
  then have "hd xs = xs ! 0" "hd ys = ys ! 0" using ne by (simp_all add: hd_conv_nth)
  ultimately show thesis using that[of 0] None ne by simp
qed

text \<open>C17: The certificate a client sees and the virtual host that answers belong to the same server
  block: on a TLS listener of a built state whose server names differ, for every host name
  without a port there is one block whose state the request is given to and whose certificate the
  handshake for this name offers.\<close>

theorem vhost_certificate_agree:
  assumes "build_runtime env cfg = Inr rt" and "L \<in> set (rt_listeners rt)" and "lc_tls L = Some tls"
    and "distinct (vhost_names L)" and "CHR '':'' \<notin> set h"
  shows "\<exists>i. i < length (lc_vhosts L) \<and> pick_state L (Some h) = vh_state (lc_vhosts L ! i) \<and>
    ce_server_name (lc_tls_paths L ! i) = vh_server_name (lc_vhosts L ! i) \<and>
    build_certified (ae_tls env) (lc_tls_paths L ! i) = Inr (resolve_cert (tc_resolver tls) (Some h))"
proof -
  let ?vs = "lc_vhosts L" and ?cs = "lc_tls_paths L"
  let ?P = "\<lambda>v. map_option to_ascii_lowercase (vh_server_name v) = Some (to_ascii_lowercase h)"
  note pairs = tls_listener_pairs[OF assms(1-3)]
  have nm: "ce_server_name (?cs ! i) = vh_server_name (?vs ! i)" if "i < length ?vs" for i
    using pairs(1,2) that by (metis nth_map)
  have named: "named h (?cs ! i) \<longleftrightarrow> ?P (?vs ! i)" if "i < length ?vs" for i
    using nm[OF that] by (simp add: named_def)
  have uniq: "i = j" if "i < length ?vs" "j < length ?vs" "?P (?vs ! i)" "?P (?vs ! j)" for i j
    using distinct_names_index[OF assms(4)[unfolded vhost_names_def]] that by blast
  have rv: "find (named h) (rev ?cs) = find (named h) ?cs"
    by (rule find_rev_unique) (metis in_set_conv_nth named pairs(1) uniq)
  have pick: "pick_state L (Some h) = vh_state (case find ?P ?vs of Some v \<Rightarrow> v | None \<Rightarrow> hd ?vs)"
    using assms(5) by (simp add: pick_state_def split_char_absent Let_def split: option.splits)
  have choice: "sni_choice ?cs (Some h) = (case find (named h) ?cs of Some e \<Rightarrow> e | None \<Rightarrow> hd ?cs)"
    by (simp add: sni_choice_def rv)
  obtain i where i: "i < length ?vs" "(case find ?P ?vs of Some v \<Rightarrow> v | None \<Rightarrow> hd ?vs) = ?vs ! i"
      "(case find (named h) ?cs of Some e \<Rightarrow> e | None \<Rightarrow> hd ?cs) = ?cs ! i"
    by (rule find_parallel[OF pairs(1)[symmetric] build_vhosts[OF assms(1,2)], of ?P "named h"]) (use named uniq in blast)+
  then show ?thesis using nm[OF i(1)] pick choice build_resolver_choice[OF pairs(3), of "Some h"] by auto
qed

definition demo_tls_server :: "string \<Rightarrow> tls_version list \<Rightarrow> server" where
  "demo_tls_server name versions = demo_server\<lparr>srv_server_name := Some name, srv_tls := True,
     srv_ssl_certificate := Some name, srv_ssl_certificate_key := Some name, srv_ssl_protocols := versions,
     srv_locations := []\<rparr>"

definition demo_tls_config :: config where
  "demo_tls_config = default_config\<lparr>cfg_http := Some (default_http\<lparr>http_servers :=
     [demo_tls_server ''a.test'' [Tls13], demo_tls_server ''b.test'' [Tls12]]\<rparr>)\<rparr>"

lemma demo_tls_listener:
  obtains rt L tls where "build_runtime demo_app_env demo_tls_config = Inr rt" "rt_listeners rt = [L]" "lc_tls L = Some tls"
    "vhost_names L = [''a.test'', ''b.test'']" "tc_versions tls = [Tls12, Tls13]"
proof -
  let ?r = "build_runtime demo_app_env demo_tls_config"
  have "\<not> isl ?r" by code_simp
  then obtain rt where rt: "?r = Inr rt" by (cases ?r) auto
  have "map (\<lambda>L. (vhost_names L, map_option tc_versions (lc_tls L))) (rt_listeners (projr ?r)) =
      [([''a.test'', ''b.test''], Some [Tls12, Tls13])]" by code_simp
  then show thesis using that rt by (auto simp: map_eq_Cons_conv)
qed

theorem vhost_certificate_agree_witness:
  "\<exists>rt L tls i. build_runtime demo_app_env demo_tls_config = Inr rt \<and> rt_listeners rt = [L] \<and> lc_tls L = Some tls \<and>
     pick_state L (Some ''B.test'') = vh_state (lc_vhosts L ! i) \<and>
     build_certified (ae_tls demo_app_env) (lc_tls_paths L ! i) = Inr (resolve_cert (tc_resolver tls) (Some ''B.test''))"
proof -
  obtain rt L tls where r: "build_runtime demo_app_env demo_tls_config = Inr rt" "rt_listeners rt = [L]" "lc_tls L = Some tls"
    "vhost_names L = [''a.test'', ''b.test'']" by (rule demo_tls_listener)
  have "L \<in> set (rt_listeners rt)" "distinct (vhost_names L)" "CHR '':'' \<notin> set ''B.test''" using r by auto
  from vhost_certificate_agree[OF r(1) this(1) r(3) this(2,3)] r show ?thesis by blast
qed

text \<open>The protocol versions of a TLS listener are the union of those its server blocks ask for, and
  the library's default when none asks: a version that one block leaves out is still offered to the
  clients of that block when another block on the address lists it.\<close>

theorem tls_versions_union:
  assumes "build_runtime env cfg = Inr rt" and "L \<in> set (rt_listeners rt)" and "lc_tls L = Some tls"
    and "cfg_http cfg = Some http"
  shows "set (tc_versions tls) =
    (let vs = \<Union> (set (map (\<lambda>s. set (srv_ssl_protocols s))
           (filter (\<lambda>s. srv_listen s = Some (lc_addr L) \<and> srv_tls s) (http_servers http))))
     in if vs = {} then {Tls12, Tls13} else vs)"
proof -
  let ?vs = "concat (map srv_ssl_protocols (filter (\<lambda>s. srv_listen s = Some (lc_addr L) \<and> srv_tls s) (http_servers http)))"
  obtain http' staged ts1 where h: "cfg_http cfg = Some http'"
    and mat: "materialize_all env http' (map snd (group_spec staged)) = Inr (rt_listeners rt)"
    by (rule build_runtime_steps[OF assms(1)])
  from mat assms(2) obtain a where m: "materialize_tls (ae_tls env) http' (listener_of staged a) = Inr L"
    by (rule materialize_all_in)
  have "lc_addr L = a" using materialize_frame[OF m] by (simp add: listener_of_def)
  then have "tc_versions tls = (if protocols_for http (lc_addr L) = [] then [Tls12, Tls13] else protocols_for http (lc_addr L))"
    using materialize_config[OF m _ assms(3)] assms(4) h
    by (auto simp: listener_of_def build_server_config_def and_then_Inr_iff)
  moreover have "set (protocols_for http (lc_addr L)) = set ?vs" by (simp add: protocols_for_def)
  ultimately show ?thesis by (simp add: Let_def image_image flip: set_empty)
qed

theorem tls_versions_union_witness:
  "\<exists>rt L tls. build_runtime demo_app_env demo_tls_config = Inr rt \<and> rt_listeners rt = [L] \<and> lc_tls L = Some tls \<and>
     set (tc_versions tls) = {Tls12, Tls13}"
proof -
  obtain rt L tls where r: "build_runtime demo_app_env demo_tls_config = Inr rt" "rt_listeners rt = [L]" "lc_tls L = Some tls"
    by (rule demo_tls_listener)
  have "lc_addr L = \<lparr>sa_ip = V4 [0, 0, 0, 0], sa_port = 80\<rparr>"
  proof -
    have "map lc_addr (rt_listeners (projr (build_runtime demo_app_env demo_tls_config))) = [\<lparr>sa_ip = V4 [0, 0, 0, 0], sa_port = 80\<rparr>]"
      by code_simp
    then show ?thesis using r by simp
  qed
  moreover have "cfg_http demo_tls_config = Some (default_http\<lparr>http_servers :=
      [demo_tls_server ''a.test'' [Tls13], demo_tls_server ''b.test'' [Tls12]]\<rparr>)" by (simp add: demo_tls_config_def)
  ultimately have "set (tc_versions tls) = {Tls12, Tls13}"
    using tls_versions_union[OF r(1) _ r(3)] r(2)
    by (auto simp: demo_tls_server_def demo_server_def default_http_def Let_def)
  with r show ?thesis by blast
qed

text \<open>A named upstream is always spoken to in plain HTTP: a \<^verbatim>\<open>proxy_pass\<close> to it with the scheme
  https resolves to the same balancer as with the scheme http, and that balancer's scheme is http.\<close>

theorem https_upstream_is_plain:
  assumes "build_tables http = tb" and "up \<in> set (http_upstreams http)" and "distinct (map up_name (http_upstreams http))"
    and "trim_end_matches (CHR ''/'') (up_name up) = up_name up"
    and "ts_heap ts = map upstream_balancer (http_upstreams http)"
  shows "resolve_proxy (''https://'' @ up_name up) (tb_balancers tb) ts =
      resolve_proxy (''http://'' @ up_name up) (tb_balancers tb) ts \<and>
    bal_scheme (ts_heap ts ! fst (resolve_proxy (''https://'' @ up_name up) (tb_balancers tb) ts)) = ''http''"
proof -
  have "up_name up \<in> set (map up_name (http_upstreams http))" using assms(2) by simp
  then have "map_of (tb_balancers tb) (up_name up) \<noteq> None"
  proof -
    have "map_of (fold (\<lambda>(i, n). AList.update n i) ps m) k \<noteq> None"
      if "k \<in> snd ` set ps \<or> map_of m k \<noteq> None" for ps k and m :: "nat smap"
      using that
    proof (induction ps arbitrary: m)
      case (Cons p ps)
      obtain i n where p: "p = (i, n)" by (cases p)
      have "k \<in> snd ` set ps \<or> map_of (AList.update n i m) k \<noteq> None"
        using Cons.prems by (auto simp: p update_conv')
      from Cons.IH[OF this] show ?case by (simp add: p)
    qed simp
    moreover have "snd ` set (enumerate 0 (map up_name (http_upstreams http))) = set (map up_name (http_upstreams http))"
      by (metis list.set_map map_snd_enumerate)
    ultimately show ?thesis using assms(1,2) by (force simp: build_tables_def index_names_def)
  qed
  then obtain b where b: "map_of (tb_balancers tb) (up_name up) = Some b" by auto
  have "b < length (http_upstreams http)" using b assms(1) index_names_range[of 0] by (fastforce simp: build_tables_def)
  moreover have "strip_prefix ''https://'' (''http://'' @ up_name up) = None" by simp
  moreover have "strip_prefix ''https://'' (''https://'' @ up_name up) = Some (up_name up)"
    "strip_prefix ''http://'' (''http://'' @ up_name up) = Some (up_name up)" by (simp_all only: strip_prefix_append)
  ultimately show ?thesis
    unfolding resolve_proxy_def using b assms(4,5) by (simp only: option.case prod.case Let_def) (simp add: upstream_balancer_def)
qed

theorem https_upstream_is_plain_witness:
  "bal_scheme (map upstream_balancer [\<lparr>up_name = ''app'', up_method = RoundRobin, up_servers = [], up_health_check = None\<rparr>] !
     fst (resolve_proxy ''https://app'' [(''app'', 0)] \<lparr>ts_heap = map upstream_balancer
       [\<lparr>up_name = ''app'', up_method = RoundRobin, up_servers = [], up_health_check = None\<rparr>], ts_ephemeral = []\<rparr>)) = ''http''"
proof -
  let ?up = "\<lparr>up_name = ''app'', up_method = RoundRobin, up_servers = [], up_health_check = None\<rparr>"
  let ?http = "default_http\<lparr>http_upstreams := [?up]\<rparr>"
  let ?tb = "\<lparr>tb_cache = [], tb_limit_req = [], tb_limit_conn = [], tb_balancers = [(''app'', 0)]\<rparr>"
  let ?ts = "\<lparr>ts_heap = map upstream_balancer [?up], ts_ephemeral = []\<rparr>"
  have tb: "build_tables ?http = ?tb" by (simp add: build_tables_def index_names_def default_http_def)
  have "bal_scheme (ts_heap ?ts ! fst (resolve_proxy (''https://'' @ up_name ?up) (tb_balancers ?tb) ?ts)) = ''http''"
    by (rule https_upstream_is_plain[OF tb, THEN conjunct2]) (simp_all add: trim_end_matches_def)
  then show ?thesis by simp
qed

end
