(* ===== verification/Http_Date.thy ===== *)
theory Http_Date
  imports Rust_Text
begin

text \<open>
  The formatter of HTTP dates (\<^verbatim>\<open>src/src/http_date.rs\<close>). The source counts years and months
  down from a number of days in signed 64-bit integers; the days of a 64-bit number of seconds
  fit, and the counters never become negative, so natural numbers stand for them.

  Shown here: the date is the one of the Gregorian calendar, by the closed formula for the days before a
  year, and the text has the fields of the date, the time of day and the day of the week in their
  places, so that it can be read back.
\<close>

section \<open>The formatter\<close>

definition is_leap :: "nat \<Rightarrow> bool" where
  "is_leap y \<longleftrightarrow> (y mod 4 = 0 \<and> y mod 100 \<noteq> 0) \<or> y mod 400 = 0"

definition year_days :: "nat \<Rightarrow> nat" where
  "year_days y = (if is_leap y then 366 else 365)"

text \<open>The loop over the years, and the one over the months.\<close>

function find_year :: "nat \<Rightarrow> nat \<Rightarrow> nat \<times> nat" where
  "find_year days year = (if days < year_days year then (year, days) else find_year (days - year_days year) (year + 1))"
  by pat_completeness auto
termination
  by (relation "measure (\<lambda>(days, year). days)") (auto simp: year_days_def)

declare find_year.simps [simp del]

definition month_lengths :: "nat \<Rightarrow> nat list" where
  "month_lengths year = [31, if is_leap year then 29 else 28, 31, 30, 31, 30, 31, 31, 30, 31, 30, 31]"

fun find_month :: "nat list \<Rightarrow> nat \<Rightarrow> nat \<Rightarrow> nat \<times> nat" where
  "find_month [] days m = (m, days)"
| "find_month (dm # ms) days m = (if days < dm then (m, days) else find_month ms (days - dm) (m + 1))"

definition days_to_date :: "nat \<Rightarrow> nat \<times> nat \<times> nat" where
  "days_to_date days =
     (let (year, days) = find_year days 1970;
          (m, days) = find_month (month_lengths year) days 0
      in (year, m + 1, days + 1))"

definition weekdays :: "string list" where
  "weekdays = [''Sun'', ''Mon'', ''Tue'', ''Wed'', ''Thu'', ''Fri'', ''Sat'']"

definition month_names :: "string list" where
  "month_names = [''Jan'', ''Feb'', ''Mar'', ''Apr'', ''May'', ''Jun'', ''Jul'', ''Aug'', ''Sep'', ''Oct'', ''Nov'', ''Dec'']"

text \<open>A number with zeros in front up to a width.\<close>

definition pad :: "nat \<Rightarrow> nat \<Rightarrow> string" where
  "pad w n = replicate (w - length (show_nat n)) (CHR ''0'') @ show_nat n"

definition format_date :: "nat \<Rightarrow> string" where
  "format_date secs =
     (let days = secs div 86400;
          tod = secs mod 86400;
          h = tod div 3600;
          m = (tod mod 3600) div 60;
          s = tod mod 60;
          (year, month, day) = days_to_date days
      in weekdays ! ((days + 4) mod 7) @ '', '' @ pad 2 day @ '' '' @ month_names ! (month - 1) @ '' '' @
         pad 4 year @ '' '' @ pad 2 h @ '':'' @ pad 2 m @ '':'' @ pad 2 s @ '' GMT'')"

section \<open>The calendar\<close>

definition leaps_until :: "nat \<Rightarrow> nat" where
  "leaps_until y = y div 4 - y div 100 + y div 400"

text \<open>The days from the first of January 1970 to the first of January of a year.\<close>

definition days_before_year :: "nat \<Rightarrow> nat" where
  "days_before_year y = 365 * (y - 1970) + (leaps_until (y - 1) - leaps_until 1969)"

definition days_before_month :: "nat \<Rightarrow> nat \<Rightarrow> nat" where
  "days_before_month y m = sum_list (take (m - 1) (month_lengths y))"

definition valid_date :: "nat \<times> nat \<times> nat \<Rightarrow> bool" where
  "valid_date d = (case d of (y, m, dd) \<Rightarrow>
     1970 \<le> y \<and> 1 \<le> m \<and> m \<le> 12 \<and> 1 \<le> dd \<and> dd \<le> month_lengths y ! (m - 1))"

definition date_to_days :: "nat \<times> nat \<times> nat \<Rightarrow> nat" where
  "date_to_days d = (case d of (y, m, dd) \<Rightarrow> days_before_year y + days_before_month y m + (dd - 1))"

lemma div_Suc_step: "0 < k \<Longrightarrow> Suc n div k = n div k + (if Suc n mod k = 0 then 1 else 0)" for k :: nat
  by (simp add: div_Suc)

lemma leaps_until_Suc: "leaps_until (Suc y) = leaps_until y + (if is_leap (Suc y) then 1 else 0)"
proof -
  have "Suc y mod 100 = 0 \<Longrightarrow> Suc y mod 4 = 0" "Suc y mod 400 = 0 \<Longrightarrow> Suc y mod 100 = 0"
    using dvd_trans[of 4 100 "Suc y"] dvd_trans[of 100 400 "Suc y"] by (simp_all add: mod_eq_0_iff_dvd)
  moreover have "y div 100 \<le> y div 4" by (simp add: div_le_mono2)
  ultimately show ?thesis
    unfolding leaps_until_def is_leap_def div_Suc_step[of 4] div_Suc_step[of 100] div_Suc_step[of 400, simplified]
    by (auto simp: div_Suc_step)
qed

lemma leaps_until_mono: "a \<le> b \<Longrightarrow> leaps_until a \<le> leaps_until b"
  by (rule lift_Suc_mono_le[of leaps_until]) (simp_all add: leaps_until_Suc)

lemma days_before_year_Suc:
  assumes "1970 \<le> y"
  shows "days_before_year (y + 1) = days_before_year y + year_days y"
proof -
  obtain k where y: "y = 1970 + k" using assms by (metis le_iff_add)
  have "leaps_until 1969 \<le> leaps_until (1969 + k)" by (rule leaps_until_mono) simp
  moreover have "leaps_until (1970 + k) = leaps_until (1969 + k) + (if is_leap (1970 + k) then 1 else 0)"
    using leaps_until_Suc[of "1969 + k"] by simp
  ultimately show ?thesis by (simp add: y days_before_year_def year_days_def add.commute add.left_commute)
qed

lemma find_year_correct:
  "1970 \<le> year \<Longrightarrow> find_year days year = (y, d) \<Longrightarrow>
   year \<le> y \<and> d < year_days y \<and> days_before_year year + days = days_before_year y + d"
proof (induction days year rule: find_year.induct)
  case (1 days year)
  show ?case
  proof (cases "days < year_days year")
    case True
    then show ?thesis using "1.prems" by (subst (asm) find_year.simps) auto
  next
    case False
    then have "find_year (days - year_days year) (year + 1) = (y, d)"
      using "1.prems"(2) by (subst (asm) find_year.simps) simp
    from "1.IH"[OF False _ this] "1.prems"(1) False days_before_year_Suc[of year] show ?thesis by simp
  qed
qed

lemma find_month_correct:
  "find_month ms days m0 = (m, d) \<Longrightarrow> days < sum_list ms \<Longrightarrow>
   m0 \<le> m \<and> m - m0 < length ms \<and> d < ms ! (m - m0) \<and> days = sum_list (take (m - m0) ms) + d"
proof (induction ms days m0 rule: find_month.induct)
  case (2 dm ms days m0)
  show ?case
  proof (cases "days < dm")
    case True
    then show ?thesis using "2.prems" by simp
  next
    case False
    with "2.prems" have "find_month ms (days - dm) (m0 + 1) = (m, d)" "days - dm < sum_list ms" by simp_all
    from "2.IH"[OF False this] have ih: "m0 + 1 \<le> m" "m - (m0 + 1) < length ms" "d < ms ! (m - (m0 + 1))"
      "days - dm = sum_list (take (m - (m0 + 1)) ms) + d" by simp_all
    have "days = dm + sum_list (take (m - (m0 + 1)) ms) + d" using ih(4) False by linarith
    moreover obtain k where "m = Suc (m0 + k)" using ih(1) by (metis Suc_eq_plus1 add_Suc le_iff_add)
    ultimately show ?thesis using ih by simp
  qed
qed simp

lemma month_lengths_sum: "sum_list (month_lengths y) = year_days y"
  by (simp add: month_lengths_def year_days_def)

text \<open>The date of a number of days is the one of the Gregorian calendar: the year, month and day
  the two loops find are a valid date, and counting the days up to that date with the closed
  formula for leap years gives the number back.\<close>

theorem days_to_date_gregorian:
  "valid_date (days_to_date days) \<and> date_to_days (days_to_date days) = days"
proof -
  obtain y d where fy: "find_year days 1970 = (y, d)" by (metis surj_pair)
  obtain m dd where fm: "find_month (month_lengths y) d 0 = (m, dd)" by (metis surj_pair)
  have y: "1970 \<le> y" "d < year_days y" "days = days_before_year y + d"
    using find_year_correct[OF _ fy] by (simp_all add: days_before_year_def leaps_until_def)
  from find_month_correct[OF fm] y(2) have m: "m < 12" "dd < month_lengths y ! m" "d = sum_list (take m (month_lengths y)) + dd"
    by (simp_all add: month_lengths_sum) (simp add: month_lengths_def)
  have "days_to_date days = (y, m + 1, dd + 1)" by (simp add: days_to_date_def fy fm)
  then show ?thesis using y m by (simp add: valid_date_def date_to_days_def days_before_month_def)
qed

section \<open>Reading a date back\<close>

text \<open>A date of a year of four digits has its fields in fixed places.\<close>

definition index_of :: "string \<Rightarrow> string list \<Rightarrow> nat" where
  "index_of s xs = length (takeWhile (\<lambda>x. x \<noteq> s) xs)"

definition field :: "nat \<Rightarrow> nat \<Rightarrow> string \<Rightarrow> string" where
  "field from n s = take n (drop from s)"

definition read_date :: "string \<Rightarrow> nat" where
  "read_date s =
     86400 * date_to_days (digits_value (field 12 4 s), index_of (field 8 3 s) month_names + 1, digits_value (field 5 2 s)) +
     3600 * digits_value (field 17 2 s) + 60 * digits_value (field 20 2 s) + digits_value (field 23 2 s)"

lemma length_show_nat_le: "n < 10 ^ w \<Longrightarrow> 0 < w \<Longrightarrow> length (show_nat n) \<le> w"
proof (induction n arbitrary: w rule: show_nat.induct)
  case (1 n)
  show ?case
  proof (cases "n < 10")
    case True
    then show ?thesis using "1.prems" by (subst show_nat.simps) simp
  next
    case False
    then obtain v where v: "w = Suc v" "0 < v" using "1.prems" by (cases w; cases "w - 1") auto
    have "n div 10 < 10 ^ v" using "1.prems"(1) v by (simp add: div_less_iff_less_mult mult.commute)
    from "1.IH"[OF False this v(2)] False v show ?thesis by (subst show_nat.simps) simp
  qed
qed

lemma digits_value_zeros: "digits_value (replicate k (CHR ''0'') @ s) = digits_value s"
proof -
  have "foldl (\<lambda>n c. 10 * n + digit_value c) 0 (replicate k (CHR ''0'')) = 0"
    by (induction k) (simp_all add: digit_value_def)
  then show ?thesis by (simp add: digits_value_def)
qed

lemma pad_value [simp]: "digits_value (pad w n) = n"
  by (simp add: pad_def digits_value_zeros)

lemma pad_length [simp]: "n < 10 ^ w \<Longrightarrow> 0 < w \<Longrightarrow> length (pad w n) = w"
  using length_show_nat_le[of n w] by (simp add: pad_def)

lemma field_skip: "length a = k \<Longrightarrow> field (k + i) n (a @ s) = field i n s"
  by (simp add: field_def)

lemma field_here: "length a = n \<Longrightarrow> field 0 n (a @ s) = a"
  by (simp add: field_def)

text \<open>Putting fixed-width fields after one another and cutting them out again.\<close>

lemma cut_fields:
  assumes "length wd = 3" "length d = 2" "length mo = 3" "length y = 4" "length h = 2" "length m = 2" "length s = 2"
  defines "t \<equiv> wd @ '', '' @ d @ '' '' @ mo @ '' '' @ y @ '' '' @ h @ '':'' @ m @ '':'' @ s @ '' GMT''"
  shows "field 5 2 t = d" "field 8 3 t = mo" "field 12 4 t = y" "field 17 2 t = h" "field 20 2 t = m" "field 23 2 t = s"
  using assms by (simp_all add: field_def)

lemma index_of_month:
  assumes "m < 12"
  shows "index_of (month_names ! m) month_names = m" and "length (month_names ! m) = 3"
proof -
  have "list_all (\<lambda>m. index_of (month_names ! m) month_names = m \<and> length (month_names ! m) = 3) [0..<12]" by code_simp
  then show "index_of (month_names ! m) month_names = m" "length (month_names ! m) = 3"
    using assms by (auto simp: list_all_iff)
qed

lemma weekday_length: "length (weekdays ! (n mod 7)) = 3"
proof -
  have "n mod 7 = 0 \<or> n mod 7 = 1 \<or> n mod 7 = 2 \<or> n mod 7 = 3 \<or> n mod 7 = 4 \<or> n mod 7 = 5 \<or> n mod 7 = 6"
    by presburger
  then show ?thesis by (auto simp: weekdays_def)
qed

lemma days_before_year_bound: "10000 \<le> y \<Longrightarrow> 2932897 \<le> days_before_year y"
proof -
  assume "10000 \<le> y"
  then have "leaps_until 9999 \<le> leaps_until (y - 1)" by (intro leaps_until_mono) simp
  moreover have "leaps_until 9999 - leaps_until 1969 = 1947" by (simp add: leaps_until_def)
  moreover have "365 * 8030 \<le> 365 * (y - 1970)" using \<open>10000 \<le> y\<close> by simp
  ultimately show ?thesis unfolding days_before_year_def by linarith
qed

text \<open>A formatted date reads back: for every time before the year 10000, the number of seconds
  recovered from the day, month, year, hour, minute and second in the text is the one that was
  formatted.\<close>

theorem read_format_date:
  assumes "secs < 253402300800"
  shows "read_date (format_date secs) = secs"
proof -
  obtain y m d where dt: "days_to_date (secs div 86400) = (y, m, d)" by (metis prod_cases3)
  have v: "valid_date (y, m, d)" "date_to_days (y, m, d) = secs div 86400"
    using days_to_date_gregorian[of "secs div 86400"] dt by simp_all
  have "secs div 86400 < 2932897" using assms by simp
  then have y4: "y < 10 ^ 4"
    using days_before_year_bound[of y] v(2) by (cases "10000 \<le> y") (simp_all add: date_to_days_def)
  have m: "m - 1 < 12" "m = (m - 1) + 1" using v(1) by (auto simp: valid_date_def)
  have "month_lengths y ! (m - 1) \<le> 31"
  proof -
    have "list_all (\<lambda>n. n \<le> 31) (month_lengths y)" by (simp add: month_lengths_def)
    moreover have "length (month_lengths y) = 12" by (simp add: month_lengths_def)
    ultimately show ?thesis using m(1) by (simp add: list_all_length)
  qed
  then have d: "d < 10 ^ 2" using v(1) by (simp add: valid_date_def)
  let ?tod = "secs mod 86400"
  let ?h = "?tod div 3600" and ?mi = "?tod mod 3600 div 60" and ?s = "?tod mod 60"
  have hms: "?h < 10 ^ 2" "?mi < 10 ^ 2" "?s < 10 ^ 2" by (simp_all add: div_less_iff_less_mult)
  have f: "format_date secs = weekdays ! ((secs div 86400 + 4) mod 7) @ '', '' @ pad 2 d @ '' '' @ month_names ! (m - 1) @ '' '' @
      pad 4 y @ '' '' @ pad 2 ?h @ '':'' @ pad 2 ?mi @ '':'' @ pad 2 ?s @ '' GMT''"
    by (simp add: format_date_def dt Let_def)
  note cut = cut_fields[OF weekday_length pad_length[OF d] index_of_month(2)[OF m(1)] pad_length[OF y4]
      pad_length[OF hms(1)] pad_length[OF hms(2)] pad_length[OF hms(3)], simplified zero_less_numeral, OF TrueI TrueI TrueI TrueI TrueI]
  have "read_date (format_date secs) = 86400 * date_to_days (y, m, d) + 3600 * ?h + 60 * ?mi + ?s"
    by (simp only: read_date_def f cut index_of_month(1)[OF m(1)] m(2)[symmetric] pad_value)
  also have "\<dots> = secs"
  proof -
    have "?tod mod 3600 mod 60 = ?s" by (rule mod_mod_cancel) simp
    then have "60 * ?mi + ?s = ?tod mod 3600" using mult_div_mod_eq[of 60 "?tod mod 3600"] by linarith
    then have "3600 * ?h + 60 * ?mi + ?s = ?tod" using mult_div_mod_eq[of 3600 ?tod] by linarith
    then show ?thesis unfolding v(2) using mult_div_mod_eq[of 86400 secs] by linarith
  qed
  finally show ?thesis .
qed

theorem read_format_date_witness: "read_date (format_date 1000000000) = 1000000000"
  by (rule read_format_date) simp

end
