(* ===== verification/Static_Files.thy ===== *)
theory Static_Files
  imports App Gzip Http_Date "HOL-Library.Product_Lexorder" "HOL-Library.List_Lexorder" "HOL-Library.Char_ord"
begin

text \<open>
  Serving files (\<^verbatim>\<open>src/src/static_files.rs\<close>): \<^verbatim>\<open>root\<close> and \<^verbatim>\<open>alias\<close>, conditional and
  range requests, directory listings and \<^verbatim>\<open>try_files\<close>.

  A path is the list of its bytes; \<open>path_components\<close> and \<open>extension\<close> are the standard library's
  on a Unix system. The file system is that of the operating
  system and an argument: \<open>file_ops\<close> gives the calls the code makes, each of which may change the
  state, since other tasks and processes run while a call is awaited.

  Shown here: no call names a path outside the root, whatever the request path; the answers
  for a regular file, and that a range is the slice of the file it names; that the tag a file is served with
  is recognised when the client sends it back; and that the markup of a listing is not altered by the names in it.
\<close>

section \<open>Paths\<close>

datatype path_component = RootDir | CurDir | ParentDir | Normal string

abbreviation slash :: char where "slash \<equiv> CHR ''/''"

definition segment_component :: "string \<Rightarrow> path_component" where
  "segment_component s = (if s = ''..'' then ParentDir else Normal s)"

definition path_segments :: "string \<Rightarrow> path_component list" where
  "path_segments p = map segment_component (filter (\<lambda>s. s \<noteq> [] \<and> s \<noteq> ''.'') (split_char slash p))"

text \<open>Empty segments and \<^verbatim>\<open>.\<close> are skipped, but for a \<^verbatim>\<open>.\<close> at the very start.\<close>

definition path_start :: "string \<Rightarrow> path_component list" where
  "path_start p =
     (if is_absolute p then [RootDir] else if hd (split_char slash p) = ''.'' then [CurDir] else [])"

definition path_components :: "string \<Rightarrow> path_component list" where
  "path_components p = path_start p @ path_segments p"

definition file_name :: "string \<Rightarrow> string option" where
  "file_name p = (case rev (path_components p) of Normal s # _ \<Rightarrow> Some s | _ \<Rightarrow> None)"

text \<open>The part of the file name after its last dot, unless that dot is the first character.\<close>

definition extension :: "string \<Rightarrow> string option" where
  "extension p =
     (case file_name p of
        None \<Rightarrow> None
      | Some f \<Rightarrow>
          (case split_char (CHR ''.'') f of
             [] \<Rightarrow> None
           | [_] \<Rightarrow> None
           | [a, b] \<Rightarrow> if a = [] then None else Some b
           | ps \<Rightarrow> Some (last ps)))"

definition mime_table :: "(string list \<times> string) list" where
  "mime_table = [
     ([''html'', ''htm''], ''text/html; charset=utf-8''),
     ([''css''], ''text/css; charset=utf-8''),
     ([''js'', ''mjs''], ''application/javascript; charset=utf-8''),
     ([''json''], ''application/json''),
     ([''txt'', ''text''], ''text/plain; charset=utf-8''),
     ([''xml''], ''application/xml''),
     ([''svg''], ''image/svg+xml''),
     ([''png''], ''image/png''),
     ([''jpg'', ''jpeg''], ''image/jpeg''),
     ([''gif''], ''image/gif''),
     ([''webp''], ''image/webp''),
     ([''ico''], ''image/x-icon''),
     ([''wasm''], ''application/wasm''),
     ([''pdf''], ''application/pdf''),
     ([''woff''], ''font/woff''),
     ([''woff2''], ''font/woff2'')]"

definition mime_for :: "string \<Rightarrow> string" where
  "mime_for path =
     (case find (\<lambda>(exts, t). or_empty (extension path) \<in> set exts) mime_table of
        Some (exts, t) \<Rightarrow> t
      | None \<Rightarrow> ''application/octet-stream'')"

fun plain_component :: "path_component \<Rightarrow> bool" where
  "plain_component (Normal s) = True"
| "plain_component CurDir = True"
| "plain_component c = False"

definition components_safe :: "string \<Rightarrow> bool" where
  "components_safe p \<longleftrightarrow> list_all plain_component (path_components p)"

section \<open>The file system\<close>

datatype io_error = Not_found | Other_error

text \<open>What the code asks of \<^verbatim>\<open>Metadata\<close>; the modification time in seconds of the epoch, if there is one
  and it is not before it.\<close>

record metadata =
  md_is_dir :: bool
  md_is_file :: bool
  md_len :: nat
  md_mtime_secs :: "nat option"

text \<open>An entry of a directory: the name, and whether it is a directory, unless its type cannot be
  read. A listing that fails midway is the list of the entries before the failure.\<close>

record dir_entry =
  de_file_name :: string
  de_is_dir :: "bool option"

record 's file_ops =
  io_metadata :: "string \<Rightarrow> 's \<Rightarrow> (io_error + metadata) \<times> 's"
  io_read :: "string \<Rightarrow> 's \<Rightarrow> (io_error + string) \<times> 's"
  io_read_dir :: "string \<Rightarrow> 's \<Rightarrow> (io_error + dir_entry list) \<times> 's"

text \<open>\<^verbatim>\<open>open\<close>, \<^verbatim>\<open>seek\<close> and \<^verbatim>\<open>read_exact\<close>, which fails when the file is shorter.\<close>

definition read_range :: "'s file_ops \<Rightarrow> string \<Rightarrow> nat \<Rightarrow> nat \<Rightarrow> 's \<Rightarrow> (io_error + string) \<times> 's" where
  "read_range io path start len s =
     (case io_read io path s of
        (Inl e, s') \<Rightarrow> (Inl e, s')
      | (Inr content, s') \<Rightarrow>
          if length (drop start content) < len then (Inl Other_error, s')
          else (Inr (take len (drop start content)), s'))"

section \<open>Markup\<close>

definition dquote :: string where
  "dquote = [CHR 0x22]"

definition html_escape_char :: "char \<Rightarrow> string" where
  "html_escape_char c =
     (if c = CHR ''<'' then ''&lt;''
      else if c = CHR ''>'' then ''&gt;''
      else if c = CHR ''&'' then ''&amp;''
      else if c = CHR 0x22 then ''&quot;''
      else [c])"

definition push_html_escaped :: "string \<Rightarrow> string \<Rightarrow> string" where
  "push_html_escaped out s = out @ concat (map html_escape_char s)"

definition attr_escape_char :: "char \<Rightarrow> string" where
  "attr_escape_char c = (if c = CHR 0x27 then ''&#39;'' else html_escape_char c)"

definition push_attr_escaped :: "string \<Rightarrow> string \<Rightarrow> string" where
  "push_attr_escaped out s = out @ concat (map attr_escape_char s)"

definition unreserved :: "char \<Rightarrow> bool" where
  "unreserved c \<longleftrightarrow> is_ascii_alphanumeric c \<or> c \<in> {CHR ''-'', CHR ''_'', CHR ''.'', CHR ''~''}"

definition url_encode_segment :: "string \<Rightarrow> string" where
  "url_encode_segment s =
     concat (map (\<lambda>b. if unreserved b then [b]
                       else [CHR 0x25, hex_char (of_char b div 16), hex_char (of_char b mod 16)]) s)"

section \<open>Directory listings\<close>

definition visible_entries :: "dir_entry list \<Rightarrow> (string \<times> bool) list" where
  "visible_entries ds =
     filter (\<lambda>(name, d). \<not> starts_with name ''.'')
       (map (\<lambda>e. (from_utf8_lossy (de_file_name e), de_is_dir e = Some True)) ds)"

text \<open>The comparison of the stable sort: directories first, then by the bytes of the name.\<close>

definition sort_entries :: "(string \<times> bool) list \<Rightarrow> (string \<times> bool) list" where
  "sort_entries = sort_key (\<lambda>(name, d). (\<not> d, name))"

definition entry_line :: "string \<times> bool \<Rightarrow> string \<Rightarrow> string" where
  "entry_line e html =
     (let (name, d) = e;
          display = (if d then name @ ''/'' else name);
          href = (if d then url_encode_segment name @ ''/'' else url_encode_segment name)
      in push_html_escaped (push_attr_escaped (html @ ''<a href='' @ dquote) href @ dquote @ ''>'') display @
           ''</a>'' @ [newline])"

definition listing_style :: string where
  "listing_style = ''<style>body{font:14px/1.5 system-ui,sans-serif;padding:1.5rem;max-width:60rem;margin:auto}h1{font-sz:1.25rem;margin-bottom:1rem}pre{margin:0}a{text-decoration:none;color:inherit}a:hover{text-decoration:underline}</style>''"

definition listing_head :: "string \<Rightarrow> string" where
  "listing_head uri_path =
     (let h1 = ''<!doctype html>'' @ [newline] @ ''<html>'' @ [newline] @ ''<head>'' @ [newline] @
            ''<meta charset='' @ dquote @ ''utf-8'' @ dquote @ ''>'' @ [newline] @ ''<title>Index of '';
          h2 = push_html_escaped h1 uri_path @
            ''</title>'' @ [newline] @ listing_style @ [newline] @ ''</head>'' @ [newline] @ ''<body>'' @ [newline] @
            ''<h1>Index of '';
          h3 = push_html_escaped h2 uri_path @ ''</h1>'' @ [newline] @ ''<pre>''
      in if uri_path \<noteq> ''/'' \<and> uri_path \<noteq> []
         then h3 @ ''<a href='' @ dquote @ ''../'' @ dquote @ ''>../</a>'' @ [newline] else h3)"

definition listing_html :: "string \<Rightarrow> (string \<times> bool) list \<Rightarrow> string" where
  "listing_html uri_path entries =
     fold entry_line entries (listing_head uri_path) @
       ''</pre>'' @ [newline] @ ''</body>'' @ [newline] @ ''</html>'' @ [newline]"

definition render_directory_listing :: "'h header_ops \<Rightarrow> 's file_ops \<Rightarrow> string \<Rightarrow> string \<Rightarrow> 's \<Rightarrow> 'h response \<times> 's" where
  "render_directory_listing H io dir uri_path s =
     (case io_read_dir io dir s of
        (Inl e, s') \<Rightarrow> (text_response H 403 (''403 Forbidden'' @ [newline]), s')
      | (Inr ds, s') \<Rightarrow>
          (\<lparr>rs_status = 200, rs_headers = hm_append H (hm_empty H) ''content-type'' ''text/html; charset=utf-8'',
            rs_body = listing_html uri_path (sort_entries (visible_entries ds))\<rparr>, s'))"

section \<open>Ranges and validators\<close>

text \<open>The numbers are \<^verbatim>\<open>u64\<close>; no subtraction below goes under zero.\<close>

definition parse_single_range :: "string \<Rightarrow> nat \<Rightarrow> (nat \<times> nat) option" where
  "parse_single_range raw sz =
     (case strip_prefix ''bytes='' raw of
        None \<Rightarrow> None
      | Some rest \<Rightarrow>
          if CHR '','' \<in> set rest then None
          else case split_once (CHR ''-'') rest of
            None \<Rightarrow> None
          | Some (a, b) \<Rightarrow>
              (let a = trim a; b = trim b
               in if sz = 0 then None
                  else if a = [] then
                    (case parse_u64 b of
                       None \<Rightarrow> None
                     | Some n \<Rightarrow> if n = 0 then None else (let n = min n sz in Some (sz - n, sz - 1)))
                  else if b = [] then
                    (case parse_u64 a of
                       None \<Rightarrow> None
                     | Some start \<Rightarrow> if start \<ge> sz then None else Some (start, sz - 1))
                  else
                    (case parse_u64 a of
                       None \<Rightarrow> None
                     | Some start \<Rightarrow>
                         (case parse_u64 b of
                            None \<Rightarrow> None
                          | Some stop \<Rightarrow>
                              if start > stop \<or> start \<ge> sz then None else Some (start, min stop (sz - 1))))))"

definition etag_of :: "nat \<Rightarrow> nat \<Rightarrow> string" where
  "etag_of sz mt = ''W/'' @ dquote @ show_hex sz @ ''-'' @ show_hex mt @ dquote"

definition last_modified :: "'h header_ops \<Rightarrow> nat option \<Rightarrow> 'h \<Rightarrow> 'h" where
  "last_modified H mtime h =
     (case mtime of Some m \<Rightarrow> hm_append H h ''last-modified'' (format_date m) | None \<Rightarrow> h)"

definition validators :: "'h header_ops \<Rightarrow> string option \<Rightarrow> nat option \<Rightarrow> 'h \<Rightarrow> 'h" where
  "validators H etag mtime h =
     last_modified H mtime (case etag of Some et \<Rightarrow> hm_append H h ''etag'' et | None \<Rightarrow> h)"

definition not_modified :: "'h header_ops \<Rightarrow> string \<Rightarrow> nat option \<Rightarrow> 'h response" where
  "not_modified H etag mtime =
     \<lparr>rs_status = 304, rs_headers = last_modified H mtime (hm_append H (hm_empty H) ''etag'' etag), rs_body = []\<rparr>"

definition revalidates :: "'h header_ops \<Rightarrow> 'h \<Rightarrow> string \<Rightarrow> bool" where
  "revalidates H req_headers et =
     (case header_text H req_headers ''if-none-match'' of
        None \<Rightarrow> False
      | Some v \<Rightarrow> list_ex (\<lambda>tok. tok = et \<or> tok = ''*'') (map trim (split_char (CHR '','') v)))"

section \<open>Serving\<close>

definition forbidden :: "'h header_ops \<Rightarrow> 'h response" where
  "forbidden H = text_response H 403 (''403 Forbidden'' @ [newline])"

definition not_found :: "'h header_ops \<Rightarrow> 'h response" where
  "not_found H = text_response H 404 (''404 Not Found'' @ [newline])"

definition rel_of :: "static_kind \<Rightarrow> string \<Rightarrow> string" where
  "rel_of kind req_path =
     (case kind of
        StaticRoot \<Rightarrow> trim_start_matches slash req_path
      | StaticAlias pre \<Rightarrow>
          trim_start_matches slash (case strip_prefix pre req_path of Some r \<Rightarrow> r | None \<Rightarrow> req_path))"

definition range_response :: "'h header_ops \<Rightarrow> string \<Rightarrow> nat \<Rightarrow> nat option \<Rightarrow> string option \<Rightarrow> nat \<times> nat \<Rightarrow> string \<Rightarrow> 'h response" where
  "range_response H path sz mtime etag se body =
     (let (start, stop) = se
      in \<lparr>rs_status = 206,
          rs_headers = validators H etag mtime
            (hm_append H
              (hm_append H
                (hm_append H
                  (hm_append H (hm_empty H) ''content-type'' (mime_for path))
                  ''content-length'' (show_nat (stop - start + 1)))
                ''accept-ranges'' ''bytes'')
              ''content-range'' (''bytes '' @ show_nat start @ ''-'' @ show_nat stop @ ''/'' @ show_nat sz)),
          rs_body = body\<rparr>)"

definition unsatisfiable :: "'h header_ops \<Rightarrow> nat \<Rightarrow> 'h response" where
  "unsatisfiable H sz =
     \<lparr>rs_status = 416,
      rs_headers = hm_append H (hm_append H (hm_empty H) ''content-type'' ''text/plain; charset=utf-8'')
        ''content-range'' (''bytes */'' @ show_nat sz),
      rs_body = ''416 Range Not Satisfiable'' @ [newline]\<rparr>"

definition whole_response :: "'h header_ops \<Rightarrow> string \<Rightarrow> bool \<Rightarrow> nat \<Rightarrow> nat option \<Rightarrow> string option \<Rightarrow> string \<Rightarrow> 'h response" where
  "whole_response H path head_only sz mtime etag body =
     (let h = hm_append H (hm_append H (hm_empty H) ''content-type'' (mime_for path)) ''accept-ranges'' ''bytes''
      in \<lparr>rs_status = 200,
          rs_headers = validators H etag mtime
            (if head_only then hm_append H h ''content-length'' (show_nat sz) else h),
          rs_body = body\<rparr>)"

text \<open>The answer once the file and its metadata are known.\<close>

definition serve_file :: "'h header_ops \<Rightarrow> 's file_ops \<Rightarrow> string \<Rightarrow> metadata \<Rightarrow> 'h \<Rightarrow> string \<Rightarrow> 's \<Rightarrow> 'h response \<times> 's" where
  "serve_file H io path meta req_headers req_method s =
     (let sz = md_len meta;
          mtime = md_mtime_secs meta;
          etag = map_option (etag_of sz) mtime;
          head_only = (req_method = ''HEAD'');
          range = header_text H req_headers ''range''
      in if (case etag of Some et \<Rightarrow> revalidates H req_headers et | None \<Rightarrow> False)
         then (not_modified H (or_empty etag) mtime, s)
         else case Option.bind range (\<lambda>r. parse_single_range r sz) of
           Some (start, stop) \<Rightarrow>
             if head_only then (range_response H path sz mtime etag (start, stop) [], s)
             else (case read_range io path start (stop - start + 1) s of
                     (Inr b, s') \<Rightarrow> (range_response H path sz mtime etag (start, stop) b, s')
                   | (Inl e, s') \<Rightarrow> (text_response H 500 (''500 Internal Server Error'' @ [newline]), s'))
         | None \<Rightarrow>
             if (case range of Some v \<Rightarrow> starts_with v ''bytes='' | None \<Rightarrow> False) then (unsatisfiable H sz, s)
             else if head_only then (whole_response H path True sz mtime etag [], s)
             else (case io_read io path s of
                     (Inr b, s') \<Rightarrow> (whole_response H path False sz mtime etag b, s')
                   | (Inl Not_found, s') \<Rightarrow> (not_found H, s')
                   | (Inl e, s') \<Rightarrow> (forbidden H, s')))"

definition serve :: "'h header_ops \<Rightarrow> 's file_ops \<Rightarrow> string \<Rightarrow> static_kind \<Rightarrow> string \<Rightarrow> 'h \<Rightarrow> string \<Rightarrow> bool \<Rightarrow>
    's \<Rightarrow> 'h response \<times> 's" where
  "serve H io dir kind req_path req_headers req_method autoindex s =
     (let rel = rel_of kind req_path
      in if \<not> components_safe rel then (forbidden H, s)
         else
           (let full_path = path_join dir rel
            in case io_metadata io full_path s of
                 (Inl Not_found, s1) \<Rightarrow> (not_found H, s1)
               | (Inl e, s1) \<Rightarrow> (forbidden H, s1)
               | (Inr meta, s1) \<Rightarrow>
                   if md_is_dir meta then
                     (let index_path = path_join full_path ''index.html''
                      in case io_metadata io index_path s1 of
                           (Inr m, s2) \<Rightarrow> serve_file H io index_path m req_headers req_method s2
                         | (Inl Not_found, s2) \<Rightarrow>
                             if autoindex then render_directory_listing H io full_path req_path s2
                             else (not_found H, s2)
                         | (Inl e, s2) \<Rightarrow> (forbidden H, s2))
                   else serve_file H io full_path meta req_headers req_method s1))"

fun try_entries :: "'h header_ops \<Rightarrow> 's file_ops \<Rightarrow> string \<Rightarrow> 'h request_ctx \<Rightarrow> 'h \<Rightarrow> string \<Rightarrow>
    try_files_entry_rt list \<Rightarrow> 's \<Rightarrow> 'h response \<times> 's" where
  "try_entries H io dir ctx req_headers req_method [] s = (not_found H, s)"
| "try_entries H io dir ctx req_headers req_method (RtStatus code # rest) s =
     (if rest = [] then (text_response H code (show_nat code @ '' '' @ [newline]), s)
      else try_entries H io dir ctx req_headers req_method rest s)"
| "try_entries H io dir ctx req_headers req_method (RtPath tmpl # rest) s =
     (let rendered = render H ctx tmpl;
          rel = trim_start_matches slash rendered
      in if \<not> components_safe rel then
           (if rest = [] then (forbidden H, s)
            else try_entries H io dir ctx req_headers req_method rest s)
         else
           (let (m, s1) = io_metadata io (path_join dir rel) s
            in if (case m of Inr meta \<Rightarrow> md_is_file meta | Inl e \<Rightarrow> False) \<or> rest = []
               then serve H io dir StaticRoot rendered req_headers req_method False s1
               else try_entries H io dir ctx req_headers req_method rest s1))"

definition try_files :: "'h header_ops \<Rightarrow> 's file_ops \<Rightarrow> string \<Rightarrow> try_files_entry_rt list \<Rightarrow> 'h request_ctx \<Rightarrow> 'h \<Rightarrow>
    string \<Rightarrow> 's \<Rightarrow> 'h response \<times> 's" where
  "try_files H io dir entries ctx req_headers req_method s =
     (if entries = [] then (text_response H 500 (''500 Internal Server Error'' @ [newline]), s)
      else try_entries H io dir ctx req_headers req_method entries s)"

section \<open>Confinement\<close>

text \<open>\<open>beneath dir p\<close>: the components of \<open>p\<close> are those of \<open>dir\<close> followed by ordinary ones, so \<open>p\<close> does
  not climb out of the directory.\<close>

definition beneath :: "string \<Rightarrow> string \<Rightarrow> bool" where
  "beneath dir p \<longleftrightarrow> (\<exists>cs. path_components p = path_components dir @ cs \<and> list_all plain_component cs)"

definition same_within :: "string \<Rightarrow> 's file_ops \<Rightarrow> 's file_ops \<Rightarrow> bool" where
  "same_within dir io io' \<longleftrightarrow>
     (\<forall>p. beneath dir p \<longrightarrow>
        io_metadata io p = io_metadata io' p \<and> io_read io p = io_read io' p \<and> io_read_dir io p = io_read_dir io' p)"

lemma split_char_concat: "split_char c (a @ c # b) = split_char c a @ split_char c b"
  by (induction a) (auto split: list.splits)

lemma path_segments_slash: "path_segments (a @ slash # b) = path_segments a @ path_segments b"
  by (simp add: path_segments_def split_char_concat)

lemma path_segments_Nil [simp]: "path_segments [] = []"
  by (simp add: path_segments_def)

lemma path_start_slash:
  assumes "a \<noteq> []"
  shows "path_start (a @ slash # b) = path_start a"
proof -
  have "is_absolute (a @ slash # b) = is_absolute a"
    using assms by (cases a) (simp_all add: is_absolute_def starts_with_take)
  then show ?thesis by (simp add: path_start_def split_char_concat)
qed

lemma path_components_slash: "a \<noteq> [] \<Longrightarrow> path_components (a @ slash # b) = path_components a @ path_segments b"
  by (simp add: path_components_def path_start_slash path_segments_slash)

lemma path_components_root: "path_components (slash # b) = path_components [slash] @ path_segments b"
  using path_segments_slash[of "[]" b] path_segments_slash[of "[]" "[]"]
  by (simp add: path_components_def path_start_def is_absolute_def starts_with_take)

lemma path_components_join:
  assumes "\<not> is_absolute rel"
  shows "path_components (path_join p rel) = (if p = [] then path_components rel else path_components p @ path_segments rel)"
proof (cases p rule: rev_cases)
  case (snoc q c)
  show ?thesis
  proof (cases "c = slash")
    case True
    with snoc assms show ?thesis
      using path_components_slash[of q rel] path_components_slash[of q "[]"]
      by (cases "q = []") (simp_all add: path_join_def path_components_root[of rel])
  next
    case False
    with snoc assms path_components_slash[of p rel] show ?thesis by (simp add: path_join_def)
  qed
qed (simp add: path_join_def)

lemma beneath_join:
  assumes "beneath dir p" and "\<not> is_absolute rel" and "components_safe rel"
  shows "beneath dir (path_join p rel)"
proof -
  have "path_components [] = []" by (simp add: path_components_def path_start_def is_absolute_def starts_with_take)
  then show ?thesis
    using assms by (auto simp: beneath_def components_safe_def path_components_join)
      (auto simp: path_components_def)
qed

lemma beneath_refl: "beneath dir dir"
  by (simp add: beneath_def)

lemma trimmed_relative: "\<not> is_absolute (trim_start_matches slash p)"
  by (induction p) (simp_all add: is_absolute_def trim_start_matches_def starts_with_take)

lemma rel_of_relative: "\<not> is_absolute (rel_of kind p)"
  by (cases kind) (simp_all add: rel_of_def trimmed_relative)

lemma index_safe: "\<not> is_absolute ''index.html''" "components_safe ''index.html''"
  by code_simp+

lemma serve_file_same:
  "same_within dir io io' \<Longrightarrow> beneath dir p \<Longrightarrow>
   serve_file H io p meta hs m s = serve_file H io' p meta hs m s"
  by (simp add: serve_file_def same_within_def read_range_def Let_def cong: option.case_cong sum.case_cong)

lemma serve_same:
  assumes "same_within dir io io'"
  shows "serve H io dir kind p hs m ai s = serve H io' dir kind p hs m ai s"
proof (cases "components_safe (rel_of kind p)")
  case True
  let ?f = "path_join dir (rel_of kind p)"
  have w: "beneath dir ?f" by (rule beneath_join[OF beneath_refl rel_of_relative True])
  note wi = beneath_join[OF w index_safe]
  have e: "io_metadata io ?f = io_metadata io' ?f" "io_read_dir io ?f = io_read_dir io' ?f"
    "io_metadata io (path_join ?f ''index.html'') = io_metadata io' (path_join ?f ''index.html'')"
    using assms w wi by (simp_all add: same_within_def)
  show ?thesis
    unfolding serve_def Let_def render_directory_listing_def e serve_file_same[OF assms w] serve_file_same[OF assms wi] ..
qed (simp add: serve_def)

lemma try_entries_same:
  assumes "same_within dir io io'"
  shows "try_entries H io dir ctx hs m es s = try_entries H io' dir ctx hs m es s"
proof (induction es arbitrary: s)
  case (Cons e es)
  show ?case
  proof (cases e)
    case (RtPath t)
    let ?rel = "trim_start_matches slash (render H ctx t)"
    have "components_safe ?rel \<Longrightarrow> io_metadata io (path_join dir ?rel) = io_metadata io' (path_join dir ?rel)"
      using assms beneath_join[OF beneath_refl trimmed_relative] by (simp add: same_within_def)
    then show ?thesis using RtPath by (simp add: Let_def serve_same[OF assms] Cons.IH split: prod.splits)
  qed (simp add: Cons.IH)
qed simp

text \<open>C4: No request reads outside the configured directory: whatever the path of the request, the method
  and the headers, and whatever the paths the entries of a \<^verbatim>\<open>try_files\<close> render to, the answer and the
  effects are the same for any two file systems that agree on the paths within the directory.\<close>

theorem serve_confined:
  assumes "same_within dir io io'"
  shows "serve H io dir kind req_path hs m autoindex s = serve H io' dir kind req_path hs m autoindex s \<and>
    try_files H io dir entries ctx hs m s = try_files H io' dir entries ctx hs m s"
  by (simp add: try_files_def serve_same[OF assms] try_entries_same[OF assms])

text \<open>A file system that holds the given files, all of them last modified at the same time.\<close>

definition listed_files :: "(string \<times> string) list \<Rightarrow> nat \<Rightarrow> 's file_ops" where
  "listed_files fs mt = \<lparr>
     io_metadata = (\<lambda>p s. (case map_of fs p of
         Some c \<Rightarrow> Inr \<lparr>md_is_dir = False, md_is_file = True, md_len = length c, md_mtime_secs = Some mt\<rparr>
       | None \<Rightarrow>
           if list_ex (\<lambda>(q, c). starts_with q (trim_end_matches slash p @ ''/'')) fs
           then Inr \<lparr>md_is_dir = True, md_is_file = False, md_len = 0, md_mtime_secs = Some mt\<rparr>
           else Inl Not_found, s)),
     io_read = (\<lambda>p s. (case map_of fs p of Some c \<Rightarrow> Inr c | None \<Rightarrow> Inl Not_found, s)),
     io_read_dir = (\<lambda>p s. (Inl Other_error, s))\<rparr>"

definition other_passwd :: "'s file_ops \<Rightarrow> 's file_ops" where
  "other_passwd io = io\<lparr>io_read := (\<lambda>p s. if p = ''/etc/passwd'' then (Inr ''secret'', s) else io_read io p s)\<rparr>"

theorem serve_confined_witness:
  "serve list_headers (listed_files [(''/srv/a'', ''x'')] 0) ''/srv'' StaticRoot ''/../etc/passwd'' [] ''GET'' False () =
   serve list_headers (other_passwd (listed_files [(''/srv/a'', ''x'')] 0)) ''/srv'' StaticRoot ''/../etc/passwd'' [] ''GET'' False ()"
proof -
  have "path_components ''/srv'' = [RootDir, Normal ''srv'']"
    "path_components ''/etc/passwd'' = [RootDir, Normal ''etc'', Normal ''passwd'']" by code_simp+
  then have "\<not> beneath ''/srv'' ''/etc/passwd''" by (simp add: beneath_def)
  then have "same_within ''/srv'' io (other_passwd io)" for io :: "unit file_ops"
    by (auto simp: same_within_def other_passwd_def)
  from conjunct1[OF serve_confined[OF this]] show ?thesis .
qed

section \<open>Ranges\<close>

lemma show_nat_plain: "c \<in> set (show_nat n) \<Longrightarrow> is_ascii_digit c"
  using show_nat_digits[of n] by (auto simp: list_all_iff)

lemma show_nat_clean:
  "CHR ''-'' \<notin> set (show_nat n)" "CHR '','' \<notin> set (show_nat n)" "trim (show_nat n) = show_nat n"
proof -
  have "\<not> is_ascii_digit CHR ''-''" "\<not> is_ascii_digit CHR '',''" by code_simp+
  then show "CHR ''-'' \<notin> set (show_nat n)" "CHR '','' \<notin> set (show_nat n)" by (auto dest: show_nat_plain)
  have "is_ascii_digit c \<Longrightarrow> \<not> is_whitespace c" for c by (auto simp: is_ascii_digit_def is_whitespace_def)
  then show "trim (show_nat n) = show_nat n" by (intro trim_id) (blast dest: show_nat_plain)
qed

lemma split_range:
  assumes "CHR ''-'' \<notin> set x"
  shows "split_once (CHR ''-'') (x @ ''-'' @ y) = Some (x, y)"
  using assms by (simp add: split_once_Some_iff)

lemma trim_Nil [simp]: "trim [] = []"
  by (simp add: trim_def)

lemma parse_first_last:
  assumes "a < 2 ^ 64" and "b < 2 ^ 64"
  shows "parse_single_range (''bytes='' @ show_nat a @ ''-'' @ show_nat b) sz =
    (if a \<le> b \<and> a < sz then Some (a, min b (sz - 1)) else None)"
  using assms split_range[OF show_nat_clean(1), of a "show_nat b"]
  by (simp add: parse_single_range_def Let_def show_nat_clean parse_uint_show_nat)

lemma range_names:
  "\<not> eq_ignore_ascii_case ''etag'' ''content-length''" "\<not> eq_ignore_ascii_case ''last-modified'' ''content-length''"
  "\<not> eq_ignore_ascii_case ''content-type'' ''content-length''" "\<not> eq_ignore_ascii_case ''accept-ranges'' ''content-length''"
  "\<not> eq_ignore_ascii_case ''content-range'' ''content-length''"
  "\<not> eq_ignore_ascii_case ''etag'' ''content-range''" "\<not> eq_ignore_ascii_case ''last-modified'' ''content-range''"
  "\<not> eq_ignore_ascii_case ''content-type'' ''content-range''" "\<not> eq_ignore_ascii_case ''accept-ranges'' ''content-range''"
  "\<not> eq_ignore_ascii_case ''content-length'' ''content-range''"
  by code_simp+

text \<open>The single range parser is exact. Every range it returns is a non-empty part of the file: the
  start is not after the end, and the end is inside. And it returns what the three written forms
  mean: from a first to a last byte, cut at the end of the file; from a first byte on; and the last so many bytes.
  A range that starts beyond the end, is reversed, or asks for the last zero bytes is refused.\<close>

theorem parse_single_range_exact:
  assumes "a < 2 ^ 64" and "b < 2 ^ 64"
  shows "(case parse_single_range raw sz of Some (x, y) \<Rightarrow> x \<le> y \<and> y < sz | None \<Rightarrow> True) \<and>
    parse_single_range (''bytes='' @ show_nat a @ ''-'' @ show_nat b) sz =
      (if a \<le> b \<and> a < sz then Some (a, min b (sz - 1)) else None) \<and>
    parse_single_range (''bytes='' @ show_nat a @ ''-'') sz = (if a < sz then Some (a, sz - 1) else None) \<and>
    parse_single_range (''bytes=-'' @ show_nat b) sz =
      (if b = 0 \<or> sz = 0 then None else Some (sz - min b sz, sz - 1))"
proof (intro conjI)
  show "case parse_single_range raw sz of Some (x, y) \<Rightarrow> x \<le> y \<and> y < sz | None \<Rightarrow> True"
    by (auto simp: parse_single_range_def Let_def split: option.splits prod.splits if_splits)
  have pa: "parse_u64 (show_nat a) = Some a" and pb: "parse_u64 (show_nat b) = Some b"
    using assms by (simp_all add: parse_uint_show_nat)
  have s: "split_once (CHR ''-'') (show_nat a @ CHR ''-'' # y) = Some (show_nat a, y)" for y
    using split_range[OF show_nat_clean(1)] by simp
  show "parse_single_range (''bytes='' @ show_nat a @ ''-'' @ show_nat b) sz =
      (if a \<le> b \<and> a < sz then Some (a, min b (sz - 1)) else None)"
    by (rule parse_first_last[OF assms])
  show "parse_single_range (''bytes='' @ show_nat a @ ''-'') sz = (if a < sz then Some (a, sz - 1) else None)"
    using show_nat_clean[of a] pa by (simp add: parse_single_range_def s Let_def)
  show "parse_single_range (''bytes=-'' @ show_nat b) sz =
      (if b = 0 \<or> sz = 0 then None else Some (sz - min b sz, sz - 1))"
    using pb by (simp add: parse_single_range_def Let_def show_nat_clean parse_uint_show_nat)
qed

theorem parse_single_range_exact_witness:
  "parse_single_range (''bytes='' @ show_nat 10 @ ''-'' @ show_nat 999) 100 = Some (10, 99)"
  using parse_single_range_exact[where a = 10 and b = 999 and sz = 100] by simp

text \<open>A file that stays as it is: its metadata and its content, whenever they are asked for.\<close>

definition stable_file :: "'s file_ops \<Rightarrow> string \<Rightarrow> string \<Rightarrow> nat option \<Rightarrow> bool" where
  "stable_file io p content mtime \<longleftrightarrow>
     (\<forall>s. fst (io_metadata io p s) =
        Inr \<lparr>md_is_dir = False, md_is_file = True, md_len = length content, md_mtime_secs = mtime\<rparr> \<and>
        fst (io_read io p s) = Inr content)"

lemma serve_stable:
  assumes "stable_file io (path_join dir (rel_of kind p)) content mtime" and "components_safe (rel_of kind p)"
  shows "fst (serve H io dir kind p hs m ai s) =
    fst (serve_file H io (path_join dir (rel_of kind p))
      \<lparr>md_is_dir = False, md_is_file = True, md_len = length content, md_mtime_secs = mtime\<rparr> hs m
      (snd (io_metadata io (path_join dir (rel_of kind p)) s)))"
proof -
  obtain s1 where "io_metadata io (path_join dir (rel_of kind p)) s =
      (Inr \<lparr>md_is_dir = False, md_is_file = True, md_len = length content, md_mtime_secs = mtime\<rparr>, s1)"
    using assms(1) by (metis stable_file_def prod.collapse)
  then show ?thesis using assms(2) by (simp add: serve_def)
qed

lemma validators_get:
  assumes "header_laws H"
  shows "eq_ignore_ascii_case ''etag'' n \<or> eq_ignore_ascii_case ''last-modified'' n \<or>
    hm_get_all H (validators H et mt h) n = hm_get_all H h n"
  using header_lawsD(5)[OF assms] by (auto simp: validators_def last_modified_def split: option.splits)

text \<open>The slice that is read, and the answer made of it.\<close>

lemma read_range_stable:
  assumes "stable_file io f content mtime" and "a < length content" and "a \<le> b"
  shows "fst (read_range io f a (min b (length content - 1) - a + 1) s) = Inr (take (b + 1 - a) (drop a content))"
proof -
  let ?c = "min b (length content - 1)"
  have "fst (io_read io f s) = Inr content" using assms(1) by (simp add: stable_file_def)
  moreover have "take (?c - a + 1) (drop a content) = take (b + 1 - a) (drop a content)"
    using assms(2,3) by (cases "b < length content") (auto simp: min_def Suc_diff_le)
  moreover have "?c - a + 1 \<le> length (drop a content)" using assms(2,3) by auto
  ultimately show ?thesis by (cases "io_read io f s") (simp add: read_range_def)
qed

lemma range_response_slice:
  assumes "header_laws H" and "a < length content" and "a \<le> b"
    and "r = range_response H f (length content) mtime et (a, min b (length content - 1)) (take (b + 1 - a) (drop a content))"
  shows "rs_status r = 206 \<and> rs_body r = take (b + 1 - a) (drop a content) \<and>
      hm_get_all H (rs_headers r) ''content-length'' = [show_nat (length (rs_body r))] \<and>
      hm_get_all H (rs_headers r) ''content-range'' =
        [''bytes '' @ show_nat a @ ''-'' @ show_nat (a + length (rs_body r) - 1) @ ''/'' @ show_nat (length content)]"
proof -
  have len: "min (length content - a) (Suc b - a) = Suc (min b (length content - 1) - a)" using assms(2,3) by auto
  have pos: "a + (min b (length content - Suc 0) - a) = min b (length content - Suc 0)" using assms(2,3) by auto
  show ?thesis
    using validators_get[OF assms(1), of "''content-length''"] validators_get[OF assms(1), of "''content-range''"] len range_names
    by (simp add: assms(4) range_response_def header_lawsD(1,5)[OF assms(1)]) (simp only: pos)
qed


lemma listed_files_stable: "map_of fs p = Some c \<Longrightarrow> stable_file (listed_files fs mt) p c (Some mt)"
  by (simp add: stable_file_def listed_files_def)


section \<open>Revalidation\<close>

lemma show_hex_plain: "c \<in> set (show_hex n) \<Longrightarrow> is_ascii_alphanumeric c"
proof (induction n rule: show_hex.induct)
  case (1 n)
  have d: "is_ascii_alphanumeric (char_of (48 + d))" if "d < 10" for d :: nat
    using that by (auto simp: is_ascii_alphanumeric_def of_char_char_of_small)
  have x: "is_ascii_alphanumeric (char_of (87 + d))" if "\<not> d < 10" "d < 16" for d :: nat
    using that by (auto simp: is_ascii_alphanumeric_def of_char_char_of_small)
  show ?case using 1 d x[of "n mod 16"] by (subst (asm) (2) show_hex.simps) (auto simp: Let_def split: if_splits)
qed

lemma etag_of_clean: "CHR '','' \<notin> set (etag_of n mt)" "trim (etag_of n mt) = etag_of n mt"
proof -
  have "\<not> is_ascii_alphanumeric CHR '',''" by code_simp
  then show "CHR '','' \<notin> set (etag_of n mt)" by (auto simp: etag_of_def dquote_def dest: show_hex_plain)
  have "\<not> is_whitespace CHR ''W''" "\<not> is_whitespace CHR 0x22" by code_simp+
  then show "trim (etag_of n mt) = etag_of n mt" by (simp add: etag_of_def dquote_def trim_def)
qed

lemma etag_served:
  assumes "header_laws H" and "serve_file H io p meta hs m s = (r, s1)" and "hm_get_all H (rs_headers r) ''etag'' = [et]"
  shows "map_option (etag_of (md_len meta)) (md_mtime_secs meta) = Some et"
proof -
  have n: "\<not> eq_ignore_ascii_case ''last-modified'' ''etag''" "\<not> eq_ignore_ascii_case ''content-range'' ''etag''"
    "\<not> eq_ignore_ascii_case ''accept-ranges'' ''etag''" "\<not> eq_ignore_ascii_case ''content-length'' ''etag''"
    "\<not> eq_ignore_ascii_case ''content-type'' ''etag''" by code_simp+
  note get = header_lawsD(1,5)[OF assms(1)]
  have v: "hm_get_all H (validators H e mt h) ''etag'' = hm_get_all H h ''etag'' @ (case e of Some x \<Rightarrow> [x] | None \<Rightarrow> [])" for e mt h
    by (simp add: validators_def last_modified_def get n split: option.splits)
  show ?thesis using assms(2,3)
    by (auto simp: serve_file_def Let_def range_response_def whole_response_def unsatisfiable_def not_modified_def
        last_modified_def not_found_def forbidden_def text_response_def or_empty_def v get n
        split: if_splits option.splits prod.splits sum.splits io_error.splits)
qed

text \<open>The entity tag of a file is accepted back: when a response for a file carries a tag, a later
  request that sends this tag while the file has the same length and modification time
  is answered with 304, the same tag and no body, and the file is not read.\<close>

theorem etag_revalidates:
  assumes "header_laws H" and "serve_file H io p meta hs m s = (r, s1)" and "hm_get_all H (rs_headers r) ''etag'' = [et]"
    and "header_text H hs' ''if-none-match'' = Some et"
    and "serve_file H io' p meta hs' m' s' = (r', s1')"
  shows "rs_status r' = 304 \<and> rs_body r' = [] \<and> hm_get_all H (rs_headers r') ''etag'' = [et] \<and> s1' = s'"
proof -
  obtain mt where mt: "md_mtime_secs meta = Some mt" "et = etag_of (md_len meta) mt"
    using etag_served[OF assms(1-3)] by auto
  have "revalidates H hs' et"
    by (simp add: revalidates_def assms(4) split_char_absent mt(2) etag_of_clean)
  then have "r' = not_modified H et (Some mt)" "s1' = s'"
    using assms(5) mt by (auto simp: serve_file_def Let_def or_empty_def)
  moreover have "\<not> eq_ignore_ascii_case ''last-modified'' ''etag''" by code_simp
  ultimately show ?thesis by (simp add: not_modified_def last_modified_def header_lawsD(1,5)[OF assms(1)])
qed

definition demo_meta :: metadata where
  "demo_meta = \<lparr>md_is_dir = False, md_is_file = True, md_len = 2, md_mtime_secs = Some 255\<rparr>"

theorem etag_revalidates_witness:
  "rs_status (fst (serve_file list_headers (listed_files [(''/srv/a'', ''ab'')] 255) ''/srv/a'' demo_meta
     [(''if-none-match'', etag_of 2 255)] ''GET'' ())) = 304"
proof -
  let ?io = "listed_files [(''/srv/a'', ''ab'')] 255 :: unit file_ops"
  let ?hs = "[(''if-none-match'', etag_of 2 255)]"
  have "hm_get_all list_headers (rs_headers (fst (serve_file list_headers ?io ''/srv/a'' demo_meta [] ''GET'' ()))) ''etag'' =
      [etag_of 2 255]" "header_text list_headers ?hs ''if-none-match'' = Some (etag_of 2 255)" by code_simp+
  from conjunct1[OF etag_revalidates[OF list_headers_laws prod.collapse[symmetric] this prod.collapse[symmetric]]]
  show ?thesis .
qed

section \<open>Listings\<close>

text \<open>The characters that make tags and attributes.\<close>

definition markup :: "string \<Rightarrow> string" where
  "markup = filter (\<lambda>c. c = CHR ''<'' \<or> c = CHR ''>'' \<or> c = CHR 0x22)"

lemma markup_append: "markup (a @ b) = markup a @ markup b"
  by (simp add: markup_def)

lemma markup_escape_char: "markup (html_escape_char c) = []" "markup (attr_escape_char c) = []"
  by (simp_all add: html_escape_char_def attr_escape_char_def markup_def)

lemma markup_concat: "(\<And>c. markup (f c) = []) \<Longrightarrow> markup (concat (map f s)) = []"
  by (induction s) (simp_all add: markup_append, simp add: markup_def)

lemma markup_escaped: "markup (push_html_escaped out s) = markup out" "markup (push_attr_escaped out s) = markup out"
  using markup_concat[OF markup_escape_char(1)] markup_concat[OF markup_escape_char(2)]
  by (simp_all add: push_html_escaped_def push_attr_escaped_def markup_append)

lemma markup_lines:
  "length es = length es' \<Longrightarrow> markup h = markup h' \<Longrightarrow> markup (fold entry_line es h) = markup (fold entry_line es' h')"
proof (induction es es' arbitrary: h h' rule: list_induct2)
  case (Cons e es e' es')
  have "markup (entry_line e h) = markup (entry_line e' h')"
    unfolding entry_line_def Let_def case_prod_unfold markup_append markup_escaped Cons.prems ..
  then show ?case using Cons.IH by simp
qed simp

text \<open>Names cannot inject markup into a directory listing: the tag and attribute delimiters of the page are
  the same for any two directories with as many entries, whatever the names of the files and the paths in the
  URL, as long as both or neither are the top directory.\<close>

theorem listing_markup_fixed:
  assumes "length es = length es'" and "uri \<in> {''/'', []} \<longleftrightarrow> uri' \<in> {''/'', []}"
  shows "markup (listing_html uri es) = markup (listing_html uri' es')"
proof -
  have nested: "(uri \<noteq> ''/'' \<and> uri \<noteq> []) = (uri' \<noteq> ''/'' \<and> uri' \<noteq> [])"
    using assms(2) by blast
  have "markup (listing_head uri) = markup (listing_head uri')"
    unfolding listing_head_def Let_def if_distrib[of markup] markup_append markup_escaped nested ..
  from markup_lines[OF assms(1) this] show ?thesis by (simp only: listing_html_def markup_append)
qed

theorem listing_markup_fixed_witness:
  "markup (listing_html ''/a'' [(''<script>'', False)]) = markup (listing_html ''/a'' [(''x'', False)])"
  by (rule listing_markup_fixed) simp_all

end
