(* ===== verification/Subrequests.thy ===== *)
theory Subrequests
  imports Proxy
begin

text \<open>
  Requests the server makes on its own: the delegated authorisation of \<^verbatim>\<open>src/src/auth_request.rs\<close> and
  the shadow requests of \<^verbatim>\<open>src/src/mirror.rs\<close>. The HTTP client is a library; \<open>sub_send\<close>, an argument, is one
  exchange under a timeout, and returns the shared state after it, as in \<open>proxy_env\<close>.

  A mirror is a task of its own: \<open>dispatch\<close> gives the list of the tasks it spawns, and \<open>fire\<close> is what each
  does when it runs.

  Shown here: a request passes the authorisation exactly when the service answers with a 2xx
  status, and what the service is told; and that the counters account for every shadow request.
\<close>

datatype 'h sent = Replied "'h streamed" | Send_failed | Timed_out

record ('h, 'w) sub_env =
  sub_parse_uri :: "string \<Rightarrow> string + http_uri"
  sub_send :: "'h http_request \<Rightarrow> duration \<Rightarrow> 'w shared \<Rightarrow> 'h sent \<times> 'w shared"

section \<open>Requests\<close>

definition forwarded_headers :: "string list" where
  "forwarded_headers = [''authorization'', ''cookie'', ''user-agent'']"

definition forward_header :: "'h header_ops \<Rightarrow> 'h \<Rightarrow> string \<Rightarrow> 'h \<Rightarrow> 'h" where
  "forward_header H client_headers name h =
     (case hm_get H client_headers name of Some v \<Rightarrow> hm_append H h name v | None \<Rightarrow> h)"

definition base_headers :: "'h header_ops \<Rightarrow> string \<Rightarrow> 'h \<Rightarrow> 'h" where
  "base_headers H agent client_headers =
     fold (forward_header H client_headers) forwarded_headers (hm_append H (hm_empty H) ''user-agent'' agent)"

definition subrequest :: "string \<Rightarrow> http_uri \<Rightarrow> 'h \<Rightarrow> 'h http_request" where
  "subrequest mthd uri h = \<lparr>rq_method = mthd, rq_uri = uri, rq_version = ''HTTP/1.1'', rq_headers = h, rq_body = []\<rparr>"

section \<open>Delegated authorisation\<close>

definition auth_request_timeout :: duration where
  "auth_request_timeout = from_secs 5"

definition auth_headers :: "'h header_ops \<Rightarrow> 'h request_ctx \<Rightarrow> 'h \<Rightarrow> 'h" where
  "auth_headers H ctx client_headers =
     hm_append H
       (hm_append H (base_headers H ''elrond-auth-request'' client_headers)
          ''x-original-uri'' (or_empty (hv_from_str H (request_uri ctx))))
       ''x-original-method'' (or_empty (hv_from_str H (ctx_method ctx)))"

definition line :: "string \<Rightarrow> string" where
  "line s = s @ [CHR 0x0A]"

definition auth_request_check :: "'h header_ops \<Rightarrow> ('h, 'w) sub_env \<Rightarrow> template \<Rightarrow> 'h request_ctx \<Rightarrow> 'h \<Rightarrow> 'w shared \<Rightarrow>
    ('h response + unit) \<times> 'w shared" where
  "auth_request_check H env url_template ctx client_headers sh =
     (let url = trim (render H ctx url_template)
      in if url = [] then (Inl (text_response H 500 (line ''auth_request: empty URL'')), sh)
         else case sub_parse_uri env url of
           Inl e \<Rightarrow>
             (Inl (text_response H 500
                (line (''auth_request: bad subrequest URL '' @ [CHR 0x27] @ url @ [CHR 0x27] @ '': '' @ e))), sh)
         | Inr uri \<Rightarrow>
             (case sub_send env (subrequest ''GET'' uri (auth_headers H ctx client_headers)) auth_request_timeout sh of
                (Replied resp, sh') \<Rightarrow>
                  (let status = rs_status resp
                   in if 200 \<le> status \<and> status < 300 then (Inr (), sh')
                      else (Inl (text_response H status (line (show_nat status @ '' (auth_request denied)''))), sh'))
              | (Send_failed, sh') \<Rightarrow>
                  (Inl (text_response H 500 (line ''auth_request: subrequest connect / send error'')), sh')
              | (Timed_out, sh') \<Rightarrow>
                  (Inl (text_response H 504 (line ''auth_request: subrequest timed out'')), sh')))"

section \<open>Mirrors\<close>

definition mirror_timeout :: duration where
  "mirror_timeout = from_secs 2"

record 'h mirror_task =
  mt_url :: string
  mt_headers :: 'h
  mt_method :: string

definition dispatch :: "'h header_ops \<Rightarrow> template list \<Rightarrow> 'h request_ctx \<Rightarrow> 'h \<Rightarrow> string \<Rightarrow> 'h mirror_task list" where
  "dispatch H mirrors ctx headers mthd =
     map (\<lambda>url. \<lparr>mt_url = url, mt_headers = headers, mt_method = mthd\<rparr>)
       (filter (\<lambda>url. url \<noteq> []) (map (\<lambda>tmpl. trim (render H ctx tmpl)) mirrors))"

definition fire :: "'h header_ops \<Rightarrow> ('h, 'w) sub_env \<Rightarrow> 'h mirror_task \<Rightarrow> 'w shared \<Rightarrow> 'w shared" where
  "fire H env t sh =
     (let sh = count record_mirror_attempt sh;
          h = hm_append H (base_headers H ''elrond-mirror'' (mt_headers t)) ''x-elrond-mirror'' ''1''
      in case sub_parse_uri env (mt_url t) of
           Inl e \<Rightarrow> count record_mirror_failure sh
         | Inr uri \<Rightarrow>
             (case sub_send env (subrequest (mt_method t) uri h) mirror_timeout sh of
                (Replied resp, sh') \<Rightarrow> sh'
              | (Send_failed, sh') \<Rightarrow> count record_mirror_failure sh'
              | (Timed_out, sh') \<Rightarrow> count record_mirror_failure sh'))"

section \<open>What the services are told\<close>

lemma forward_header_get:
  assumes "header_laws H"
  shows "hm_get_all H (forward_header H cl name h) n =
    hm_get_all H h n @ (if eq_ignore_ascii_case name n then take 1 (hm_get_all H cl name) else [])"
  by (simp add: forward_header_def header_lawsD(2,5)[OF assms] split: list.splits option.splits)

lemma base_headers_get:
  assumes "header_laws H"
  shows "hm_get_all H (base_headers H agent cl) n =
    (if eq_ignore_ascii_case ''user-agent'' n then agent # take 1 (hm_get_all H cl ''user-agent'')
     else if eq_ignore_ascii_case ''authorization'' n then take 1 (hm_get_all H cl ''authorization'')
     else if eq_ignore_ascii_case ''cookie'' n then take 1 (hm_get_all H cl ''cookie'')
     else [])"
proof -
  have "\<not> eq_ignore_ascii_case ''user-agent'' ''authorization''" "\<not> eq_ignore_ascii_case ''user-agent'' ''cookie''"
    "\<not> eq_ignore_ascii_case ''authorization'' ''cookie''" by code_simp+
  then show ?thesis
    by (auto simp: base_headers_def forwarded_headers_def forward_header_get[OF assms] header_lawsD(1,5)[OF assms]
        eq_ignore_ascii_case_def)
qed

text \<open>What a response of the service decides.\<close>

definition authorised :: "'h sent \<Rightarrow> bool" where
  "authorised r = (case r of Replied resp \<Rightarrow> 200 \<le> rs_status resp \<and> rs_status resp < 300 | _ \<Rightarrow> False)"

text \<open>A request passes the delegated authorisation exactly when the configured address is a valid
  URL and the service answers a GET request for it, in five seconds, with a 2xx status; every refusal has another status.
  The service gets the original address and method, the first authorization and cookie header
  of the client and no other header of it but the user agent.\<close>

theorem auth_request_exact:
  assumes "header_laws H" and "auth_request_check H env tmpl ctx cl sh = (out, sh')"
  shows "(out = Inr () \<longleftrightarrow> (\<exists>uri. trim (render H ctx tmpl) \<noteq> [] \<and> sub_parse_uri env (trim (render H ctx tmpl)) = Inr uri \<and>
      authorised (fst (sub_send env (subrequest ''GET'' uri (auth_headers H ctx cl)) 5000 sh)))) \<and>
    (\<forall>r. out = Inl r \<longrightarrow> \<not> (200 \<le> rs_status r \<and> rs_status r < 300)) \<and>
    hm_get_all H (auth_headers H ctx cl) n =
      (if eq_ignore_ascii_case ''user-agent'' n then ''elrond-auth-request'' # take 1 (hm_get_all H cl ''user-agent'')
       else if eq_ignore_ascii_case ''authorization'' n then take 1 (hm_get_all H cl ''authorization'')
       else if eq_ignore_ascii_case ''cookie'' n then take 1 (hm_get_all H cl ''cookie'')
       else if eq_ignore_ascii_case ''x-original-uri'' n then [or_empty (hv_from_str H (request_uri ctx))]
       else if eq_ignore_ascii_case ''x-original-method'' n then [or_empty (hv_from_str H (ctx_method ctx))]
       else [])"
proof (intro conjI)
  have t: "auth_request_timeout = 5000" by code_simp
  show "out = Inr () \<longleftrightarrow> (\<exists>uri. trim (render H ctx tmpl) \<noteq> [] \<and> sub_parse_uri env (trim (render H ctx tmpl)) = Inr uri \<and>
      authorised (fst (sub_send env (subrequest ''GET'' uri (auth_headers H ctx cl)) 5000 sh)))"
    and "\<forall>r. out = Inl r \<longrightarrow> \<not> (200 \<le> rs_status r \<and> rs_status r < 300)"
    using assms(2) by (auto simp: auth_request_check_def authorised_def Let_def t text_response_def
        split: if_splits sum.splits sent.splits prod.splits)
next
  have "\<not> eq_ignore_ascii_case ''user-agent'' ''x-original-uri''" "\<not> eq_ignore_ascii_case ''user-agent'' ''x-original-method''"
    "\<not> eq_ignore_ascii_case ''authorization'' ''x-original-uri''" "\<not> eq_ignore_ascii_case ''authorization'' ''x-original-method''"
    "\<not> eq_ignore_ascii_case ''cookie'' ''x-original-uri''" "\<not> eq_ignore_ascii_case ''cookie'' ''x-original-method''"
    "\<not> eq_ignore_ascii_case ''x-original-uri'' ''x-original-method''" by code_simp+
  then show "hm_get_all H (auth_headers H ctx cl) n =
      (if eq_ignore_ascii_case ''user-agent'' n then ''elrond-auth-request'' # take 1 (hm_get_all H cl ''user-agent'')
       else if eq_ignore_ascii_case ''authorization'' n then take 1 (hm_get_all H cl ''authorization'')
       else if eq_ignore_ascii_case ''cookie'' n then take 1 (hm_get_all H cl ''cookie'')
       else if eq_ignore_ascii_case ''x-original-uri'' n then [or_empty (hv_from_str H (request_uri ctx))]
       else if eq_ignore_ascii_case ''x-original-method'' n then [or_empty (hv_from_str H (ctx_method ctx))]
       else [])"
    by (auto simp: auth_headers_def base_headers_get[OF assms(1)] header_lawsD(5)[OF assms(1)]
        eq_ignore_ascii_case_def)
qed

definition demo_sub :: "(header_list, unit) sub_env" where
  "demo_sub = \<lparr>sub_parse_uri = (\<lambda>s. Inr \<lparr>u_path = s, u_query = None, u_path_and_query = None, u_authority = None\<rparr>),
     sub_send = (\<lambda>req t sh. (Replied (full_response \<lparr>rs_status = if hm_contains_key list_headers (rq_headers req) ''cookie'' then 204 else 401,
        rs_headers = [], rs_body = []\<rparr>), sh))\<rparr>"

definition quiet_shared :: "unit shared" where
  "quiet_shared = \<lparr>sh_targets = \<lparr>ts_heap = [], ts_ephemeral = []\<rparr>, sh_stores = [], sh_metrics = initial_metrics, sh_world = ()\<rparr>"

theorem auth_request_exact_witness:
  "fst (auth_request_check list_headers demo_sub [Literal ''http://auth/''] demo_ctx [(''Cookie'', ''a=1'')] quiet_shared) = Inr ()"
proof -
  let ?o = "auth_request_check list_headers demo_sub [Literal ''http://auth/''] demo_ctx [(''Cookie'', ''a=1'')] quiet_shared"
  have "authorised (fst (sub_send demo_sub (subrequest ''GET''
      \<lparr>u_path = ''http://auth/'', u_query = None, u_path_and_query = None, u_authority = None\<rparr>
      (auth_headers list_headers demo_ctx [(''Cookie'', ''a=1'')])) 5000 quiet_shared))"
    "trim (render list_headers demo_ctx [Literal ''http://auth/'']) = ''http://auth/''" by code_simp+
  moreover have "sub_parse_uri demo_sub ''http://auth/'' =
      Inr \<lparr>u_path = ''http://auth/'', u_query = None, u_path_and_query = None, u_authority = None\<rparr>"
    by (simp add: demo_sub_def)
  ultimately show ?thesis
    using auth_request_exact[OF list_headers_laws prod.collapse[symmetric, of ?o]] by auto
qed

section \<open>Shadow requests are counted\<close>

definition uncounted :: "('h, 'w) sub_env \<Rightarrow> bool" where
  "uncounted env \<longleftrightarrow> (\<forall>req t sh. sh_metrics (snd (sub_send env req t sh)) = sh_metrics sh)"

lemma fire_metrics:
  assumes "uncounted env"
  shows "sh_metrics (fire H env t sh) = record_mirror_attempt (sh_metrics sh) \<or>
    sh_metrics (fire H env t sh) = record_mirror_failure (record_mirror_attempt (sh_metrics sh))"
proof -
  have "sh_metrics sh2 = sh_metrics sh1" if "sub_send env req d sh1 = (x, sh2)" for req d sh1 x sh2
    using assms that by (metis uncounted_def snd_conv)
  then show ?thesis
    by (auto simp: fire_def Let_def count_def split: sum.splits prod.splits sent.splits)
qed

text \<open>The shadow requests a request gave rise to are counted, in whatever order the tasks run: one attempt
  each, and a failure for some of them.\<close>

theorem mirrors_counted:
  assumes "uncounted env" and "mset ts = mset (dispatch H mirrors ctx headers mthd)"
  shows "\<exists>k \<le> length (filter (\<lambda>tmpl. trim (render H ctx tmpl) \<noteq> []) mirrors).
    sh_metrics (fold (fire H env) ts sh) = (sh_metrics sh)
      \<lparr>m_mirror_attempts := m_mirror_attempts (sh_metrics sh) +
          of_nat (length (filter (\<lambda>tmpl. trim (render H ctx tmpl) \<noteq> []) mirrors)),
       m_mirror_failures := m_mirror_failures (sh_metrics sh) + of_nat k\<rparr>"
proof -
  have n: "length ts = length (filter (\<lambda>tmpl. trim (render H ctx tmpl) \<noteq> []) mirrors)"
    using mset_eq_length[OF assms(2)] by (simp add: dispatch_def filter_map comp_def)
  have "\<exists>k \<le> length ts. sh_metrics (fold (fire H env) ts sh) = (sh_metrics sh)
      \<lparr>m_mirror_attempts := m_mirror_attempts (sh_metrics sh) + of_nat (length ts),
       m_mirror_failures := m_mirror_failures (sh_metrics sh) + of_nat k\<rparr>"
  proof (induction ts arbitrary: sh)
    case (Cons t ts)
    obtain k where k: "k \<le> length ts" "sh_metrics (fold (fire H env) ts (fire H env t sh)) = (sh_metrics (fire H env t sh))
      \<lparr>m_mirror_attempts := m_mirror_attempts (sh_metrics (fire H env t sh)) + of_nat (length ts),
       m_mirror_failures := m_mirror_failures (sh_metrics (fire H env t sh)) + of_nat k\<rparr>"
      using Cons.IH by blast
    from fire_metrics[OF assms(1), of H t sh] show ?case
    proof
      assume "sh_metrics (fire H env t sh) = record_mirror_attempt (sh_metrics sh)"
      then show ?thesis using k by (intro exI[of _ k]) (simp add: record_mirror_attempt_def)
    next
      assume "sh_metrics (fire H env t sh) = record_mirror_failure (record_mirror_attempt (sh_metrics sh))"
      then show ?thesis using k
        by (intro exI[of _ "Suc k"]) (simp add: record_mirror_attempt_def record_mirror_failure_def)
    qed
  qed simp
  then show ?thesis by (simp add: n)
qed

end
