(* ===== verification/Server.thy ===== *)
theory Server
  imports Static_Files Subrequests
begin

text \<open>
  The request handler (\<^verbatim>\<open>src/src/server.rs\<close>, \<^verbatim>\<open>handle\<close> and what it calls): the limit on the
  body, the \<^verbatim>\<open>map\<close> variables, routing, the checks of a location in their order, the action, and
  the headers and the compression applied to the answer.

  The zones of the limits are shared by all tasks, so they are part of the world of the proxy's \<open>shared\<close>
  state (\<open>plant\<close>). \<open>server_env\<close> collects the arguments that stand for libraries and the operating
  system. The outcome of a request is the response together with the attempts made upstream, the shadow
  tasks spawned and the lines written to the access log. A value dropped at the end of a scope, the slot of
  \<^verbatim>\<open>limit_conn\<close>, is released by an explicit step.

  Shown here: the refusals come before any work and leave the rest untouched; every request is
  counted and logged exactly once; slots are given back; and the \<^verbatim>\<open>map\<close> rules are the specified choice.
\<close>

section \<open>State and environment\<close>

record 'x plant =
  pl_req_zones :: "limit_req_zone list"
  pl_conn_zones :: "limit_conn_zone list"
  pl_world :: 'x

record ('h, 'r, 'x) server_env =
  sx_proxy :: "('h, 'x plant) proxy_env"
  sx_sub :: "('h, 'x plant) sub_env"
  sx_files :: "'x plant shared file_ops"
  sx_is_match :: "'r \<Rightarrow> string \<Rightarrow> bool"
  sx_crypto :: crypto_ops
  sx_gzip :: "string \<Rightarrow> string option"
  sx_req_order :: "(string \<times> bucket) list \<Rightarrow> (string \<times> bucket) list"
  sx_conn_order :: "(string \<times> u32) list \<Rightarrow> (string \<times> u32) list"
  sx_epoch_secs :: "'x plant \<Rightarrow> nat option"
  sx_uptime :: "'x plant \<Rightarrow> string"
  sx_version :: string

abbreviation sx_headers :: "('h, 'r, 'x) server_env \<Rightarrow> 'h header_ops" where
  "sx_headers env \<equiv> pe_headers (sx_proxy env)"

definition on_req_zone :: "nat \<Rightarrow> (limit_req_zone \<times> metrics \<Rightarrow> 'a \<times> limit_req_zone \<times> metrics) \<Rightarrow>
    'x plant shared \<Rightarrow> 'a \<times> 'x plant shared" where
  "on_req_zone k f sh =
     (let zs = pl_req_zones (sh_world sh);
          (a, z, m) = f (zs ! k, sh_metrics sh)
      in (a, sh\<lparr>sh_metrics := m, sh_world := (sh_world sh)\<lparr>pl_req_zones := zs[k := z]\<rparr>\<rparr>))"

definition on_conn_zone :: "nat \<Rightarrow> (limit_conn_zone \<times> metrics \<Rightarrow> 'a \<times> limit_conn_zone \<times> metrics) \<Rightarrow>
    'x plant shared \<Rightarrow> 'a \<times> 'x plant shared" where
  "on_conn_zone k f sh =
     (let zs = pl_conn_zones (sh_world sh);
          (a, z, m) = f (zs ! k, sh_metrics sh)
      in (a, sh\<lparr>sh_metrics := m, sh_world := (sh_world sh)\<lparr>pl_conn_zones := zs[k := z]\<rparr>\<rparr>))"

record 'h handled =
  hd_response :: "'h streamed"
  hd_attempts :: "'h attempt list"
  hd_spawned :: "'h mirror_task list"
  hd_access :: "string list"

section \<open>Headers of the answer\<close>

definition add_header :: "'h header_ops \<Rightarrow> 'h request_ctx \<Rightarrow> string \<times> template \<Rightarrow> 'h \<Rightarrow> 'h" where
  "add_header H ctx nt h =
     (case hv_from_str H (render H ctx (snd nt)) of
        Some v \<Rightarrow> hm_insert H h (fst nt) v
      | None \<Rightarrow> h)"

definition apply_add_headers :: "'h header_ops \<Rightarrow> 'h request_ctx \<Rightarrow> (string \<times> template) list \<Rightarrow> 'h \<Rightarrow> 'h" where
  "apply_add_headers H ctx headers h = fold (add_header H ctx) headers h"

definition insert_valid :: "'h header_ops \<Rightarrow> string \<Rightarrow> string \<Rightarrow> 'h \<Rightarrow> 'h" where
  "insert_valid H name value h =
     (case hv_from_str H value of Some v \<Rightarrow> hm_insert H h name v | None \<Rightarrow> h)"

text \<open>A duration counts milliseconds; the sum of seconds saturates at 64 bits.\<close>

definition apply_expires :: "'h header_ops \<Rightarrow> nat option \<Rightarrow> duration \<Rightarrow> 'h \<Rightarrow> 'h" where
  "apply_expires H epoch_secs dur h =
     (let n = dur div 1000;
          h1 = insert_valid H ''cache-control'' (''max-age='' @ show_nat n) h
      in case epoch_secs of
           Some now \<Rightarrow> insert_valid H ''expires'' (format_date (min (now + n) (2 ^ 64 - 1))) h1
         | None \<Rightarrow> h1)"

definition apply_alt_svc :: "'h header_ops \<Rightarrow> 'r server_state \<Rightarrow> 'h \<Rightarrow> 'h" where
  "apply_alt_svc H st h =
     (if sv_scheme st = ''https'' then
        (case sv_h3_advertised_port st of
           Some port \<Rightarrow> insert_valid H ''alt-svc'' (''h3='' @ dquote @ '':'' @ show_nat port @ dquote @ ''; ma=86400'') h
         | None \<Rightarrow> h)
      else h)"

section \<open>Map variables\<close>

fun choose_rule :: "string \<Rightarrow> map_rule list \<Rightarrow> map_rule option \<Rightarrow> map_rule option" where
  "choose_rule v [] dflt = dflt"
| "choose_rule v (r # rs) dflt =
     (case mr_pattern r of
        PLiteral s \<Rightarrow> if s = v then Some r else choose_rule v rs dflt
      | PDefault \<Rightarrow> choose_rule v rs (case dflt of Some d \<Rightarrow> Some d | None \<Rightarrow> Some r))"

definition make_ctx :: "'r server_state \<Rightarrow> 'h http_request \<Rightarrow> socket_addr \<Rightarrow> string smap \<Rightarrow> 'h request_ctx" where
  "make_ctx st req peer vars =
     \<lparr>ctx_peer = peer, ctx_server_name = sv_server_name st, ctx_method = rq_method req, ctx_uri = rq_uri req,
      ctx_headers = rq_headers req, ctx_scheme = sv_scheme st, ctx_user_vars = vars\<rparr>"

definition eval_map :: "'h header_ops \<Rightarrow> 'r server_state \<Rightarrow> 'h http_request \<Rightarrow> socket_addr \<Rightarrow> map_decl \<Rightarrow>
    string smap \<Rightarrow> string smap" where
  "eval_map H st req peer m vars =
     (let ctx = make_ctx st req peer vars;
          source_value = render H ctx (md_source m);
          value = (case choose_rule source_value (md_rules m) None of
                     Some r \<Rightarrow> render H ctx (mr_value r)
                   | None \<Rightarrow> [])
      in AList.update (md_output_name m) value vars)"

definition eval_maps :: "'h header_ops \<Rightarrow> 'r server_state \<Rightarrow> 'h http_request \<Rightarrow> socket_addr \<Rightarrow> string smap" where
  "eval_maps H st req peer = fold (eval_map H st req peer) (sv_maps st) []"

section \<open>Checks of a location\<close>

definition gate_limit_req :: "('h, 'r, 'x) server_env \<Rightarrow> location_rt \<Rightarrow> 'h request_ctx \<Rightarrow> 'x plant shared \<Rightarrow>
    'h response option \<times> 'x plant shared" where
  "gate_limit_req env loc ctx sh =
     (case lr_limit_req loc of
        None \<Rightarrow> (None, sh)
      | Some a \<Rightarrow>
          on_req_zone (lra_zone a)
            (enforce (sx_headers env) (sx_req_order env) (pe_instant (sx_proxy env) (sh_world sh)) (lra_burst a) ctx) sh)"

text \<open>The slot acquired, as the zone and the key of its guard.\<close>

definition gate_limit_conn :: "('h, 'r, 'x) server_env \<Rightarrow> location_rt \<Rightarrow> 'h request_ctx \<Rightarrow> 'x plant shared \<Rightarrow>
    ('h response + (nat \<times> string) option) \<times> 'x plant shared" where
  "gate_limit_conn env loc ctx sh =
     (case lr_limit_conn loc of
        None \<Rightarrow> (Inr None, sh)
      | Some a \<Rightarrow>
          (case on_conn_zone (lca_zone a)
                  (enforce_conn (sx_headers env) (sx_conn_order env) (of_nat (lca_max_conn a)) ctx) sh of
             (Inl denied, sh') \<Rightarrow> (Inl denied, sh')
           | (Inr key, sh') \<Rightarrow> (Inr (Some (lca_zone a, key)), sh')))"

definition drop_slot :: "(nat \<times> string) option \<Rightarrow> 'x plant shared \<Rightarrow> 'x plant shared" where
  "drop_slot guard sh =
     (case guard of
        None \<Rightarrow> sh
      | Some (k, key) \<Rightarrow> snd (on_conn_zone k (\<lambda>(z, m). ((), conn_guard_release key z, m)) sh))"

section \<open>Actions\<close>

definition metrics_response :: "'h header_ops \<Rightarrow> string \<Rightarrow> 'h response" where
  "metrics_response H body =
     \<lparr>rs_status = 200,
      rs_headers = hm_append H (hm_empty H) ''content-type'' ''text/plain; version=0.0.4; charset=utf-8'',
      rs_body = body\<rparr>"

definition run_action :: "('h, 'r, 'x) server_env \<Rightarrow> location_rt \<Rightarrow> 'h request_ctx \<Rightarrow> 'h http_request \<Rightarrow> socket_addr \<Rightarrow>
    'x plant shared \<Rightarrow> 'h streamed \<times> 'h attempt list \<times> 'x plant shared" where
  "run_action env loc ctx req peer sh =
     (let H = sx_headers env; path = u_path (rq_uri req)
      in case lr_action loc of
           RtReturn status body \<Rightarrow> (full_response (text_response H status (render H ctx body)), [], sh)
         | RtStatic dir kind \<Rightarrow>
             (let (r, sh') = serve H (sx_files env) dir kind path (rq_headers req) (rq_method req) (lr_autoindex loc) sh
              in (full_response r, [], sh'))
         | RtProxy target set_headers cache \<Rightarrow>
             (case resolve H ctx target (sh_targets sh) of
                (Some b, ts) \<Rightarrow>
                  forward (sx_proxy env) ctx
                    \<lparr>call_balancer = b, call_set_headers = set_headers, call_cache = cache,
                     call_read_timeout = lr_proxy_read_timeout loc, call_ssl_verify = lr_proxy_ssl_verify loc,
                     call_mtls_client = lr_proxy_client loc, call_client_peer = peer\<rparr>
                    req (sh\<lparr>sh_targets := ts\<rparr>)
              | (None, ts) \<Rightarrow>
                  (full_response (text_response H 502 (line ''502 Bad Gateway (empty / unresolvable proxy_pass)'')),
                   [], sh\<lparr>sh_targets := ts\<rparr>))
         | RtMetrics \<Rightarrow>
             (full_response (metrics_response H
                (metrics_render (sx_uptime env (sh_world sh)) (sx_version env) (sh_metrics sh))), [], sh)
         | RtTryFiles dir entries \<Rightarrow>
             (let (r, sh') = try_files H (sx_files env) dir entries ctx (rq_headers req) (rq_method req) sh
              in (full_response r, [], sh')))"

text \<open>The checks on the client's credentials, and then the action. A refusal is the response and the
  note it is logged with.\<close>

definition authorised_action :: "('h, 'r, 'x) server_env \<Rightarrow> location_rt \<Rightarrow> 'h request_ctx \<Rightarrow> 'h http_request \<Rightarrow>
    socket_addr \<Rightarrow> 'x plant shared \<Rightarrow> ('h response \<times> string + 'h streamed) \<times> 'h attempt list \<times> 'x plant shared" where
  "authorised_action env loc ctx req peer sh =
     (let H = sx_headers env;
          (delegated, sh1) = (case lr_auth_request loc of
             None \<Rightarrow> (Inr (), sh)
           | Some tmpl \<Rightarrow> auth_request_check H (sx_sub env) tmpl ctx (rq_headers req) sh)
      in case delegated of
           Inl denied \<Rightarrow> (Inl (denied, '' (auth_request)''), [], sh1)
         | Inr _ \<Rightarrow>
             (case (case lr_auth loc of None \<Rightarrow> Inr () | Some auth \<Rightarrow> auth_check H (sx_crypto env) auth (rq_headers req)) of
                Inl challenge \<Rightarrow> (Inl (challenge, '' (auth_basic challenge)''), [], sh1)
              | Inr _ \<Rightarrow>
                  (let (r, tried, sh2) = run_action env loc ctx req peer sh1 in (Inr r, tried, sh2))))"

definition serve_location :: "('h, 'r, 'x) server_env \<Rightarrow> location_rt \<Rightarrow> 'h request_ctx \<Rightarrow> 'h http_request \<Rightarrow>
    socket_addr \<Rightarrow> 'x plant shared \<Rightarrow>
    ('h response \<times> string + 'h streamed) \<times> 'h attempt list \<times> 'h mirror_task list \<times> 'x plant shared" where
  "serve_location env loc ctx req peer sh =
     (if lr_access_rules loc \<noteq> [] \<and> \<not> check (lr_access_rules loc) (sa_ip peer)
      then (Inl (forbidden (sx_headers env), '' (allow/deny)''), [], [], sh)
      else case gate_limit_req env loc ctx sh of
        (Some denied, sh1) \<Rightarrow> (Inl (denied, '' (limit_req)''), [], [], sh1)
      | (None, sh1) \<Rightarrow>
          (case gate_limit_conn env loc ctx sh1 of
             (Inl denied, sh2) \<Rightarrow> (Inl (denied, '' (limit_conn)''), [], [], sh2)
           | (Inr guard, sh2) \<Rightarrow>
               (let spawned = dispatch (sx_headers env) (lr_mirrors loc) ctx (rq_headers req) (rq_method req);
                    (out, tried, sh3) = authorised_action env loc ctx req peer sh2
                in (out, tried, spawned, drop_slot guard sh3))))"

section \<open>The handler\<close>

definition access_line :: "socket_addr \<Rightarrow> 'h http_request \<Rightarrow> nat \<Rightarrow> string \<Rightarrow> string" where
  "access_line peer req status note =
     show_ip (sa_ip peer) @ '' '' @ dquote @ rq_method req @ '' '' @ u_path (rq_uri req) @ dquote @ '' '' @
     show_nat status @ note"

definition finish :: "socket_addr \<Rightarrow> 'h http_request \<Rightarrow> string \<Rightarrow> 'h streamed \<Rightarrow> 'h attempt list \<Rightarrow>
    'h mirror_task list \<Rightarrow> 'x plant shared \<Rightarrow> 'h handled \<times> 'x plant shared" where
  "finish peer req note resp tried spawned sh =
     (\<lparr>hd_response = resp, hd_attempts = tried, hd_spawned = spawned,
       hd_access = [access_line peer req (rs_status resp) note]\<rparr>,
      count (record_request (rs_status resp)) sh)"

definition proxy_gzip_max_collect :: nat where
  "proxy_gzip_max_collect = 256 * 1024"

definition is_proxy :: "action_rt \<Rightarrow> bool" where
  "is_proxy a = (case a of RtProxy t s c \<Rightarrow> True | _ \<Rightarrow> False)"

text \<open>The headers and the compression a response goes through on its way out. Collecting a body is
  awaited.\<close>

definition decorate :: "('h, 'r, 'x) server_env \<Rightarrow> 'r server_state \<Rightarrow> location_rt option \<Rightarrow> 'h request_ctx \<Rightarrow>
    'h streamed \<Rightarrow> 'x plant shared \<Rightarrow> 'h streamed \<times> 'x plant shared" where
  "decorate env st matched ctx resp sh =
     (let H = sx_headers env;
          resp = resp\<lparr>rs_headers := apply_alt_svc H st (rs_headers resp)\<rparr>
      in case matched of
           None \<Rightarrow> (resp, sh)
         | Some loc \<Rightarrow>
             (let h1 = apply_add_headers H ctx (lr_add_headers loc) (rs_headers resp);
                  h2 = (case lr_expires loc of
                          Some d \<Rightarrow> apply_expires H (sx_epoch_secs env (sh_world sh)) d h1
                        | None \<Rightarrow> h1);
                  resp = resp\<lparr>rs_headers := h2\<rparr>;
                  gzip_eligible = (case lr_gzip loc of Some g \<Rightarrow> g | None \<Rightarrow> sv_gzip st)
              in if gzip_eligible then
                   (maybe_compress H (sx_gzip env) (ctx_headers ctx) True (sv_gzip_types st)
                      (if is_proxy (lr_action loc) then Some proxy_gzip_max_collect else None)
                      (sv_gzip_min_length st) resp,
                    pe_collect (sx_proxy env) sh)
                 else (resp, sh)))"

definition too_large :: "'h header_ops \<Rightarrow> 'r server_state \<Rightarrow> 'h \<Rightarrow> bool" where
  "too_large H st headers \<longleftrightarrow>
     sv_client_max_body_size st > 0 \<and>
     (case Option.bind (header_text H headers ''content-length'') parse_usize of
        Some n \<Rightarrow> n > sv_client_max_body_size st
      | None \<Rightarrow> False)"

definition payload_too_large :: "'h header_ops \<Rightarrow> nat \<Rightarrow> 'h response" where
  "payload_too_large H limit =
     text_response H 413 (line (''413 Request Entity Too Large (limit '' @ show_nat limit @ '' bytes)''))"

definition handle :: "('h, 'r, 'x) server_env \<Rightarrow> 'r server_state \<Rightarrow> 'h http_request \<Rightarrow> socket_addr \<Rightarrow>
    'x plant shared \<Rightarrow> 'h handled \<times> 'x plant shared" where
  "handle env st req peer sh =
     (let H = sx_headers env
      in if too_large H st (rq_headers req)
         then finish peer req '' (client_max_body_size)''
                (full_response (payload_too_large H (sv_client_max_body_size st))) [] [] sh
         else
           (let ctx = make_ctx st req peer (eval_maps H st req peer)
            in case route (sx_is_match env) st (u_path (rq_uri req)) of
                 None \<Rightarrow>
                   (let (resp, sh1) = decorate env st None ctx (full_response (not_found H)) sh
                    in finish peer req [] resp [] [] sh1)
               | Some loc \<Rightarrow>
                   (case serve_location env loc ctx req peer sh of
                      (Inl (denied, note), tried, spawned, sh1) \<Rightarrow>
                        finish peer req note (full_response denied) tried spawned sh1
                    | (Inr resp, tried, spawned, sh1) \<Rightarrow>
                        (let (resp, sh2) = decorate env st (Some loc) ctx resp sh1
                         in finish peer req [] resp tried spawned sh2))))"

definition handle_listener :: "('h, 'r, 'x) server_env \<Rightarrow> 'r listener_cfg \<Rightarrow> 'h http_request \<Rightarrow> socket_addr \<Rightarrow>
    'x plant shared \<Rightarrow> 'h handled \<times> 'x plant shared" where
  "handle_listener env cfg req peer sh =
     (let host_header = (case header_text (sx_headers env) (rq_headers req) ''host'' of
             Some h \<Rightarrow> Some h
           | None \<Rightarrow> u_authority (rq_uri req))
      in handle env (pick_state cfg host_header) req peer sh)"

section \<open>Map rules\<close>

lemma choose_rule_default:
  "choose_rule v rs dflt =
     (case find (\<lambda>r. mr_pattern r = PLiteral v) rs of
        Some r \<Rightarrow> Some r
      | None \<Rightarrow> (case dflt of Some d \<Rightarrow> Some d | None \<Rightarrow> find (\<lambda>r. mr_pattern r = PDefault) rs))"
  by (induction rs arbitrary: dflt) (auto split: map_pattern.splits option.splits)

text \<open>The value a map declaration gives, in the variables of those before it.\<close>

definition map_value :: "'h header_ops \<Rightarrow> 'h request_ctx \<Rightarrow> map_decl \<Rightarrow> string" where
  "map_value H ctx m =
     (case find (\<lambda>r. mr_pattern r = PLiteral (render H ctx (md_source m))) (md_rules m) of
        Some r \<Rightarrow> render H ctx (mr_value r)
      | None \<Rightarrow>
          (case find (\<lambda>r. mr_pattern r = PDefault) (md_rules m) of
             Some r \<Rightarrow> render H ctx (mr_value r)
           | None \<Rightarrow> []))"

lemma eval_map_value:
  "eval_map H st req peer m vars = AList.update (md_output_name m) (map_value H (make_ctx st req peer vars) m) vars"
  by (simp add: eval_map_def map_value_def Let_def choose_rule_default split: option.splits)

lemma fold_maps_other:
  "n \<notin> md_output_name ` set ms \<Longrightarrow> map_of (fold (eval_map H st req peer) ms vars) n = map_of vars n"
  by (induction ms arbitrary: vars) (simp_all add: eval_map_value update_conv')

text \<open>The \<^verbatim>\<open>map\<close> variables mean what the configuration says. The last declaration of a variable gives it
  the value of the first literal rule equal to the source, else of the first default, else nothing,
  where source and value are rendered with exactly the variables of the declarations before it.\<close>

theorem eval_maps_exact:
  assumes "sv_maps st = pre @ m # post" and "md_output_name m \<notin> md_output_name ` set post"
  shows "map_of (eval_maps H st req peer) (md_output_name m) =
    Some (map_value H (make_ctx st req peer (eval_maps H (st\<lparr>sv_maps := pre\<rparr>) req peer)) m)"
proof -
  have "eval_map H (st\<lparr>sv_maps := pre\<rparr>) req peer = eval_map H st req peer"
    by (intro ext) (simp add: eval_map_def make_ctx_def)
  then show ?thesis
    using assms by (simp add: eval_maps_def fold_maps_other eval_map_value update_conv')
qed

section \<open>What the handler leaves alone\<close>

text \<open>Two projections of the shared state matter below: the request counters, and the connection zones. Each is
  untouched by the proxy's own updates, and kept by the library calls if the other tasks keep
  it.\<close>

definition proxy_keeps :: "('w shared \<Rightarrow> 'v) \<Rightarrow> ('h, 'w) proxy_env \<Rightarrow> bool" where
  "proxy_keeps P env \<longleftrightarrow>
     (\<forall>c req t sh. P (snd (pe_send env c req t sh)) = P sh) \<and> (\<forall>sh. P (pe_collect env sh) = P sh)"

definition files_keep :: "('s \<Rightarrow> 'v) \<Rightarrow> 's file_ops \<Rightarrow> bool" where
  "files_keep P io \<longleftrightarrow>
     (\<forall>p s. P (snd (io_metadata io p s)) = P s \<and> P (snd (io_read io p s)) = P s \<and> P (snd (io_read_dir io p s)) = P s)"

definition env_keeps :: "('x plant shared \<Rightarrow> 'v) \<Rightarrow> ('h, 'r, 'x) server_env \<Rightarrow> bool" where
  "env_keeps P env \<longleftrightarrow>
     proxy_keeps P (sx_proxy env) \<and> files_keep P (sx_files env) \<and>
     (\<forall>req t sh. P (snd (sub_send (sx_sub env) req t sh)) = P sh)"

locale untouched =
  fixes P :: "'w shared \<Rightarrow> 'v" and H :: "'h header_ops"
  assumes targets: "P (sh\<lparr>sh_targets := ts\<rparr>) = P sh"
    and counters: "P (count record_proxy_attempt sh) = P sh" "P (count record_proxy_failure sh) = P sh"
      "P (count record_cache_bypass sh) = P sh"
    and stored: "P (on_store k (cache_put it key e) sh) = P sh"
    and looked_up: "P (on_store k (\<lambda>st. snd (cache_get H now key h st)) sh) = P sh"
begin

lemma balancers: "P (set_bal b v sh) = P sh" "P (upd_peer b i f sh) = P sh"
  by (simp_all add: set_bal_def upd_peer_def targets)

lemma charge: "P (charge_failure env b i sh) = P sh"
  by (simp add: charge_failure_def counters balancers)

lemma exchange_keeps:
  assumes "proxy_keeps P env" and "exchange env ctx call req i sh = (a, sh')"
  shows "P sh' = P sh"
proof -
  have send: "P s' = P s" if "pe_send env c q t s = (x, s')" for c q t s x s'
    using assms(1) that by (metis proxy_keeps_def snd_conv)
  show ?thesis
    using assms(2) by (auto simp: exchange_def forward_to_peer_def Let_def counters balancers
        split: option.splits prod.splits dest!: send)
qed

lemma maybe_cache_keeps:
  "proxy_keeps P env \<Longrightarrow> maybe_cache env ctx cache mthd rh resp sh = (r, sh') \<Longrightarrow> P sh' = P sh"
  by (auto simp: maybe_cache_def Let_def proxy_keeps_def counters stored
      split: option.splits if_splits cache_decision.splits)

lemma forward_loop_keeps:
  "proxy_keeps P env \<Longrightarrow> forward_loop env ctx call parts n ex l sh = (r, tried, sh') \<Longrightarrow> P sh' = P sh"
proof (induction n arbitrary: ex l sh tried)
  case (Suc n)
  from Suc.prems(2) show ?case
  proof (cases rule: forward_loop_cases)
    case (answered i bal a sh1 resp sh2)
    then show ?thesis
      using exchange_keeps[OF Suc.prems(1)] maybe_cache_keeps[OF Suc.prems(1)] by (metis balancers)
  next
    case (failed i bal a sh1 tried')
    then show ?thesis using exchange_keeps[OF Suc.prems(1)] Suc.IH[OF Suc.prems(1)] by (metis balancers charge)
  qed (simp add: balancers)
qed simp

lemma forward_once_keeps:
  "proxy_keeps P env \<Longrightarrow> forward_once env ctx call req sh = (r, tried, sh') \<Longrightarrow> P sh' = P sh"
  by (auto simp: forward_once_def Let_def balancers charge split: prod.splits option.splits if_splits dest!: exchange_keeps)

lemma forward_keeps:
  assumes "proxy_keeps P env" and "pe_headers env = H" and "forward env ctx call req sh = (r, tried, sh')"
  shows "P sh' = P sh"
proof -
  obtain hit sh1 where l: "cache_lookup env ctx call req sh = (hit, sh1)" by (metis surj_pair)
  have "P sh1 = P sh" using l unfolding cache_lookup_def assms(2) by (auto simp: Let_def looked_up split: option.splits if_splits)
  moreover have "P sh' = P sh1"
    using assms(3) l by (auto simp: forward_def split: option.splits if_splits
        dest: forward_loop_keeps[OF assms(1)] forward_once_keeps[OF assms(1)])
  ultimately show ?thesis by simp
qed

end

lemma serve_file_keeps:
  assumes "files_keep P io" and "serve_file H io p meta hs m s = (r, s')"
  shows "P s' = P s"
proof -
  have read: "P y = P x" if "io_read io q x = (c, y)" for q x c y
    using assms(1) that by (metis files_keep_def snd_conv)
  then have "P y = P x" if "read_range io q a n x = (c, y)" for q a n x c y
    using that by (auto simp: read_range_def split: prod.splits sum.splits if_splits)
  with read show ?thesis using assms(2)
    by (auto simp: serve_file_def Let_def split: if_splits option.splits prod.splits sum.splits io_error.splits)
qed

lemma serve_keeps:
  assumes "files_keep P io" and "serve H io dir kind p hs m ai s = (r, s')"
  shows "P s' = P s"
proof -
  have meta: "P y = P x" if "io_metadata io q x = (c, y)" for q x c y
    using assms(1) that by (metis files_keep_def snd_conv)
  have "P y = P x" if "io_read_dir io q x = (c, y)" for q x c y
    using assms(1) that by (metis files_keep_def snd_conv)
  then have "P y = P x" if "render_directory_listing H io q u x = (c, y)" for q u x c y
    using that by (auto simp: render_directory_listing_def split: prod.splits sum.splits)
  with meta show ?thesis using assms(2)
    by (auto simp: serve_def Let_def split: if_splits prod.splits sum.splits io_error.splits
        dest!: serve_file_keeps[OF assms(1)])
qed

lemma try_files_keeps:
  assumes "files_keep P io" and "try_files H io dir es ctx hs m s = (r, s')"
  shows "P s' = P s"
proof -
  have meta: "P y = P x" if "io_metadata io q x = (c, y)" for q x c y
    using assms(1) that by (metis files_keep_def snd_conv)
  have "P s' = P s" if "try_entries H io dir ctx hs m es s = (r, s')" for es s
    using that
  proof (induction es arbitrary: s)
    case (Cons e es)
    show ?case
    proof (cases e)
      case (RtPath t)
      then show ?thesis using Cons meta
        by (auto simp: Let_def split: if_splits prod.splits dest!: serve_keeps[OF assms(1)])
    qed (use Cons in \<open>auto split: if_splits\<close>)
  qed simp
  then show ?thesis using assms(2) by (auto simp: try_files_def split: if_splits)
qed

lemma auth_request_keeps:
  assumes "\<And>req t sh. P (snd (sub_send env req t sh)) = P sh" and "auth_request_check H env tmpl ctx hs sh = (out, sh')"
  shows "P sh' = P sh"
proof -
  have "P y = P x" if "sub_send env q t x = (c, y)" for q t x c y
    using assms(1) that by (metis snd_conv)
  then show ?thesis using assms(2)
    by (auto simp: auth_request_check_def Let_def split: if_splits sum.splits prod.splits sent.splits)
qed

locale untouched_action = untouched P H
  for P :: "'x plant shared \<Rightarrow> 'v" and H :: "'h header_ops" +
  assumes limited: "P (snd (on_req_zone k (enforce H it now burst ctx) sh)) = P sh"
begin

lemma run_action_keeps:
  assumes "env_keeps P env" and "sx_headers env = H" and "run_action env loc ctx req peer sh = (r, tried, sh')"
  shows "P sh' = P sh"
proof -
  have f: "files_keep P (sx_files env)" and p: "proxy_keeps P (sx_proxy env)"
    using assms(1) by (simp_all add: env_keeps_def)
  show ?thesis using assms(3)
    by (auto simp: run_action_def Let_def targets split: action_rt.splits prod.splits option.splits
        dest!: serve_keeps[OF f] try_files_keeps[OF f] forward_keeps[OF p assms(2)])
qed

lemma authorised_action_keeps:
  assumes "env_keeps P env" and "sx_headers env = H" and "authorised_action env loc ctx req peer sh = (out, tried, sh')"
  shows "P sh' = P sh"
proof -
  have "P sh1 = P sh" if "auth_request_check Hq (sx_sub env) t ctx hs sh = (o1, sh1)" for Hq t hs o1 sh1
    using auth_request_keeps[OF _ that, of P] assms(1) by (simp add: env_keeps_def)
  then show ?thesis using assms(3)
    by (auto simp: authorised_action_def Let_def split: option.splits prod.splits sum.splits
        dest!: run_action_keeps[OF assms(1,2)])
qed

lemma gate_limit_req_keeps: "sx_headers env = H \<Longrightarrow> gate_limit_req env loc ctx sh = (d, sh') \<Longrightarrow> P sh' = P sh"
  by (auto simp: gate_limit_req_def split: option.splits) (metis limited snd_conv)

lemma decorate_keeps: "env_keeps P env \<Longrightarrow> decorate env st matched ctx resp sh = (r, sh') \<Longrightarrow> P sh' = P sh"
  by (auto simp: decorate_def Let_def env_keeps_def proxy_keeps_def split: option.splits if_splits)

end

section \<open>Counting requests\<close>

definition request_counts :: "metrics \<Rightarrow> u64 \<times> u64 \<times> u64 \<times> u64 \<times> u64 \<times> u64" where
  "request_counts m = (m_reqs m, m_resp_1xx m, m_resp_2xx m, m_resp_3xx m, m_resp_4xx m, m_resp_5xx m)"

lemma request_counts_record [simp]:
  "request_counts (record_proxy_attempt m) = request_counts m"
  "request_counts (record_proxy_failure m) = request_counts m"
  "request_counts (record_cache_bypass m) = request_counts m"
  "request_counts (record_cache_hit m) = request_counts m"
  "request_counts (record_cache_miss m) = request_counts m"
  "request_counts (record_cache_evict n m) = request_counts m"
  "request_counts (set_cache_entries n m) = request_counts m"
  "request_counts (set_cache_bytes n m) = request_counts m"
  "request_counts (record_limit_req_allowed m) = request_counts m"
  "request_counts (record_limit_req_denied m) = request_counts m"
  "request_counts (record_limit_conn_allowed m) = request_counts m"
  "request_counts (record_limit_conn_denied m) = request_counts m"
  by (simp_all add: request_counts_def record_proxy_attempt_def record_proxy_failure_def record_cache_bypass_def
      record_cache_hit_def record_cache_miss_def record_cache_evict_def set_cache_entries_def set_cache_bytes_def
      record_limit_req_allowed_def record_limit_req_denied_def record_limit_conn_allowed_def record_limit_conn_denied_def)

lemma request_counts_request:
  "request_counts m = request_counts m' \<Longrightarrow> request_counts (record_request s m) = request_counts (record_request s m')"
  by (simp add: request_counts_def record_request_def Let_def)

lemma request_counts_evict: "request_counts (snd (evict_loop it n need st)) = request_counts (snd st)"
proof (induction n arbitrary: st)
  case (Suc n)
  have "request_counts (snd (evict_variant k sg st)) = request_counts (snd st)" for k sg st
    by (auto simp: evict_variant_def Let_def split: prod.splits option.splits)
  then show ?case using Suc by (auto split: option.splits)
qed simp

lemma request_counts_put: "request_counts (snd (cache_put it key e st)) = request_counts (snd st)"
  using request_counts_evict[of it "Suc (variant_count (fst st))" "entry_bytes e" st]
  by (auto simp: cache_put_def Let_def split: prod.splits)

lemma request_counts_get: "request_counts (snd (snd (cache_get H now key h st))) = request_counts (snd st)"
  by (auto simp: cache_get_def Let_def split: prod.splits option.splits)

interpretation reqs: untouched_action "\<lambda>sh. request_counts (sh_metrics sh)" H for H :: "'h header_ops"
proof unfold_locales
  fix k it key e and sh :: "'x plant shared"
  show "request_counts (sh_metrics (on_store k (cache_put it key e) sh)) = request_counts (sh_metrics sh)"
    using request_counts_put[of it key e "(sh_stores sh ! k, sh_metrics sh)"]
    by (auto simp: on_store_def split: prod.splits)
next
  fix k now key h and sh :: "'x plant shared"
  show "request_counts (sh_metrics (on_store k (\<lambda>st. snd (cache_get H now key h st)) sh)) = request_counts (sh_metrics sh)"
    using request_counts_get[of H now key h "(sh_stores sh ! k, sh_metrics sh)"]
    by (auto simp: on_store_def split: prod.splits)
qed (auto simp: count_def on_req_zone_def enforce_def allow_def Let_def split: prod.splits if_splits)

lemma gate_limit_conn_counts:
  "gate_limit_conn env loc ctx sh = (g, sh') \<Longrightarrow> request_counts (sh_metrics sh') = request_counts (sh_metrics sh)"
  by (auto simp: gate_limit_conn_def on_conn_zone_def enforce_conn_def try_acquire_def Let_def
      split: option.splits prod.splits sum.splits if_splits)

lemma drop_slot_counts: "sh_metrics (drop_slot g sh) = sh_metrics sh"
  by (auto simp: drop_slot_def on_conn_zone_def Let_def split: option.splits)

lemma serve_location_counts:
  assumes "env_keeps (\<lambda>sh. request_counts (sh_metrics sh)) env" and "serve_location env loc ctx req peer sh = (out, tried, spawned, sh')"
  shows "request_counts (sh_metrics sh') = request_counts (sh_metrics sh)"
  using assms(2) by (auto simp: serve_location_def Let_def drop_slot_counts
      split: if_splits prod.splits option.splits sum.splits
      dest!: reqs.gate_limit_req_keeps[OF refl] gate_limit_conn_counts reqs.authorised_action_keeps[OF assms(1) refl])

text \<open>C18: Every request is accounted for exactly once, whichever way it ends, served, refused or failed: the
  handler writes one line to the access log, with the client, the method, the path and the status of the
  response, and the request counters grow as by one record of this status, if the other tasks leave them
  alone meanwhile.\<close>

theorem handle_accounted:
  assumes "env_keeps (\<lambda>sh. request_counts (sh_metrics sh)) env" and "handle env st req peer sh = (h, sh')"
  shows "request_counts (sh_metrics sh') = request_counts (record_request (rs_status (hd_response h)) (sh_metrics sh)) \<and>
    (\<exists>note. hd_access h = [access_line peer req (rs_status (hd_response h)) note])"
proof -
  have fin: "request_counts (sh_metrics s') = request_counts (record_request (rs_status (hd_response h)) (sh_metrics s)) \<and>
      hd_access h = [access_line peer req (rs_status (hd_response h)) nt]"
    if "finish peer req nt resp tried spawned s = (h, s')" for nt resp tried spawned s s'
    using that by (auto simp: finish_def count_def)
  show ?thesis using assms(2) unfolding handle_def Let_def
    by (auto split: if_splits option.splits prod.splits sum.splits
        dest!: fin serve_location_counts[OF assms(1)] reqs.decorate_keeps[OF assms(1)] intro: request_counts_request)
qed

section \<open>A worker to compute with\<close>

text \<open>Every upstream and every service answers at once; nothing else runs.\<close>

definition demo_server :: "(header_list, string, unit) server_env" where
  "demo_server = \<lparr>
     sx_proxy = \<lparr>pe_headers = list_headers, pe_hash = (\<lambda>_. 0), pe_order = (\<lambda>xs. xs),
       pe_parse_uri = (\<lambda>s. Some \<lparr>u_path = s, u_query = None, u_path_and_query = None, u_authority = None\<rparr>),
       pe_now_ms = (\<lambda>_. 5), pe_instant = (\<lambda>_. 0),
       pe_send = (\<lambda>c req t sh. (Some (full_response \<lparr>rs_status = 200, rs_headers = [], rs_body = ''up''\<rparr>), sh)),
       pe_collect = (\<lambda>sh. sh)\<rparr>,
     sx_sub = \<lparr>sub_parse_uri = (\<lambda>s. Inr \<lparr>u_path = s, u_query = None, u_path_and_query = None, u_authority = None\<rparr>),
       sub_send = (\<lambda>req t sh. (Replied (full_response \<lparr>rs_status = 401, rs_headers = [], rs_body = []\<rparr>), sh))\<rparr>,
     sx_files = listed_files [(''/srv/a'', ''abc'')] 0,
     sx_is_match = (\<lambda>re path. re = path),
     sx_crypto = \<lparr>b64_decode = (\<lambda>s. None), bcrypt_verify = (\<lambda>p h. None)\<rparr>,
     sx_gzip = (\<lambda>b. None),
     sx_req_order = (\<lambda>xs. xs), sx_conn_order = (\<lambda>xs. xs),
     sx_epoch_secs = (\<lambda>_. Some 0), sx_uptime = (\<lambda>_. ''1''), sx_version = ''1''\<rparr>"

definition demo_location :: location_rt where
  "demo_location = \<lparr>lr_path = ''/'', lr_action = RtStatic ''/srv'' StaticRoot, lr_add_headers = [], lr_expires = None,
     lr_gzip = None, lr_autoindex = False, lr_auth = None, lr_limit_req = None,
     lr_limit_conn = Some \<lparr>lca_zone = 0, lca_max_conn = 2\<rparr>, lr_access_rules = [],
     lr_proxy_connect_timeout = None, lr_proxy_read_timeout = None, lr_auth_request = None, lr_mirrors = [],
     lr_proxy_ssl_verify = True, lr_proxy_client = None\<rparr>"

definition demo_state :: "location_rt \<Rightarrow> string server_state" where
  "demo_state loc = \<lparr>sv_server_name = None, sv_scheme = ''http'', sv_gzip = False, sv_gzip_types = [],
     sv_gzip_min_length = 0, sv_maps = [], sv_client_max_body_size = 100, sv_h3_advertised_port = None,
     sv_exact_locs = [], sv_regex_locs = [], sv_prefix_locs = [loc]\<rparr>"

definition demo_plant :: "unit plant shared" where
  "demo_plant = \<lparr>sh_targets = \<lparr>ts_heap = [], ts_ephemeral = []\<rparr>, sh_stores = [], sh_metrics = initial_metrics,
     sh_world = \<lparr>pl_req_zones = [], pl_conn_zones = [limit_conn_zone_new ''z'' [Var RemoteAddr] 9], pl_world = ()\<rparr>\<rparr>"

definition demo_get :: "string \<Rightarrow> header_list http_request" where
  "demo_get path = \<lparr>rq_method = ''GET'', rq_uri = \<lparr>u_path = path, u_query = None, u_path_and_query = Some path, u_authority = None\<rparr>,
     rq_version = ''HTTP/1.1'', rq_headers = [], rq_body = []\<rparr>"

definition demo_client :: socket_addr where
  "demo_client = \<lparr>sa_ip = V4 [10, 0, 0, 1], sa_port = 99\<rparr>"

lemma demo_server_headers [simp]: "sx_headers demo_server = list_headers"
  by (simp add: demo_server_def)

lemma demo_server_keeps: "env_keeps P demo_server"
  by (simp add: env_keeps_def proxy_keeps_def files_keep_def demo_server_def listed_files_def)

theorem handle_accounted_witness:
  "m_resp_2xx (sh_metrics (snd (handle demo_server (demo_state demo_location) (demo_get ''/a'') demo_client demo_plant))) = 1"
proof -
  let ?h = "handle demo_server (demo_state demo_location) (demo_get ''/a'') demo_client demo_plant"
  have "rs_status (hd_response (fst ?h)) = 200" by code_simp
  moreover have "m_resp_2xx (sh_metrics demo_plant) = 0" by code_simp
  ultimately show ?thesis
    using handle_accounted[OF demo_server_keeps prod.collapse[symmetric, of ?h]]
    by (simp add: request_counts_def record_request_def)
qed

section \<open>Slots are given back\<close>

abbreviation conn_zones :: "'x plant shared \<Rightarrow> limit_conn_zone list" where
  "conn_zones sh \<equiv> pl_conn_zones (sh_world sh)"

interpretation zones: untouched_action "\<lambda>sh. conn_zones sh" H for H :: "'h header_ops"
  by unfold_locales (auto simp: count_def on_store_def on_req_zone_def Let_def split: prod.splits)

definition zones_wf :: "limit_conn_zone list \<Rightarrow> bool" where
  "zones_wf zs \<longleftrightarrow> (\<forall>z \<in> set zs. wf_smap (cn_counts z))"

lemma zones_update:
  assumes "zones_wf zs" and "k < length zs \<Longrightarrow> conn_count z = conn_count (zs ! k) \<and> wf_smap (cn_counts z)"
  shows "map conn_count (zs[k := z]) = map conn_count zs \<and> zones_wf (zs[k := z])"
proof (cases "k < length zs")
  case True
  then have "map conn_count (zs[k := z]) = map conn_count zs"
    using assms(2) by (simp add: map_update list_update_same_conv)
  moreover have "zones_wf (zs[k := z])"
    using True assms set_update_subset_insert[of zs k z] by (auto simp: zones_wf_def)
  ultimately show ?thesis by blast
qed (use assms(1) in \<open>simp add: list_update_beyond\<close>)

lemma slot_round_trip:
  assumes "iter_order it" and "wf_smap (cn_counts z)" and "enforce_conn H it mx ctx (z, m) = (Inr key, z', m')"
  shows "conn_count (conn_guard_release key z') = conn_count z" and "wf_smap (cn_counts (conn_guard_release key z'))"
proof -
  have t: "try_acquire it key mx (z, m) = (True, z', m')"
    using assms(3) by (auto simp: enforce_conn_def Let_def split: prod.splits if_splits)
  note c = try_acquire_counts[OF assms(1,2) t]
  show "conn_count (conn_guard_release key z') = conn_count z"
    by (rule ext) (simp add: conn_guard_release_counts(2)[OF c(1)] c(2))
  show "wf_smap (cn_counts (conn_guard_release key z'))" by (rule conn_guard_release_counts(1)[OF c(1)])
qed

lemma refused_counts:
  assumes "iter_order it" and "wf_smap (cn_counts z)" and "enforce_conn H it mx ctx (z, m) = (Inl r, z', m')"
  shows "conn_count z' = conn_count z" and "wf_smap (cn_counts z')"
proof -
  have t: "try_acquire it (render H ctx (cn_key_template z)) mx (z, m) = (False, z', m')"
    using assms(3) by (auto simp: enforce_conn_def Let_def split: prod.splits if_splits)
  note c = try_acquire_counts[OF assms(1,2) t]
  show "conn_count z' = conn_count z" by (rule ext) (simp add: c(2))
  show "wf_smap (cn_counts z')" by (rule c(1))
qed

lemma serve_location_slots:
  assumes keeps: "env_keeps conn_zones env" and it: "iter_order (sx_conn_order env)" and wf: "zones_wf (conn_zones sh)"
    and run: "serve_location env loc ctx req peer sh = (out, tried, spawned, sh')"
  shows "map conn_count (conn_zones sh') = map conn_count (conn_zones sh) \<and> zones_wf (conn_zones sh')"
proof -
  obtain d sh1 where g1: "gate_limit_req env loc ctx sh = (d, sh1)" by (metis surj_pair)
  obtain g sh2 where g2: "gate_limit_conn env loc ctx sh1 = (g, sh2)" by (metis surj_pair)
  have z1: "conn_zones sh1 = conn_zones sh" using zones.gate_limit_req_keeps[OF refl g1] .
  note zwf = wf[unfolded zones_wf_def]
  show ?thesis
  proof (cases "d = None \<and> \<not> (lr_access_rules loc \<noteq> [] \<and> \<not> check (lr_access_rules loc) (sa_ip peer))")
    case False
    then show ?thesis using run g1 z1 wf by (auto simp: serve_location_def split: if_splits option.splits)
  next
    case True
    show ?thesis
    proof (cases "lr_limit_conn loc")
      case None
      then show ?thesis using run g1 g2 z1 wf True
        by (auto simp: serve_location_def gate_limit_conn_def drop_slot_def Let_def split: prod.splits if_splits
            dest!: zones.authorised_action_keeps[OF keeps refl])
    next
      case (Some a)
      let ?k = "lca_zone a" and ?e = "enforce_conn (sx_headers env) (sx_conn_order env) (of_nat (lca_max_conn a)) ctx"
      obtain x z' m' where e: "?e (conn_zones sh1 ! ?k, sh_metrics sh1) = (x, z', m')" by (metis prod_cases3)
      have z2: "conn_zones sh2 = (conn_zones sh)[?k := z']"
        using g2 Some e z1 by (auto simp: gate_limit_conn_def on_conn_zone_def Let_def split: sum.splits)
      have w: "?k < length (conn_zones sh) \<Longrightarrow> wf_smap (cn_counts (conn_zones sh ! ?k))" using zwf by simp
      show ?thesis
      proof (cases x)
        case (Inl r)
        have "conn_zones sh' = (conn_zones sh)[?k := z']"
          using run g1 g2 True Some Inl e z2
          by (auto simp: serve_location_def gate_limit_conn_def on_conn_zone_def Let_def split: if_splits)
        then show ?thesis
          using zones_update[OF wf] refused_counts[OF it w e[unfolded z1 Inl]] by simp
      next
        case (Inr key)
        have g: "g = Inr (Some (?k, key))"
          using g2 Some Inr e by (auto simp: gate_limit_conn_def on_conn_zone_def Let_def)
        have z3: "conn_zones sh' = (conn_zones sh)[?k := conn_guard_release key ((conn_zones sh)[?k := z'] ! ?k)]"
          using run g1 g2 True g z2
          by (auto simp: serve_location_def drop_slot_def on_conn_zone_def Let_def split: prod.splits if_splits
              dest!: zones.authorised_action_keeps[OF keeps refl])
        then show ?thesis
          using zones_update[OF wf] slot_round_trip[OF it w e[unfolded z1 Inr]] by simp
      qed
    qed
  qed
qed

text \<open>C19: A connection slot is held only while its request runs: when the handler returns, whichever way the
  request ended, every key of every zone has as many slots taken as before, if no other task takes
  or returns slots meanwhile.\<close>

theorem handle_slots_released:
  assumes "env_keeps conn_zones env" and "iter_order (sx_conn_order env)" and "zones_wf (conn_zones sh)"
    and "handle env st req peer sh = (h, sh')"
  shows "map conn_count (conn_zones sh') = map conn_count (conn_zones sh)"
proof -
  have fin: "conn_zones s' = conn_zones s" if "finish peer req nt resp tried spawned s = (h, s')" for nt resp tried spawned s s'
    using that by (auto simp: finish_def count_def)
  show ?thesis using assms(4) unfolding handle_def Let_def
    by (auto split: if_splits option.splits prod.splits sum.splits
        dest!: fin serve_location_slots[OF assms(1-3)] zones.decorate_keeps[OF assms(1)])
qed

theorem handle_slots_released_witness:
  "map (\<lambda>z. conn_count z ''10.0.0.1'') (conn_zones (snd (handle demo_server (demo_state demo_location) (demo_get ''/a'') demo_client demo_plant))) = [0]"
proof -
  let ?h = "handle demo_server (demo_state demo_location) (demo_get ''/a'') demo_client demo_plant"
  have "zones_wf (conn_zones demo_plant)" "iter_order (sx_conn_order demo_server)"
    by (simp_all add: zones_wf_def demo_plant_def limit_conn_zone_new_def demo_server_def iter_order_id)
  from handle_slots_released[OF demo_server_keeps this(2,1) prod.collapse[symmetric, of ?h]]
  have "map (\<lambda>f. f ''10.0.0.1'') (map conn_count (conn_zones (snd ?h))) = map (\<lambda>f. f ''10.0.0.1'') (map conn_count (conn_zones demo_plant))"
    by simp
  then show ?thesis by (simp add: comp_def demo_plant_def limit_conn_zone_new_def conn_count_def)
qed

section \<open>The order of the checks\<close>

text \<open>All checks of a location, each in the state the one before leaves.\<close>

definition admitted :: "('h, 'r, 'x) server_env \<Rightarrow> location_rt \<Rightarrow> 'h request_ctx \<Rightarrow> 'h http_request \<Rightarrow> socket_addr \<Rightarrow>
    'x plant shared \<Rightarrow> bool" where
  "admitted env loc ctx req peer sh \<longleftrightarrow>
     check (lr_access_rules loc) (sa_ip peer) \<and>
     (let (d, sh1) = gate_limit_req env loc ctx sh; (g, sh2) = gate_limit_conn env loc ctx sh1
      in d = None \<and> \<not> isl g \<and>
         (\<forall>tmpl. lr_auth_request loc = Some tmpl \<longrightarrow>
            fst (auth_request_check (sx_headers env) (sx_sub env) tmpl ctx (rq_headers req) sh2) = Inr ()) \<and>
         (\<forall>auth. lr_auth loc = Some auth \<longrightarrow> auth_check (sx_headers env) (sx_crypto env) auth (rq_headers req) = Inr ()))"

lemma full_status [simp]: "rs_status (full_response x) = rs_status x"
  by (simp add: full_response_def response.defs)

lemma challenge_status: "auth_check H C auth hs = Inl r \<Longrightarrow> rs_status r = 401"
  by (auto simp: auth_check_def challenge_response_def Let_def split: option.splits prod.splits if_splits)

lemma auth_request_refusal:
  "auth_request_check H env tmpl ctx hs sh = (Inl r, sh') \<Longrightarrow> \<not> (200 \<le> rs_status r \<and> rs_status r < 300)"
  by (auto simp: auth_request_check_def Let_def text_response_def split: if_splits sum.splits prod.splits sent.splits)

lemma gate_refusal:
  "gate_limit_req env loc ctx sh = (Some r, sh') \<Longrightarrow> rs_status r = 503"
  "gate_limit_conn env loc ctx sh = (Inl r, sh') \<Longrightarrow> rs_status r = 503"
  by (auto simp: gate_limit_req_def gate_limit_conn_def on_req_zone_def on_conn_zone_def enforce_def enforce_conn_def
      deny_response_def text_response_def Let_def split: option.splits prod.splits if_splits sum.splits)

lemma access_rules_nonempty: "\<not> check rules ip \<Longrightarrow> rules \<noteq> []"
  by auto

lemma not_admitted:
  assumes "\<not> admitted env loc ctx req peer sh"
  obtains r nt spawned sh' where "serve_location env loc ctx req peer sh = (Inl (r, nt), [], spawned, sh')"
    "serve_location env (loc\<lparr>lr_action := a\<rparr>) ctx req peer sh = (Inl (r, nt), [], spawned, sh')"
    "\<not> (200 \<le> rs_status r \<and> rs_status r < 300)"
proof -
  obtain d sh1 where g1: "gate_limit_req env loc ctx sh = (d, sh1)" by (metis surj_pair)
  obtain g sh2 where g2: "gate_limit_conn env loc ctx sh1 = (g, sh2)" by (metis surj_pair)
  have same: "gate_limit_req env (loc\<lparr>lr_action := a\<rparr>) ctx sh = (d, sh1)"
    "gate_limit_conn env (loc\<lparr>lr_action := a\<rparr>) ctx sh1 = (g, sh2)"
    using g1 g2 by (simp_all add: gate_limit_req_def gate_limit_conn_def)
  consider (addr) "\<not> check (lr_access_rules loc) (sa_ip peer)"
    | (rate) r where "check (lr_access_rules loc) (sa_ip peer)" "d = Some r"
    | (slots) r where "check (lr_access_rules loc) (sa_ip peer)" "d = None" "g = Inl r"
    | (auth) slot where "check (lr_access_rules loc) (sa_ip peer)" "d = None" "g = Inr slot"
    by (cases d; cases g) auto
  then show thesis
  proof cases
    case addr
    then have "lr_access_rules loc \<noteq> []" by (rule access_rules_nonempty)
    with addr that show ?thesis by (simp add: serve_location_def forbidden_def text_response_def)
  next
    case rate
    then have "rs_status r = 503" using g1 gate_refusal(1) by blast
    with rate that g1 same show ?thesis by (simp add: serve_location_def)
  next
    case slots
    then have "rs_status r = 503" using g2 gate_refusal(2) by blast
    with slots that g1 g2 same show ?thesis by (simp add: serve_location_def)
  next
    case auth
    have "\<exists>r nt sh3. authorised_action env loc ctx req peer sh2 = (Inl (r, nt), [], sh3) \<and>
        authorised_action env (loc\<lparr>lr_action := a\<rparr>) ctx req peer sh2 = (Inl (r, nt), [], sh3) \<and>
        \<not> (200 \<le> rs_status r \<and> rs_status r < 300)"
      using assms auth g1 g2
      by (auto simp: admitted_def authorised_action_def Let_def split: option.splits prod.splits sum.splits
          dest: challenge_status auth_request_refusal)
    with auth that g1 g2 same show ?thesis by (auto simp: serve_location_def Let_def)
  qed
qed

text \<open>C2: A request that fails a check of its location gets nothing of what the location serves. It is
  answered without a 2xx status, nothing is sent upstream, and the outcome is the same whatever the action
  of the location is. A client refused by its address leaves no trace but the count of the request.\<close>

theorem handle_protected:
  assumes "route (sx_is_match env) st (u_path (rq_uri req)) = Some loc"
    and "ctx = make_ctx st req peer (eval_maps (sx_headers env) st req peer)"
    and "\<not> admitted env loc ctx req peer sh" and "handle env st req peer sh = (h, sh')"
  shows "hd_attempts h = [] \<and> \<not> (200 \<le> rs_status (hd_response h) \<and> rs_status (hd_response h) < 300) \<and>
    serve_location env (loc\<lparr>lr_action := a\<rparr>) ctx req peer sh = serve_location env loc ctx req peer sh \<and>
    (\<not> check (lr_access_rules loc) (sa_ip peer) \<and> \<not> too_large (sx_headers env) st (rq_headers req) \<longrightarrow>
       rs_status (hd_response h) = 403 \<and> hd_spawned h = [] \<and> sh' = count (record_request 403) sh)"
proof -
  obtain r nt spawned sh1 where run: "serve_location env loc ctx req peer sh = (Inl (r, nt), [], spawned, sh1)"
      "serve_location env (loc\<lparr>lr_action := a\<rparr>) ctx req peer sh = (Inl (r, nt), [], spawned, sh1)"
      "\<not> (200 \<le> rs_status r \<and> rs_status r < 300)"
    by (rule not_admitted[OF assms(3)])
  have addr: "r = forbidden (sx_headers env) \<and> spawned = [] \<and> sh1 = sh" if "\<not> check (lr_access_rules loc) (sa_ip peer)"
    using run(1) that access_rules_nonempty[OF that] by (simp add: serve_location_def)
  show ?thesis
  proof (cases "too_large (sx_headers env) st (rq_headers req)")
    case True
    then show ?thesis using assms(4) run
      by (auto simp: handle_def Let_def finish_def payload_too_large_def text_response_def)
  next
    case False
    then have "finish peer req nt (full_response r) [] spawned sh1 = (h, sh')"
      using assms(4) by (simp add: handle_def Let_def assms(1) assms(2)[symmetric] run(1))
    then show ?thesis using False run addr
      by (auto simp: finish_def forbidden_def text_response_def)
  qed
qed

definition closed_location :: location_rt where
  "closed_location = demo_location\<lparr>lr_access_rules := [\<lparr>ar_action = Deny, ar_target = All\<rparr>]\<rparr>"

theorem handle_protected_witness:
  "rs_status (hd_response (fst (handle demo_server (demo_state closed_location) (demo_get ''/a'') demo_client demo_plant))) = 403 \<and>
   hd_attempts (fst (handle demo_server (demo_state closed_location) (demo_get ''/a'') demo_client demo_plant)) = []"
proof -
  let ?st = "demo_state closed_location" and ?req = "demo_get ''/a''"
  let ?h = "handle demo_server ?st ?req demo_client demo_plant"
  have "route (sx_is_match demo_server) ?st (u_path (rq_uri ?req)) = Some closed_location" by code_simp
  moreover have n: "\<not> check (lr_access_rules closed_location) (sa_ip demo_client)" by code_simp
  then have "\<not> admitted demo_server closed_location ctx ?req demo_client demo_plant" for ctx by (simp add: admitted_def)
  moreover have "\<not> too_large (sx_headers demo_server) ?st (rq_headers ?req)" by code_simp
  ultimately show ?thesis
    using handle_protected[OF _ refl _ prod.collapse[symmetric, of ?h]] n by blast
qed

definition demo_maps :: "string server_state" where
  "demo_maps = (demo_state demo_location)\<lparr>sv_maps := [
     \<lparr>md_source = [Var Scheme], md_output_name = ''a'', md_rules = [\<lparr>mr_pattern = PLiteral ''http'', mr_value = [Literal ''x'']\<rparr>]\<rparr>,
     \<lparr>md_source = [Literal ''q''], md_output_name = ''b'', md_rules = [\<lparr>mr_pattern = PDefault, mr_value = [Literal ''y'']\<rparr>]\<rparr>]\<rparr>"

theorem eval_maps_exact_witness:
  "map_of (eval_maps list_headers demo_maps (demo_get ''/'') demo_client) ''a'' = Some ''x''"
proof -
  have "map_of (eval_maps list_headers demo_maps (demo_get ''/'') demo_client) ''a'' =
      Some (map_value list_headers (make_ctx demo_maps (demo_get ''/'') demo_client
        (eval_maps list_headers (demo_maps\<lparr>sv_maps := []\<rparr>) (demo_get ''/'') demo_client)) (hd (sv_maps demo_maps)))"
    using eval_maps_exact[where st = demo_maps and pre = "[]" and m = "hd (sv_maps demo_maps)" and post = "tl (sv_maps demo_maps)"]
    by (simp add: demo_maps_def)
  moreover have "map_value list_headers (make_ctx demo_maps (demo_get ''/'') demo_client
        (eval_maps list_headers (demo_maps\<lparr>sv_maps := []\<rparr>) (demo_get ''/'') demo_client)) (hd (sv_maps demo_maps)) = ''x''"
    by code_simp
  ultimately show ?thesis by simp
qed

end
