(* ===== verification/Http3.thy ===== *)
theory Http3
  imports Server
begin

text \<open>
  The HTTP/3 front end (\<^verbatim>\<open>src/src/http3.rs\<close>): a request is read from a QUIC stream, its body is
  collected under a limit, and it is dispatched through the same locations as the requests of
  \<^verbatim>\<open>server.rs\<close>. The QUIC and HTTP/3 libraries are arguments: the sequence of results of
  \<^verbatim>\<open>recv_data\<close>, and the sending of a response, which may fail.

  Shown here: the body that is collected is what was received, and never longer than the limit; the answer
  is the one the handler of HTTP/1 and 2 gives when nothing is compressed or advertised; and where the two
  differ, in the shadow requests of refused requests and in the accounting of refused bodies.
\<close>

section \<open>Collecting the body\<close>

definition absolute_body_cap :: nat where
  "absolute_body_cap = 32 * 1024 * 1024"

definition body_limit :: "'r server_state \<Rightarrow> nat" where
  "body_limit st = (if sv_client_max_body_size st = 0 then absolute_body_cap else sv_client_max_body_size st)"

text \<open>A result of \<^verbatim>\<open>recv_data\<close>; the end of the list is the end of the body.\<close>

datatype recv_data = Data string | Recv_failed

datatype buffered = Buffered string | Too_large | Aborted

fun buffer_body :: "nat \<Rightarrow> string \<Rightarrow> recv_data list \<Rightarrow> buffered" where
  "buffer_body limit buf [] = Buffered buf"
| "buffer_body limit buf (Recv_failed # cs) = Aborted"
| "buffer_body limit buf (Data c # cs) =
     (if length buf + length c > limit then Too_large else buffer_body limit (buf @ c) cs)"

section \<open>Dispatch\<close>

text \<open>The request as it is rebuilt for the proxy.\<close>

definition h3_request :: "'h http_request \<Rightarrow> string \<Rightarrow> 'h http_request" where
  "h3_request req body = req\<lparr>rq_version := ''HTTP/1.1'', rq_body := body\<rparr>"

text \<open>Here the shadow requests come after the checks of the credentials.\<close>

definition h3_location :: "('h, 'r, 'x) server_env \<Rightarrow> location_rt \<Rightarrow> 'h request_ctx \<Rightarrow> 'h http_request \<Rightarrow>
    socket_addr \<Rightarrow> 'x plant shared \<Rightarrow>
    ('h response + 'h streamed) \<times> 'h attempt list \<times> 'h mirror_task list \<times> 'x plant shared" where
  "h3_location env loc ctx req peer sh =
     (if lr_access_rules loc \<noteq> [] \<and> \<not> check (lr_access_rules loc) (sa_ip peer)
      then (Inl (forbidden (sx_headers env)), [], [], sh)
      else case gate_limit_req env loc ctx sh of
        (Some denied, sh1) \<Rightarrow> (Inl denied, [], [], sh1)
      | (None, sh1) \<Rightarrow>
          (case gate_limit_conn env loc ctx sh1 of
             (Inl denied, sh2) \<Rightarrow> (Inl denied, [], [], sh2)
           | (Inr guard, sh2) \<Rightarrow>
               (case authorised_action env loc ctx req peer sh2 of
                  (Inl (denied, _), tried, sh3) \<Rightarrow> (Inl denied, tried, [], drop_slot guard sh3)
                | (Inr resp, tried, sh3) \<Rightarrow>
                    (Inr resp, tried,
                     dispatch (sx_headers env) (lr_mirrors loc) ctx (rq_headers req) (rq_method req),
                     drop_slot guard sh3))))"

definition h3_decorate :: "('h, 'r, 'x) server_env \<Rightarrow> location_rt \<Rightarrow> 'h request_ctx \<Rightarrow> 'x plant shared \<Rightarrow> 'h streamed \<Rightarrow> 'h streamed" where
  "h3_decorate env loc ctx sh resp =
     (let H = sx_headers env;
          h1 = apply_add_headers H ctx (lr_add_headers loc) (rs_headers resp)
      in resp\<lparr>rs_headers := (case lr_expires loc of
           Some d \<Rightarrow> apply_expires H (sx_epoch_secs env (sh_world sh)) d h1
         | None \<Rightarrow> h1)\<rparr>)"

definition h3_dispatch :: "('h, 'r, 'x) server_env \<Rightarrow> 'r server_state \<Rightarrow> 'h http_request \<Rightarrow> socket_addr \<Rightarrow>
    'x plant shared \<Rightarrow> 'h streamed \<times> 'h attempt list \<times> 'h mirror_task list \<times> 'x plant shared" where
  "h3_dispatch env st req peer sh =
     (let H = sx_headers env;
          ctx = make_ctx st req peer (eval_maps H st req peer)
      in case route (sx_is_match env) st (u_path (rq_uri req)) of
           None \<Rightarrow> (full_response (not_found H), [], [], sh)
         | Some loc \<Rightarrow>
             (case h3_location env loc ctx req peer sh of
                (Inl denied, tried, spawned, sh1) \<Rightarrow> (full_response denied, tried, spawned, sh1)
              | (Inr resp, tried, spawned, sh1) \<Rightarrow> (h3_decorate env loc ctx sh1 resp, tried, spawned, sh1)))"

section \<open>A stream\<close>

record 'h h3_handled =
  h3_sent :: "'h streamed option"
  h3_attempts :: "'h attempt list"
  h3_spawned :: "'h mirror_task list"
  h3_access :: "string list"

text \<open>\<open>send\<close> writes the headers and the body of a response and finishes the stream; when it fails, the task
  ends there.\<close>

definition h3_host :: "'h header_ops \<Rightarrow> 'h http_request \<Rightarrow> string option" where
  "h3_host H req = (case header_text H (rq_headers req) ''host'' of
      Some h \<Rightarrow> Some h
    | None \<Rightarrow> u_authority (rq_uri req))"

definition handle_stream :: "('h, 'r, 'x) server_env \<Rightarrow> ('h streamed \<Rightarrow> 'x plant shared \<Rightarrow> bool \<times> 'x plant shared) \<Rightarrow>
    'r listener_cfg \<Rightarrow> recv_data list \<Rightarrow> 'h http_request \<Rightarrow> socket_addr \<Rightarrow> 'x plant shared \<Rightarrow>
    'h h3_handled \<times> 'x plant shared" where
  "handle_stream env send cfg chunks req peer sh =
     (let H = sx_headers env;
          st = pick_state cfg (h3_host H req)
      in case buffer_body (body_limit st) [] chunks of
           Aborted \<Rightarrow> (\<lparr>h3_sent = None, h3_attempts = [], h3_spawned = [], h3_access = []\<rparr>, sh)
         | Too_large \<Rightarrow>
             (let r = full_response (text_response H 413 (line ''413 Request Entity Too Large''));
                  (ok, sh') = send r sh
              in (\<lparr>h3_sent = Some r, h3_attempts = [], h3_spawned = [], h3_access = []\<rparr>, sh'))
         | Buffered body \<Rightarrow>
             (let (resp, tried, spawned, sh1) = h3_dispatch env st (h3_request req body) peer sh;
                  (ok, sh2) = send resp sh1
              in if ok then
                   (\<lparr>h3_sent = Some resp, h3_attempts = tried, h3_spawned = spawned,
                     h3_access = [access_line peer req (rs_status resp) '' (h3)'']\<rparr>,
                    count (record_request (rs_status resp)) sh2)
                 else
                   (\<lparr>h3_sent = Some resp, h3_attempts = tried, h3_spawned = spawned, h3_access = []\<rparr>, sh2)))"

section \<open>The body\<close>

definition received :: "recv_data list \<Rightarrow> string" where
  "received cs = concat (map (\<lambda>c. case c of Data d \<Rightarrow> d | Recv_failed \<Rightarrow> []) cs)"

lemma buffer_body_cases:
  "length buf \<le> limit \<Longrightarrow>
   (case buffer_body limit buf cs of
      Buffered b \<Rightarrow> Recv_failed \<notin> set cs \<and> b = buf @ received cs \<and> length b \<le> limit
    | Too_large \<Rightarrow> limit < length (buf @ received cs)
    | Aborted \<Rightarrow> Recv_failed \<in> set cs)"
proof (induction limit buf cs rule: buffer_body.induct)
  case (3 limit buf c cs)
  then show ?case by (auto simp: received_def split: buffered.splits)
qed (simp_all add: received_def)

text \<open>The body of an HTTP/3 request is collected exactly and within bounds: a body that is received without an
  error is passed on whole if it is not longer than the limit, and is refused otherwise, so the
  buffer never outgrows the configured size, or 32 MiB where none is configured.\<close>

theorem buffer_body_exact:
  assumes "Recv_failed \<notin> set cs"
  shows "buffer_body (body_limit st) [] cs =
    (if length (received cs) \<le> body_limit st then Buffered (received cs) else Too_large) \<and>
    body_limit st = (if sv_client_max_body_size st = 0 then 33554432 else sv_client_max_body_size st)"
proof
  show "buffer_body (body_limit st) [] cs =
      (if length (received cs) \<le> body_limit st then Buffered (received cs) else Too_large)"
    using buffer_body_cases[of "[]" "body_limit st" cs] assms by (auto split: buffered.splits)
qed (simp add: body_limit_def absolute_body_cap_def)

theorem buffer_body_exact_witness:
  "buffer_body (body_limit (demo_state demo_location)) [] [Data ''ab'', Data ''c''] = Buffered ''abc''"
proof -
  have "body_limit (demo_state demo_location) = 100" by code_simp
  then show ?thesis using buffer_body_exact[of "[Data ''ab'', Data ''c'']" "demo_state demo_location"] by (simp add: received_def)
qed

section \<open>Agreement with the other front end\<close>

lemma h3_location_agrees:
  assumes "serve_location env loc ctx req peer sh = (out, tried, spawned, sh')"
  shows "\<exists>spawned'. h3_location env loc ctx req peer sh =
      (map_sum fst id out, tried, spawned', sh') \<and> (spawned' = spawned \<or> isl out \<and> spawned' = [])"
  using assms
  by (auto simp: serve_location_def h3_location_def Let_def split: if_splits prod.splits option.splits sum.splits)

lemma decorate_plain:
  assumes "sv_h3_advertised_port st = None" and "\<not> (case lr_gzip loc of Some g \<Rightarrow> g | None \<Rightarrow> sv_gzip st)"
  shows "decorate env st (Some loc) ctx resp sh = (h3_decorate env loc ctx sh resp, sh)"
proof -
  have alt: "apply_alt_svc (sx_headers env) st h = h" for h using assms(1) by (simp add: apply_alt_svc_def)
  show ?thesis using assms(2) by (cases resp) (simp add: decorate_def h3_decorate_def Let_def alt split: option.splits)
qed



definition mirrored_location :: location_rt where
  "mirrored_location = demo_location\<lparr>lr_limit_conn := None, lr_auth_request := Some [Literal ''http://auth/''],
     lr_mirrors := [[Literal ''http://shadow/'']]\<rparr>"

text \<open>The shadow requests of a refused request differ: over HTTP/1 and 2 a request that the authorisation
  service refuses has been mirrored already, over HTTP/3 it has not.\<close>

theorem h3_mirror_order:
  "map mt_url (hd_spawned (fst (handle demo_server (demo_state mirrored_location) (demo_get ''/a'') demo_client demo_plant))) =
     [''http://shadow/''] \<and>
   fst (snd (snd (h3_dispatch demo_server (demo_state mirrored_location) (demo_get ''/a'') demo_client demo_plant))) = []"
  by code_simp

section \<open>Accounting\<close>

text \<open>An HTTP/3 request that is dispatched and whose answer is sent to the end is counted and logged once; but a
  request refused for the size of its body, and one whose connection fails while the answer is sent, leave
  no trace in the counters and the access log.\<close>

theorem h3_accounting:
  assumes "handle_stream env send cfg chunks req peer sh = (h, sh')"
    and "env_keeps (\<lambda>sh. request_counts (sh_metrics sh)) env"
    and "\<And>r sh. request_counts (sh_metrics (snd (send r sh))) = request_counts (sh_metrics sh)"
  shows "(h3_access h = [] \<and> request_counts (sh_metrics sh') = request_counts (sh_metrics sh)) \<or>
    (\<exists>r. h3_sent h = Some r \<and> h3_access h = [access_line peer req (rs_status r) '' (h3)''] \<and>
       request_counts (sh_metrics sh') = request_counts (record_request (rs_status r) (sh_metrics sh)))"
proof -
  have s: "request_counts (sh_metrics y) = request_counts (sh_metrics x)" if "send r x = (ok, y)" for r x ok y
    using assms(3) that by (metis snd_conv)
  have d: "request_counts (sh_metrics y) = request_counts (sh_metrics x)"
    if "h3_dispatch env st q peer x = (r, tried, spawned, y)" for st q x r tried spawned y
    using that
    by (auto simp: h3_dispatch_def h3_location_def Let_def drop_slot_counts
        split: if_splits prod.splits option.splits sum.splits
        dest!: reqs.gate_limit_req_keeps[OF refl] gate_limit_conn_counts reqs.authorised_action_keeps[OF assms(2) refl])
  show ?thesis using assms(1)
    by (auto simp: handle_stream_def Let_def count_def split: buffered.splits prod.splits if_splits
        dest!: s d intro: request_counts_request)
qed

definition demo_listener :: "string listener_cfg" where
  "demo_listener = \<lparr>lc_addr = demo_client, lc_vhosts = [\<lparr>vh_server_name = None, vh_state = demo_state demo_location\<rparr>],
     lc_tls = None, lc_h3_tls = None, lc_tls_paths = []\<rparr>"

theorem h3_accounting_witness:
  "let r = handle_stream demo_server (\<lambda>r sh. (True, sh)) demo_listener [Data (replicate 101 CHR ''x'')] (demo_get ''/a'') demo_client demo_plant
   in h3_access (fst r) = [] \<and> m_reqs (sh_metrics (snd r)) = 0"
proof -
  let ?r = "handle_stream demo_server (\<lambda>r sh. (True, sh)) demo_listener [Data (replicate 101 CHR ''x'')] (demo_get ''/a'') demo_client demo_plant"
  have "h3_access (fst ?r) = []" "m_reqs (sh_metrics demo_plant) = 0" by code_simp+
  moreover from h3_accounting[OF prod.collapse[symmetric, of ?r] demo_server_keeps] this(1)
  have "request_counts (sh_metrics (snd ?r)) = request_counts (sh_metrics demo_plant)" by simp
  ultimately show ?thesis by (simp add: request_counts_def Let_def)
qed

end
