(* ===== verification/Stream.thy ===== *)
theory Stream
  imports Subrequests
begin

text \<open>
  The relay of TCP connections and UDP datagrams (\<^verbatim>\<open>src/src/stream.rs\<close>) and the active health
  probes (\<^verbatim>\<open>src/src/health.rs\<close>): the tasks that use the peers of a balancer without an HTTP request.

  The sockets are the operating system's and the HTTP client is a library: their operations are arguments
  (\<open>stream_env\<close>, \<open>sub_env\<close>), and return the shared state, as other tasks run while they are awaited.

  Shown here: a relay or a probe leaves on the peer it used exactly one verdict, success or failure, as it
  went, and nothing else; a datagram goes to the upstream as it came and the answer, cut to the size of the
  buffer, goes back to the client; a peer that is marked down is never probed.
\<close>

section \<open>Relays\<close>

datatype udp_reply = Reply string | Recv_error | No_reply

record 'w stream_env =
  st_hash :: "ip_addr \<Rightarrow> u64"
  st_now_ms :: "'w \<Rightarrow> u64"
  st_connect :: "string \<Rightarrow> 'w shared \<Rightarrow> bool \<times> 'w shared"
  st_copy :: "string \<Rightarrow> 'w shared \<Rightarrow> (nat \<times> nat) option \<times> 'w shared"
  st_udp_bind :: "'w shared \<Rightarrow> bool \<times> 'w shared"
  st_udp_connect :: "string \<Rightarrow> 'w shared \<Rightarrow> bool \<times> 'w shared"
  st_udp_send :: "string \<Rightarrow> string \<Rightarrow> 'w shared \<Rightarrow> bool \<times> 'w shared"
  st_udp_recv :: "string \<Rightarrow> duration \<Rightarrow> 'w shared \<Rightarrow> udp_reply \<times> 'w shared"
  st_send_back :: "socket_addr \<Rightarrow> string \<Rightarrow> 'w shared \<Rightarrow> bool \<times> 'w shared"

definition udp_reply_timeout :: duration where
  "udp_reply_timeout = from_secs 5"

definition udp_max_datagram :: nat where
  "udp_max_datagram = 65507"

definition st_pick :: "'w stream_env \<Rightarrow> nat \<Rightarrow> socket_addr \<Rightarrow> 'w shared \<Rightarrow> nat option \<times> balancer" where
  "st_pick env b peer sh = pick_for_addr (st_hash env) (st_now_ms env (sh_world sh)) (sa_ip peer) (get_bal b sh)"

definition st_fail :: "'w stream_env \<Rightarrow> nat \<Rightarrow> nat \<Rightarrow> 'w shared \<Rightarrow> 'w shared" where
  "st_fail env b i sh = upd_peer b i (record_failure (st_now_ms env (sh_world sh))) sh"

text \<open>One TCP connection, between the entering and the dropping of the guard of the peer.\<close>

definition relay_tcp :: "'w stream_env \<Rightarrow> nat \<Rightarrow> nat \<Rightarrow> string \<Rightarrow> 'w shared \<Rightarrow> 'w shared" where
  "relay_tcp env b i upstream_addr sh =
     (case st_connect env upstream_addr sh of
        (False, sh1) \<Rightarrow> st_fail env b i sh1
      | (True, sh1) \<Rightarrow>
          (case st_copy env upstream_addr sh1 of
             (Some (to_upstream, from_upstream), sh2) \<Rightarrow>
               count (record_stream_bytes (of_nat to_upstream) (of_nat from_upstream)) (upd_peer b i record_success sh2)
           | (None, sh2) \<Rightarrow> st_fail env b i sh2))"

definition handle_tcp :: "'w stream_env \<Rightarrow> nat \<Rightarrow> socket_addr \<Rightarrow> 'w shared \<Rightarrow> 'w shared" where
  "handle_tcp env b peer sh =
     (case st_pick env b peer sh of
        (None, bal) \<Rightarrow> set_bal b bal sh
      | (Some i, bal) \<Rightarrow>
          upd_peer b i inflight_drop
            (relay_tcp env b i (p_addr (bal_peers bal ! i)) (upd_peer b i enter (set_bal b bal sh))))"

text \<open>One datagram. The result holds the datagram sent back to the client. Receiving cuts a datagram
  at the size of the buffer.\<close>

definition relay_udp :: "'w stream_env \<Rightarrow> nat \<Rightarrow> nat \<Rightarrow> socket_addr \<Rightarrow> string \<Rightarrow> string \<Rightarrow> 'w shared \<Rightarrow>
    (socket_addr \<times> string) option \<times> 'w shared" where
  "relay_udp env b i client upstream_addr request sh =
     (case st_udp_bind env sh of
        (False, sh1) \<Rightarrow> (None, st_fail env b i sh1)
      | (True, sh1) \<Rightarrow>
     (case st_udp_connect env upstream_addr sh1 of
        (False, sh2) \<Rightarrow> (None, st_fail env b i sh2)
      | (True, sh2) \<Rightarrow>
     (case st_udp_send env upstream_addr request sh2 of
        (False, sh3) \<Rightarrow> (None, st_fail env b i sh3)
      | (True, sh3) \<Rightarrow>
     (case st_udp_recv env upstream_addr udp_reply_timeout (count (record_stream_bytes (of_nat (length request)) 0) sh3) of
        (Reply r, sh4) \<Rightarrow>
          (let reply = take udp_max_datagram r;
               sh5 = count (record_stream_bytes 0 (of_nat (length reply))) (upd_peer b i record_success sh4)
           in (Some (client, reply), snd (st_send_back env client reply sh5)))
      | (Recv_error, sh4) \<Rightarrow> (None, st_fail env b i sh4)
      | (No_reply, sh4) \<Rightarrow> (None, st_fail env b i sh4)))))"

definition handle_udp :: "'w stream_env \<Rightarrow> nat \<Rightarrow> socket_addr \<Rightarrow> string \<Rightarrow> 'w shared \<Rightarrow>
    (socket_addr \<times> string) option \<times> 'w shared" where
  "handle_udp env b client request sh =
     (case st_pick env b client sh of
        (None, bal) \<Rightarrow> (None, set_bal b bal sh)
      | (Some i, bal) \<Rightarrow>
          (let (sent_back, sh') =
                 relay_udp env b i client (p_addr (bal_peers bal ! i)) request (upd_peer b i enter (set_bal b bal sh))
           in (sent_back, upd_peer b i inflight_drop sh')))"

section \<open>Probes\<close>

text \<open>The peers a tick of the loop spawns a probe for; the loop ends when the balancer is gone.\<close>

definition probe_tick :: "nat option \<Rightarrow> 'w shared \<Rightarrow> nat list option" where
  "probe_tick alive sh =
     map_option (\<lambda>b. filter (\<lambda>i. \<not> p_down (bal_peers (get_bal b sh) ! i)) [0..<length (bal_peers (get_bal b sh))]) alive"

definition probe_url :: "peer \<Rightarrow> health_check_cfg \<Rightarrow> string" where
  "probe_url p cfg = ''http://'' @ p_addr p @ hc_uri cfg"

definition probe_once :: "'h header_ops \<Rightarrow> ('h, 'w) sub_env \<Rightarrow> ('w \<Rightarrow> u64) \<Rightarrow> health_check_cfg \<Rightarrow> nat \<Rightarrow> nat \<Rightarrow>
    'w shared \<Rightarrow> 'w shared" where
  "probe_once H env now_ms cfg b i sh =
     (let failed = (\<lambda>sh. upd_peer b i (record_failure (now_ms (sh_world sh))) sh)
      in case sub_parse_uri env (probe_url (bal_peers (get_bal b sh) ! i) cfg) of
           Inl e \<Rightarrow> failed sh
         | Inr uri \<Rightarrow>
             (case sub_send env (subrequest ''GET'' uri (hm_append H (hm_empty H) ''user-agent'' ''elrond-healthcheck''))
                     (hc_timeout cfg) sh of
                (Replied resp, sh') \<Rightarrow>
                  if rs_status resp = hc_expected_status cfg then upd_peer b i record_success sh' else failed sh'
              | (Send_failed, sh') \<Rightarrow> failed sh'
              | (Timed_out, sh') \<Rightarrow> failed sh'))"

section \<open>One verdict\<close>

text \<open>Nobody else touches the balancers while a call is awaited.\<close>

definition st_quiet :: "'w stream_env \<Rightarrow> bool" where
  "st_quiet env \<longleftrightarrow> (\<forall>a r t c sh.
     sh_targets (snd (st_connect env a sh)) = sh_targets sh \<and> sh_targets (snd (st_copy env a sh)) = sh_targets sh \<and>
     sh_targets (snd (st_udp_bind env sh)) = sh_targets sh \<and> sh_targets (snd (st_udp_connect env a sh)) = sh_targets sh \<and>
     sh_targets (snd (st_udp_send env a r sh)) = sh_targets sh \<and> sh_targets (snd (st_udp_recv env a t sh)) = sh_targets sh \<and>
     sh_targets (snd (st_send_back env c r sh)) = sh_targets sh)"

lemma st_quietD:
  assumes "st_quiet env"
  shows "st_connect env a sh = (x, sh') \<Longrightarrow> sh_targets sh' = sh_targets sh"
    and "st_copy env a sh = (y, sh') \<Longrightarrow> sh_targets sh' = sh_targets sh"
    and "st_udp_bind env sh = (x, sh') \<Longrightarrow> sh_targets sh' = sh_targets sh"
    and "st_udp_connect env a sh = (x, sh') \<Longrightarrow> sh_targets sh' = sh_targets sh"
    and "st_udp_send env a r sh = (x, sh') \<Longrightarrow> sh_targets sh' = sh_targets sh"
    and "st_udp_recv env a t sh = (z, sh') \<Longrightarrow> sh_targets sh' = sh_targets sh"
    and "sh_targets (snd (st_send_back env c r sh)) = sh_targets sh"
  using assms[unfolded st_quiet_def, rule_format, of a sh r t c] by auto

definition verdict :: "bool \<Rightarrow> u64 \<Rightarrow> peer \<Rightarrow> peer" where
  "verdict ok t = (if ok then record_success else record_failure t)"

lemma targets_upd_peer: "sh_targets sh = sh_targets sh' \<Longrightarrow> sh_targets (upd_peer b i f sh) = sh_targets (upd_peer b i f sh')"
  by (simp add: upd_peer_def set_bal_def get_bal_def)

lemma targets_count [simp]: "sh_targets (count f sh) = sh_targets sh"
  by (simp add: count_def)

lemma verdict_between: "inflight_drop (verdict ok t (enter p)) = verdict ok t p"
  by (simp add: verdict_def enter_def inflight_drop_def record_success_def record_failure_def Let_def)

lemma upd_peer_round:
  assumes "b < length (ts_heap (sh_targets sh))" and "i < length (bal_peers bal)"
    and "sh_targets sh' = sh_targets (upd_peer b i (verdict ok t) (upd_peer b i enter (set_bal b bal sh)))"
  shows "sh_targets (upd_peer b i inflight_drop sh') = sh_targets (set_bal b (on_peer i (verdict ok t) bal) sh)"
  unfolding targets_upd_peer[OF assms(3)] using assms(1,2)
  by (simp add: upd_peer_def set_bal_def get_bal_def on_peer_def verdict_between)

lemma st_pick_index: "st_pick env b peer sh = (Some i, bal) \<Longrightarrow> i < length (bal_peers bal)"
  using pool_of_props(1)[OF pick_inner_pool] pick_inner_frame
  by (fastforce simp: st_pick_def pick_for_addr_def)

definition tcp_relayed :: "'w stream_env \<Rightarrow> string \<Rightarrow> 'w shared \<Rightarrow> bool" where
  "tcp_relayed env a sh \<longleftrightarrow>
     fst (st_connect env a sh) \<and> fst (st_copy env a (snd (st_connect env a sh))) \<noteq> None"

lemma relay_tcp_verdict:
  assumes "st_quiet env"
  shows "\<exists>t. sh_targets (relay_tcp env b i a sh) = sh_targets (upd_peer b i (verdict (tcp_relayed env a sh) t) sh)"
proof -
  have q: "st_connect env a s = (x, s') \<Longrightarrow> sh_targets s' = sh_targets s"
    "st_copy env a s = (y, s') \<Longrightarrow> sh_targets s' = sh_targets s" for s s' x y
    by (fact st_quietD[OF assms])+
  show ?thesis
    by (auto simp: relay_tcp_def tcp_relayed_def st_fail_def verdict_def split: prod.splits bool.splits option.splits
        dest!: q intro!: targets_upd_peer exI)
qed

lemma relay_udp_verdict:
  assumes "st_quiet env" and "relay_udp env b i client a request sh = (out, sh')"
  shows "\<exists>t. sh_targets sh' = sh_targets (upd_peer b i (verdict (out \<noteq> None) t) sh)"
    and "out = Some (c, d) \<Longrightarrow> c = client \<and>
      (\<exists>s r. fst (st_udp_send env a request s) \<and> d = take udp_max_datagram r \<and>
         fst (st_udp_recv env a udp_reply_timeout
           (count (record_stream_bytes (of_nat (length request)) 0) (snd (st_udp_send env a request s)))) = Reply r)"
proof -
  have q: "st_udp_bind env s = (x, s') \<Longrightarrow> sh_targets s' = sh_targets s"
    "st_udp_connect env a s = (x, s') \<Longrightarrow> sh_targets s' = sh_targets s"
    "st_udp_send env a request s = (x, s') \<Longrightarrow> sh_targets s' = sh_targets s"
    "st_udp_recv env a t s = (y, s') \<Longrightarrow> sh_targets s' = sh_targets s"
    "sh_targets (snd (st_send_back env client z s)) = sh_targets s" for s s' x y t z
    by (fact st_quietD[OF assms(1)])+
  show "\<exists>t. sh_targets sh' = sh_targets (upd_peer b i (verdict (out \<noteq> None) t) sh)"
    using assms(2)
    by (auto simp: relay_udp_def st_fail_def verdict_def Let_def q(5)
        split: prod.splits bool.splits udp_reply.splits dest!: q(1-4) intro!: targets_upd_peer exI)
  show "c = client \<and> (\<exists>s r. fst (st_udp_send env a request s) \<and> d = take udp_max_datagram r \<and>
      fst (st_udp_recv env a udp_reply_timeout
        (count (record_stream_bytes (of_nat (length request)) 0) (snd (st_udp_send env a request s)))) = Reply r)"
    if "out = Some (c, d)"
    using assms(2) that
    by (auto simp: relay_udp_def Let_def split: prod.splits bool.splits udp_reply.splits) (metis fst_conv snd_conv)
qed

text \<open>A relay leaves on the peer it used exactly one verdict, and nothing else changes in the balancers: success
  when the bytes of a connection were copied to the end or the answer to a datagram came, failure
  otherwise. The datagram is sent to the peer unchanged, and what goes back to the client is the
  answer to it, cut at the largest size of a datagram.\<close>

theorem relay_verdicts:
  assumes "st_quiet env" and "b < length (ts_heap (sh_targets sh))" and "st_pick env b peer sh = (Some i, bal)"
    and "a = p_addr (bal_peers bal ! i)" and "handle_udp env b peer request sh = (out, sh')"
  shows "(\<exists>t. sh_targets (handle_tcp env b peer sh) = sh_targets
      (set_bal b (on_peer i (verdict (tcp_relayed env a (upd_peer b i enter (set_bal b bal sh))) t) bal) sh)) \<and>
    (\<exists>t. sh_targets sh' = sh_targets (set_bal b (on_peer i (verdict (out \<noteq> None) t) bal) sh)) \<and>
    (\<forall>c d. out = Some (c, d) \<longrightarrow> c = peer \<and> length d \<le> 65507 \<and>
      (\<exists>s r s'. fst (st_udp_send env a request s) \<and> fst (st_udp_recv env a 5000 s') = Reply r \<and> d = take 65507 r))"
proof -
  let ?s = "upd_peer b i enter (set_bal b bal sh)"
  note i = st_pick_index[OF assms(3)]
  have sz: "udp_max_datagram = 65507" "udp_reply_timeout = 5000" by code_simp+
  obtain t where "sh_targets (relay_tcp env b i a ?s) = sh_targets (upd_peer b i (verdict (tcp_relayed env a ?s) t) ?s)"
    using relay_tcp_verdict[OF assms(1)] by blast
  from upd_peer_round[OF assms(2) i this]
  have tcp: "sh_targets (handle_tcp env b peer sh) = sh_targets (set_bal b (on_peer i (verdict (tcp_relayed env a ?s) t) bal) sh)"
    by (simp add: handle_tcp_def assms(3,4))
  obtain sh1 where r: "relay_udp env b i peer a request ?s = (out, sh1)" "sh' = upd_peer b i inflight_drop sh1"
    using assms(3,5) by (auto simp: handle_udp_def assms(4) split: prod.splits)
  obtain t' where "sh_targets sh1 = sh_targets (upd_peer b i (verdict (out \<noteq> None) t') ?s)"
    using relay_udp_verdict(1)[OF assms(1) r(1)] by blast
  from upd_peer_round[OF assms(2) i this] have udp: "sh_targets sh' = sh_targets (set_bal b (on_peer i (verdict (out \<noteq> None) t') bal) sh)"
    by (simp add: r(2))
  have "\<forall>c d. out = Some (c, d) \<longrightarrow> c = peer \<and> length d \<le> 65507 \<and>
      (\<exists>s r s'. fst (st_udp_send env a request s) \<and> fst (st_udp_recv env a 5000 s') = Reply r \<and> d = take 65507 r)"
    using relay_udp_verdict(2)[OF assms(1) r(1)] unfolding sz by fastforce
  with tcp udp show ?thesis by blast
qed

definition demo_stream :: "unit stream_env" where
  "demo_stream = \<lparr>st_hash = (\<lambda>_. 0), st_now_ms = (\<lambda>_. 7), st_connect = (\<lambda>a sh. (True, sh)), st_copy = (\<lambda>a sh. (Some (3, 4), sh)),
     st_udp_bind = (\<lambda>sh. (True, sh)), st_udp_connect = (\<lambda>a sh. (True, sh)), st_udp_send = (\<lambda>a r sh. (True, sh)),
     st_udp_recv = (\<lambda>a t sh. (Reply ''pong'', sh)), st_send_back = (\<lambda>c r sh. (True, sh))\<rparr>"

definition one_peer :: "unit shared" where
  "one_peer = quiet_shared\<lparr>sh_targets := \<lparr>ts_heap = [direct_balancer ''http'' ''a:9''], ts_ephemeral = []\<rparr>\<rparr>"

theorem relay_verdicts_witness:
  "fst (handle_udp demo_stream 0 \<lparr>sa_ip = V4 [10, 0, 0, 1], sa_port = 5\<rparr> ''ping'' one_peer) =
     Some (\<lparr>sa_ip = V4 [10, 0, 0, 1], sa_port = 5\<rparr>, ''pong'')"
proof -
  let ?p = "\<lparr>sa_ip = V4 [10, 0, 0, 1], sa_port = 5\<rparr>"
  have q: "st_quiet demo_stream" by (simp add: st_quiet_def demo_stream_def)
  have b: "0 < length (ts_heap (sh_targets one_peer))" by code_simp
  have "fst (st_pick demo_stream 0 ?p one_peer) = Some 0" by code_simp
  then obtain bal where pick: "st_pick demo_stream 0 ?p one_peer = (Some 0, bal)" by (metis prod.collapse)
  have o: "fst (handle_udp demo_stream 0 ?p ''ping'' one_peer) \<noteq> None" by code_simp
  then obtain c d where cd: "fst (handle_udp demo_stream 0 ?p ''ping'' one_peer) = Some (c, d)" by fastforce
  from relay_verdicts[OF q b pick refl prod.collapse[symmetric, of "handle_udp demo_stream 0 ?p ''ping'' one_peer"]]
  have "c = ?p" "\<exists>r s'. fst (st_udp_recv demo_stream (p_addr (bal_peers bal ! 0)) 5000 s') = Reply r \<and> d = take 65507 r"
    using cd by blast+
  then show ?thesis using cd by (auto simp: demo_stream_def)
qed

section \<open>Probing\<close>

definition probed_ok :: "'h header_ops \<Rightarrow> ('h, 'w) sub_env \<Rightarrow> health_check_cfg \<Rightarrow> peer \<Rightarrow> 'w shared \<Rightarrow> bool" where
  "probed_ok H env cfg p sh \<longleftrightarrow>
     (\<exists>uri resp. sub_parse_uri env (''http://'' @ p_addr p @ hc_uri cfg) = Inr uri \<and>
        fst (sub_send env (subrequest ''GET'' uri (hm_append H (hm_empty H) ''user-agent'' ''elrond-healthcheck'')) (hc_timeout cfg) sh) =
          Replied resp \<and> rs_status resp = hc_expected_status cfg)"

text \<open>A tick of the health check probes exactly the peers of the balancer that are not marked down, and a
  probe counts as a success of its peer exactly when the peer answers the configured path, within
  the timeout, with the expected status; in every other case it counts as one failure. The loop ends once the
  balancer is gone.\<close>

theorem probe_verdict:
  assumes "\<And>req t sh. sh_targets (snd (sub_send env req t sh)) = sh_targets sh"
  shows "\<exists>t. sh_targets (probe_once H env now_ms cfg b i sh) =
      sh_targets (upd_peer b i (verdict (probed_ok H env cfg (bal_peers (get_bal b sh) ! i) sh) t) sh) \<and>
    probe_tick None sh = None \<and>
    (j \<in> set (the (probe_tick (Some b) sh)) \<longleftrightarrow>
       j < length (bal_peers (get_bal b sh)) \<and> \<not> p_down (bal_peers (get_bal b sh) ! j))"
proof -
  have q: "sub_send env req t s = (x, s') \<Longrightarrow> sh_targets s' = sh_targets s" for req t s x s'
    using assms by (metis snd_conv)
  have "\<exists>t. sh_targets (probe_once H env now_ms cfg b i sh) =
      sh_targets (upd_peer b i (verdict (probed_ok H env cfg (bal_peers (get_bal b sh) ! i) sh) t) sh)"
    by (auto simp: probe_once_def probed_ok_def probe_url_def verdict_def Let_def
        split: sum.splits prod.splits sent.splits dest!: q intro!: targets_upd_peer exI)
  then show ?thesis by (auto simp: probe_tick_def)
qed

theorem probe_verdict_witness:
  "probe_tick None one_peer = None \<and> 0 \<in> set (the (probe_tick (Some 0) one_peer))"
proof -
  have "\<And>req t sh. sh_targets (snd (sub_send demo_sub req t sh)) = sh_targets sh" by (simp add: demo_sub_def)
  from probe_verdict[OF this, of list_headers _ _ 0 0 one_peer 0] show ?thesis
    by (auto simp: one_peer_def quiet_shared_def get_bal_def direct_balancer_def fresh_peer_def)
qed

end
