(* ===== verification/Listener.thy ===== *)
theory Listener
  imports Http3 Stream
begin

text \<open>
  The accept loops: \<^verbatim>\<open>run\<close> of \<^verbatim>\<open>src/src/server.rs\<close>, of \<^verbatim>\<open>src/src/http3.rs\<close> and of \<^verbatim>\<open>src/src/stream.rs\<close>
  (with \<^verbatim>\<open>run_udp\<close>). They share one skeleton, a loop that selects between the next connection and a change of the shutdown
  flag, and differ in what they count, in whether there is a handshake, and in what they wait for at the end.

  A listener is a state machine. Its state holds the values of its channels (the configuration, the TLS acceptor, the
  shutdown flag), the tasks it has spawned and the counters; an event is one step of the loop, of a task, or of the
  supervisor at the other end of the channels. \<open>listen_step\<close> is undefined where the code cannot take the step.

  Shown here: a connection is served with the configuration and the acceptor that were current when it was accepted, whatever is
  pushed later; the gauge of active connections is the number of running tasks; nothing is accepted once the shutdown is
  seen; and which connections the end of the loop waits for.
\<close>

section \<open>State\<close>

datatype loop_kind = Http_loop | Quic_loop | Stream_loop

datatype protocol = Http1 | Http2 | Http_3 | Raw

datatype task_phase = Spawned | Handshaking | Serving protocol

record ('c, 'a) conn_task =
  ct_peer :: socket_addr
  ct_cfg :: 'c
  ct_acceptor :: "'a option"
  ct_phase :: task_phase

datatype loop_phase = Running | Draining | Returned

record ('c, 'a) listener_state =
  ls_kind :: loop_kind
  ls_phase :: loop_phase
  ls_cfg :: 'c
  ls_tls :: "'a option"
  ls_shutdown :: bool
  ls_next :: nat
  ls_tasks :: "(nat \<times> ('c, 'a) conn_task) list"
  ls_metrics :: metrics

definition spawn_listener :: "loop_kind \<Rightarrow> 'c \<Rightarrow> 'a option \<Rightarrow> metrics \<Rightarrow> ('c, 'a) listener_state" where
  "spawn_listener kind cfg tls m =
     \<lparr>ls_kind = kind, ls_phase = Running, ls_cfg = cfg, ls_tls = tls, ls_shutdown = False, ls_next = 0, ls_tasks = [],
      ls_metrics = m\<rparr>"

section \<open>Counting\<close>

definition count_accept :: "loop_kind \<Rightarrow> metrics \<Rightarrow> metrics" where
  "count_accept kind m =
     (case kind of Http_loop \<Rightarrow> record_conn_accepted m | Quic_loop \<Rightarrow> m | Stream_loop \<Rightarrow> record_stream_accepted m)"

text \<open>The start of the task; the QUIC task counts the connection and the handshake before it awaits either.\<close>

definition count_begin :: "loop_kind \<Rightarrow> metrics \<Rightarrow> metrics" where
  "count_begin kind m =
     (case kind of
        Http_loop \<Rightarrow> conn_guard_new m
      | Quic_loop \<Rightarrow> conn_guard_new (record_tls_handshake_success (record_conn_accepted m))
      | Stream_loop \<Rightarrow> stream_guard_new m)"

definition count_handshake :: "loop_kind \<Rightarrow> bool \<Rightarrow> metrics \<Rightarrow> metrics" where
  "count_handshake kind ok m =
     (if ok then (case kind of Http_loop \<Rightarrow> record_tls_handshake_success m | _ \<Rightarrow> m)
      else record_tls_handshake_failure m)"

definition count_end :: "loop_kind \<Rightarrow> metrics \<Rightarrow> metrics" where
  "count_end kind m = (case kind of Stream_loop \<Rightarrow> stream_guard_drop m | _ \<Rightarrow> conn_guard_drop m)"

section \<open>Steps\<close>

datatype ('c, 'a) listen_event =
    Accept_error
  | Accept socket_addr
  | Task_begins nat
  | Handshake nat "string option option"
  | Task_ends nat
  | Push_cfg 'c
  | Push_tls 'a
  | Push_shutdown bool
  | Shutdown_changed
  | Endpoint_closed
  | Return

text \<open>What a task does when it first runs: the plain listener serves at once, the others shake hands.\<close>

definition first_phase :: "loop_kind \<Rightarrow> 'a option \<Rightarrow> task_phase" where
  "first_phase kind acceptor =
     (case kind of
        Http_loop \<Rightarrow> (case acceptor of None \<Rightarrow> Serving Http1 | Some a \<Rightarrow> Handshaking)
      | Quic_loop \<Rightarrow> Handshaking
      | Stream_loop \<Rightarrow> Serving Raw)"

text \<open>The protocol after a handshake, by the protocol the client negotiated.\<close>

definition negotiated :: "loop_kind \<Rightarrow> string option \<Rightarrow> protocol" where
  "negotiated kind alpn =
     (if kind = Quic_loop then Http_3 else if alpn = Some ''h2'' then Http2 else Http1)"

text \<open>What the end of the loop waits for: the graceful shutdown of the HTTP library watches the connections given to it,
  which are the plain ones; the QUIC endpoint closes its connections and waits until they are gone; the stream loop waits for
  nothing.\<close>

definition awaited :: "loop_kind \<Rightarrow> ('c, 'a) conn_task \<Rightarrow> bool" where
  "awaited kind t =
     (case kind of
        Http_loop \<Rightarrow> ct_acceptor t = None
      | Quic_loop \<Rightarrow> (case ct_phase t of Serving _ \<Rightarrow> True | _ \<Rightarrow> False)
      | Stream_loop \<Rightarrow> False)"

fun listen_step :: "('c, 'a) listen_event \<Rightarrow> ('c, 'a) listener_state \<Rightarrow> ('c, 'a) listener_state option" where
  "listen_step Accept_error s = (if ls_phase s = Running then Some s else None)"
| "listen_step (Accept peer) s =
     (if ls_phase s = Running then
        Some (s\<lparr>ls_next := ls_next s + 1,
                ls_tasks := ls_tasks s @ [(ls_next s,
                  \<lparr>ct_peer = peer, ct_cfg = ls_cfg s, ct_acceptor = ls_tls s, ct_phase = Spawned\<rparr>)],
                ls_metrics := count_accept (ls_kind s) (ls_metrics s)\<rparr>)
      else None)"
| "listen_step (Task_begins i) s =
     (case map_of (ls_tasks s) i of
        Some t \<Rightarrow>
          if ct_phase t = Spawned then
            Some (s\<lparr>ls_tasks := AList.update i (t\<lparr>ct_phase := first_phase (ls_kind s) (ct_acceptor t)\<rparr>) (ls_tasks s),
                    ls_metrics := count_begin (ls_kind s) (ls_metrics s)\<rparr>)
          else None
      | None \<Rightarrow> None)"
| "listen_step (Handshake i result) s =
     (case map_of (ls_tasks s) i of
        Some t \<Rightarrow>
          if ct_phase t = Handshaking then
            (case result of
               Some alpn \<Rightarrow>
                 Some (s\<lparr>ls_tasks := AList.update i (t\<lparr>ct_phase := Serving (negotiated (ls_kind s) alpn)\<rparr>) (ls_tasks s),
                         ls_metrics := count_handshake (ls_kind s) True (ls_metrics s)\<rparr>)
             | None \<Rightarrow>
                 Some (s\<lparr>ls_tasks := AList.delete i (ls_tasks s),
                         ls_metrics := count_end (ls_kind s) (count_handshake (ls_kind s) False (ls_metrics s))\<rparr>))
          else None
      | None \<Rightarrow> None)"
| "listen_step (Task_ends i) s =
     (case map_of (ls_tasks s) i of
        Some t \<Rightarrow>
          (case ct_phase t of
             Serving p \<Rightarrow> Some (s\<lparr>ls_tasks := AList.delete i (ls_tasks s), ls_metrics := count_end (ls_kind s) (ls_metrics s)\<rparr>)
           | _ \<Rightarrow> None)
      | None \<Rightarrow> None)"
| "listen_step (Push_cfg c) s = Some (s\<lparr>ls_cfg := c\<rparr>)"
| "listen_step (Push_tls a) s = (case ls_tls s of Some _ \<Rightarrow> Some (s\<lparr>ls_tls := Some a\<rparr>) | None \<Rightarrow> None)"
| "listen_step (Push_shutdown b) s = Some (s\<lparr>ls_shutdown := b\<rparr>)"
| "listen_step Shutdown_changed s =
     (if ls_phase s = Running then Some (if ls_shutdown s then s\<lparr>ls_phase := Draining\<rparr> else s) else None)"
| "listen_step Endpoint_closed s =
     (if ls_phase s = Running \<and> ls_kind s = Quic_loop then Some (s\<lparr>ls_phase := Draining\<rparr>) else None)"
| "listen_step Return s =
     (if ls_phase s = Draining \<and> \<not> list_ex (awaited (ls_kind s)) (map snd (ls_tasks s))
      then Some (s\<lparr>ls_phase := Returned\<rparr>) else None)"

fun listen_run :: "('c, 'a) listen_event list \<Rightarrow> ('c, 'a) listener_state \<Rightarrow> ('c, 'a) listener_state option" where
  "listen_run [] s = Some s"
| "listen_run (e # es) s = Option.bind (listen_step e s) (listen_run es)"

text \<open>The four loops, from their start; the two of the stream listener differ in what they accept, a connection or a
  datagram, and neither has certificates.\<close>

definition run_http :: "'c \<Rightarrow> 'a option \<Rightarrow> metrics \<Rightarrow> ('c, 'a) listen_event list \<Rightarrow> ('c, 'a) listener_state option" where
  "run_http cfg tls m es = listen_run es (spawn_listener Http_loop cfg tls m)"

definition run_quic :: "'c \<Rightarrow> metrics \<Rightarrow> ('c, 'a) listen_event list \<Rightarrow> ('c, 'a) listener_state option" where
  "run_quic cfg m es = listen_run es (spawn_listener Quic_loop cfg None m)"

definition run_tcp :: "'c \<Rightarrow> metrics \<Rightarrow> ('c, 'a) listen_event list \<Rightarrow> ('c, 'a) listener_state option" where
  "run_tcp bal m es = listen_run es (spawn_listener Stream_loop bal None m)"

definition run_udp :: "'c \<Rightarrow> metrics \<Rightarrow> ('c, 'a) listen_event list \<Rightarrow> ('c, 'a) listener_state option" where
  "run_udp bal m es = listen_run es (spawn_listener Stream_loop bal None m)"

text \<open>A request stream on a QUIC connection: its task handles it with the configuration of the connection.\<close>

definition handle_connection :: "('h, 'r, 'x) server_env \<Rightarrow> ('h streamed \<Rightarrow> 'x plant shared \<Rightarrow> bool \<times> 'x plant shared) \<Rightarrow>
    ('r listener_cfg, 'a) conn_task \<Rightarrow> (recv_data list \<times> 'h http_request) option \<Rightarrow> 'x plant shared \<Rightarrow>
    'h h3_handled option \<times> 'x plant shared" where
  "handle_connection env send t resolved sh =
     (case resolved of
        Some (chunks, req) \<Rightarrow> apfst Some (handle_stream env send (ct_cfg t) chunks req (ct_peer t) sh)
      | None \<Rightarrow> (None, sh))"

text \<open>A request on a connection, over HTTP/1 or 2.\<close>

definition conn_request :: "('h, 'r, 'x) server_env \<Rightarrow> ('r listener_cfg, 'a) conn_task \<Rightarrow> 'h http_request \<Rightarrow>
    'x plant shared \<Rightarrow> 'h handled \<times> 'x plant shared" where
  "conn_request env t req sh = handle_listener env (ct_cfg t) req (ct_peer t) sh"

section \<open>Runs\<close>

lemma listen_run_append: "listen_run (es @ es') s = Option.bind (listen_run es s) (listen_run es')"
  by (induction es arbitrary: s) (simp_all split: bind_splits)

lemma listen_run_snoc:
  "listen_run (es @ [e]) s = Some s'' \<longleftrightarrow> (\<exists>s'. listen_run es s = Some s' \<and> listen_step e s' = Some s'')"
  by (auto simp: listen_run_append split: bind_splits)

text \<open>An invariant of the events so far and the state, by induction on the run.\<close>

lemma listen_run_invariant:
  assumes "listen_run es s0 = Some s" and "I [] s0"
    and "\<And>es s e s'. I es s \<Longrightarrow> listen_step e s = Some s' \<Longrightarrow> I (es @ [e]) s'"
  shows "I es s"
  using assms(1)
proof (induction es arbitrary: s rule: rev_induct)
  case Nil
  then show ?case using assms(2) by simp
next
  case (snoc e es)
  then show ?case using assms(3) by (auto simp: listen_run_snoc)
qed

lemma AList_update_in: "(j, u) \<in> set (AList.update i t ts) \<Longrightarrow> (j, u) = (i, t) \<or> (j, u) \<in> set ts"
  by (induction ts) (auto split: if_splits)

lemma AList_delete_in: "(j, u) \<in> set (AList.delete i ts) \<Longrightarrow> (j, u) \<in> set ts"
  by (auto simp: AList.delete_eq)

text \<open>The tasks after a step come from the tasks before, with the same connection, or from an accept.\<close>

lemma listen_step_task:
  assumes "listen_step e s = Some s'" and "(j, u) \<in> set (ls_tasks s')"
  obtains (old) t where "(j, t) \<in> set (ls_tasks s)" "ct_peer u = ct_peer t" "ct_cfg u = ct_cfg t" "ct_acceptor u = ct_acceptor t"
  | (new) "e = Accept (ct_peer u)" "ls_phase s = Running" "ct_cfg u = ls_cfg s" "ct_acceptor u = ls_tls s"
proof -
  note found = old[OF map_of_SomeD]
  show thesis
  proof (cases e)
    case (Accept peer)
    then show thesis using assms old new by (auto split: if_splits)
  next
    case (Task_begins i)
    then show thesis using assms old found by (auto split: option.splits if_splits dest!: AList_update_in)
  next
    case (Handshake i result)
    then show thesis using assms old found
      by (auto split: option.splits if_splits dest!: AList_update_in AList_delete_in)
  next
    case (Task_ends i)
    then show thesis using assms old by (auto split: option.splits task_phase.splits dest!: AList_delete_in)
  qed (use assms old in \<open>auto split: if_splits option.splits\<close>)
qed

section \<open>Snapshots\<close>

definition current_cfg :: "'c \<Rightarrow> ('c, 'a) listen_event list \<Rightarrow> 'c" where
  "current_cfg c es = foldl (\<lambda>c e. case e of Push_cfg d \<Rightarrow> d | _ \<Rightarrow> c) c es"

definition current_tls :: "'a option \<Rightarrow> ('c, 'a) listen_event list \<Rightarrow> 'a option" where
  "current_tls a es = foldl (\<lambda>a e. case e of Push_tls b \<Rightarrow> map_option (\<lambda>_. b) a | _ \<Rightarrow> a) a es"

definition snapshot_inv :: "'c \<Rightarrow> 'a option \<Rightarrow> ('c, 'a) listen_event list \<Rightarrow> ('c, 'a) listener_state \<Rightarrow> bool" where
  "snapshot_inv c a es s \<longleftrightarrow> ls_cfg s = current_cfg c es \<and> ls_tls s = current_tls a es \<and>
     (\<forall>i t. (i, t) \<in> set (ls_tasks s) \<longrightarrow>
        (\<exists>pre post. es = pre @ Accept (ct_peer t) # post \<and> ct_cfg t = current_cfg c pre \<and> ct_acceptor t = current_tls a pre))"

lemma snapshot_step:
  assumes "snapshot_inv c a es s" and "listen_step e s = Some s'"
  shows "snapshot_inv c a (es @ [e]) s'"
proof -
  have chan: "ls_cfg s' = current_cfg c (es @ [e])" "ls_tls s' = current_tls a (es @ [e])"
    using assms by (cases e; auto simp: snapshot_inv_def current_cfg_def current_tls_def
        split: if_splits option.splits task_phase.splits)+
  have "\<exists>pre post. es @ [e] = pre @ Accept (ct_peer u) # post \<and> ct_cfg u = current_cfg c pre \<and> ct_acceptor u = current_tls a pre"
    if "(j, u) \<in> set (ls_tasks s')" for j u
    using assms(2) that
  proof (cases rule: listen_step_task)
    case (old t)
    then obtain pre post where "es = pre @ Accept (ct_peer t) # post" "ct_cfg t = current_cfg c pre" "ct_acceptor t = current_tls a pre"
      using assms(1) unfolding snapshot_inv_def by blast
    then show ?thesis using old by (intro exI[of _ pre] exI[of _ "post @ [e]"]) simp
  next
    case new
    then show ?thesis using assms(1) by (intro exI[of _ es] exI[of _ "[]"]) (simp add: snapshot_inv_def)
  qed
  with chan show ?thesis by (auto simp: snapshot_inv_def)
qed

lemma snapshot_of_run:
  "listen_run es (spawn_listener kind c a m) = Some s \<Longrightarrow> snapshot_inv c a es s"
  by (rule listen_run_invariant)
    (simp_all add: snapshot_step, simp add: snapshot_inv_def spawn_listener_def current_cfg_def current_tls_def)

text \<open>C5: A reload reaches new connections only. After any sequence of steps, every open connection is served with the
  configuration, and was or will be decrypted with the certificates, that were current at the moment it was
  accepted: the last ones pushed before, whatever was pushed since.\<close>

theorem connection_snapshot:
  assumes "listen_run es (spawn_listener kind c a m) = Some s" and "(i, t) \<in> set (ls_tasks s)"
  shows "\<exists>pre post. es = pre @ Accept (ct_peer t) # post \<and> ct_cfg t = current_cfg c pre \<and> ct_acceptor t = current_tls a pre"
  using snapshot_of_run[OF assms(1)] assms(2) by (auto simp: snapshot_inv_def)

definition demo_run :: "(nat, nat) listen_event list" where
  "demo_run = [Accept \<lparr>sa_ip = V4 [10, 0, 0, 1], sa_port = 1\<rparr>, Push_cfg 2, Task_begins 0]"

theorem connection_snapshot_witness:
  "map (ct_cfg \<circ> snd) (ls_tasks (the (listen_run demo_run (spawn_listener Http_loop 1 None initial_metrics)))) = [1]"
proof -
  let ?s = "the (listen_run demo_run (spawn_listener Http_loop 1 None initial_metrics))"
  have r: "listen_run demo_run (spawn_listener Http_loop 1 None initial_metrics) = Some ?s" by code_simp
  have "length (ls_tasks ?s) = 1" by code_simp
  then obtain i t where t: "ls_tasks ?s = [(i, t)]" by (auto simp: length_Suc_conv)
  with connection_snapshot[OF r, of i t] obtain pre post where p: "demo_run = pre @ Accept (ct_peer t) # post" "ct_cfg t = current_cfg 1 pre"
    by auto
  have "pre = []" using p(1) by (cases pre) (auto simp: demo_run_def Cons_eq_append_conv)
  with p(2) t show ?thesis by (simp add: current_cfg_def)
qed

section \<open>Gauges\<close>

definition gauge :: "loop_kind \<Rightarrow> metrics \<Rightarrow> u64" where
  "gauge kind m = (if kind = Stream_loop then m_stream_active m else m_active_conns m)"

definition accept_counter :: "loop_kind \<Rightarrow> metrics \<Rightarrow> u64" where
  "accept_counter kind m = (if kind = Stream_loop then m_stream_accepted m else m_conns_accepted m)"

abbreviation begun :: "(nat \<times> ('c, 'a) conn_task) list \<Rightarrow> (nat \<times> ('c, 'a) conn_task) list" where
  "begun ts \<equiv> filter (\<lambda>(i, t). ct_phase t \<noteq> Spawned) ts"

lemma gauge_counts [simp]:
  "gauge kind (count_accept kind' m) = gauge kind m"
  "gauge kind (count_begin kind m) = gauge kind m + 1"
  "gauge kind (count_handshake kind' ok m) = gauge kind m"
  "gauge kind (count_end kind m) = gauge kind m - 1"
  by (auto simp: gauge_def count_accept_def count_begin_def count_handshake_def count_end_def record_conn_accepted_def
      record_stream_accepted_def record_tls_handshake_success_def record_tls_handshake_failure_def conn_guard_new_def
      conn_guard_drop_def stream_guard_new_def stream_guard_drop_def split: loop_kind.splits)

definition gauge_inv :: "u64 \<Rightarrow> ('c, 'a) listener_state \<Rightarrow> bool" where
  "gauge_inv g s \<longleftrightarrow> distinct (map fst (ls_tasks s)) \<and> (\<forall>i t. (i, t) \<in> set (ls_tasks s) \<longrightarrow> i < ls_next s) \<and>
     gauge (ls_kind s) (ls_metrics s) = g + of_nat (length (begun (ls_tasks s)))"

lemma begun_update:
  assumes "distinct (map fst ts)" and "map_of ts i = Some t" and "ct_phase u \<noteq> Spawned"
  shows "length (begun (AList.update i u ts)) = length (begun ts) + (if ct_phase t = Spawned then 1 else 0)"
  using assms by (induction ts) (auto split: if_splits dest: map_of_SomeD)

lemma begun_delete:
  assumes "distinct (map fst ts)" and "map_of ts i = Some t" and "ct_phase t \<noteq> Spawned"
  shows "length (begun ts) = Suc (length (begun (AList.delete i ts)))"
  using assms
proof (induction ts)
  case (Cons x ts)
  show ?case
  proof (cases "fst x = i")
    case True
    then have "\<forall>y \<in> set ts. i \<noteq> fst y" using Cons.prems(1) by (metis distinct.simps(2) image_eqI list.set_map list.simps(9))
    then have "AList.delete i ts = ts" by (simp add: AList.delete_eq case_prod_unfold filter_id_conv)
    with True Cons.prems show ?thesis by (cases x) auto
  qed (use Cons in \<open>cases x; auto\<close>)
qed simp

lemma gauge_step:
  assumes "gauge_inv g s" and "listen_step e s = Some s'"
  shows "gauge_inv g s'"
proof -
  have wf: "distinct (map fst (ls_tasks s))" and below: "\<And>i t. (i, t) \<in> set (ls_tasks s) \<Longrightarrow> i < ls_next s"
    and g: "gauge (ls_kind s) (ls_metrics s) = g + of_nat (length (begun (ls_tasks s)))"
    using assms(1) by (auto simp: gauge_inv_def)
  show ?thesis
  proof (cases e)
    case (Accept peer)
    have "ls_next s \<notin> fst ` set (ls_tasks s)" using below by fastforce
    then show ?thesis using assms(2) Accept wf below g by (auto simp: gauge_inv_def less_Suc_eq split: if_splits)
  next
    case (Task_begins i)
    then obtain t where t: "map_of (ls_tasks s) i = Some t" "ct_phase t = Spawned"
      and s': "s' = s\<lparr>ls_tasks := AList.update i (t\<lparr>ct_phase := first_phase (ls_kind s) (ct_acceptor t)\<rparr>) (ls_tasks s),
        ls_metrics := count_begin (ls_kind s) (ls_metrics s)\<rparr>"
      using assms(2) by (auto split: option.splits if_splits)
    have "first_phase (ls_kind s) (ct_acceptor t) \<noteq> Spawned" by (auto simp: first_phase_def split: loop_kind.splits option.splits)
    then show ?thesis
      using begun_update[OF wf t(1), of "t\<lparr>ct_phase := first_phase (ls_kind s) (ct_acceptor t)\<rparr>"] t wf below g map_of_SomeD[OF t(1)]
      by (auto simp: s' gauge_inv_def distinct_update dest!: AList_update_in)
  next
    case (Handshake i result)
    then obtain t where t: "map_of (ls_tasks s) i = Some t" "ct_phase t = Handshaking"
      using assms(2) by (auto split: option.splits if_splits)
    show ?thesis
    proof (cases result)
      case None
      then show ?thesis
        using begun_delete[OF wf t(1)] t wf below g assms(2) Handshake
        by (auto simp: gauge_inv_def distinct_delete dest!: AList_delete_in)
    next
      case (Some alpn)
      then show ?thesis
        using begun_update[OF wf t(1), of "t\<lparr>ct_phase := Serving (negotiated (ls_kind s) alpn)\<rparr>"] t wf below g assms(2) Handshake
          map_of_SomeD[OF t(1)]
        by (auto simp: gauge_inv_def distinct_update dest!: AList_update_in)
    qed
  next
    case (Task_ends i)
    then obtain t p where t: "map_of (ls_tasks s) i = Some t" "ct_phase t = Serving p"
      using assms(2) by (auto split: option.splits task_phase.splits)
    then show ?thesis
      using begun_delete[OF wf t(1)] wf below g assms(2) Task_ends
      by (auto simp: gauge_inv_def distinct_delete dest!: AList_delete_in)
  qed (use assms(2) wf below g in \<open>auto simp: gauge_inv_def split: if_splits option.splits\<close>)
qed

text \<open>C21: The gauge of active connections is exact: after any sequence of steps of a listener it has grown
  by the number of its connections whose task has begun and not ended, whether they are in the
  handshake or being served.\<close>

theorem active_gauge_exact:
  assumes "listen_run es (spawn_listener kind c a m) = Some s"
  shows "gauge kind (ls_metrics s) = gauge kind m + of_nat (length (begun (ls_tasks s)))"
proof -
  have "gauge_inv (gauge kind m) s \<and> ls_kind s = kind"
  proof (rule listen_run_invariant[OF assms(1), of "\<lambda>_ s. gauge_inv (gauge kind m) s \<and> ls_kind s = kind"])
    fix s e s'
    assume "gauge_inv (gauge kind m) s \<and> ls_kind s = kind" "listen_step e s = Some s'"
    moreover have "ls_kind s' = ls_kind s" using \<open>listen_step e s = Some s'\<close>
      by (cases e) (auto split: if_splits option.splits task_phase.splits)
    ultimately show "gauge_inv (gauge kind m) s' \<and> ls_kind s' = kind" using gauge_step by blast
  qed (simp add: gauge_inv_def spawn_listener_def)
  then show ?thesis unfolding gauge_inv_def by metis
qed

theorem active_gauge_exact_witness:
  "m_active_conns (ls_metrics (the (listen_run demo_run (spawn_listener Http_loop 1 None initial_metrics)))) = 1"
proof -
  let ?s = "the (listen_run demo_run (spawn_listener Http_loop 1 None initial_metrics))"
  have "listen_run demo_run (spawn_listener Http_loop 1 None initial_metrics) = Some ?s" "length (begun (ls_tasks ?s)) = 1"
    by code_simp+
  from active_gauge_exact[OF this(1)] this(2) show ?thesis by (simp add: gauge_def initial_metrics_def)
qed

section \<open>The end of the loop\<close>

lemma current_tls_None: "current_tls None es = None"
  by (induction es rule: rev_induct) (auto simp: current_tls_def split: listen_event.splits)

definition ended_inv :: "('c, 'a) listener_state \<Rightarrow> bool" where
  "ended_inv s \<longleftrightarrow> ls_kind s = Http_loop \<and>
     (ls_phase s = Returned \<longrightarrow> (\<forall>i t. (i, t) \<in> set (ls_tasks s) \<longrightarrow> ct_acceptor t \<noteq> None))"

lemma ended_step:
  assumes "ended_inv s" and "listen_step e s = Some s'"
  shows "ended_inv s'"
proof -
  have kind: "ls_kind s' = Http_loop" using assms
    by (cases e) (auto simp: ended_inv_def split: if_splits option.splits task_phase.splits)
  have "ct_acceptor u \<noteq> None" if r: "ls_phase s' = Returned" and u: "(j, u) \<in> set (ls_tasks s')" for j u
  proof (cases "e = Return")
    case True
    then show ?thesis using assms u by (fastforce simp: ended_inv_def list_ex_iff awaited_def split: if_splits)
  next
    case False
    then have "ls_phase s = Returned" using assms(2) r
      by (cases e) (auto split: if_splits option.splits task_phase.splits)
    with assms u show ?thesis by (auto simp: ended_inv_def elim!: listen_step_task)
  qed
  with kind show ?thesis by (auto simp: ended_inv_def)
qed

text \<open>A plain HTTP listener drains: when its loop has returned, no connection of it is open, and none can be
  accepted any more. Of a TLS listener only this holds: what is still open was accepted with TLS.\<close>

theorem http_listener_drains:
  assumes "run_http c a m es = Some s" and "ls_phase s = Returned"
  shows "((i, t) \<in> set (ls_tasks s) \<longrightarrow> ct_acceptor t \<noteq> None) \<and> (a = None \<longrightarrow> ls_tasks s = []) \<and> listen_step (Accept peer) s = None"
proof -
  note run = assms(1)[unfolded run_http_def]
  have inv: "ended_inv s"
    by (rule listen_run_invariant[OF run]) (simp_all add: ended_step, simp add: ended_inv_def spawn_listener_def)
  have "ls_tasks s = []" if none: "a = None"
  proof (rule ccontr)
    assume "ls_tasks s \<noteq> []"
    then obtain j u where u: "(j, u) \<in> set (ls_tasks s)" by (cases "ls_tasks s") auto
    from snapshot_of_run[OF run] u have "ct_acceptor u = None"
      by (auto simp: snapshot_inv_def none current_tls_None)
    then show False using inv u assms(2) unfolding ended_inv_def by metis
  qed
  then show ?thesis using inv assms(2) unfolding ended_inv_def by simp
qed

theorem http_listener_drains_witness:
  "ls_tasks (the (run_http 1 None initial_metrics (demo_run @ [Push_shutdown True, Shutdown_changed, Task_ends 0, Return]))) = []"
proof -
  let ?r = "run_http 1 None initial_metrics (demo_run @ [Push_shutdown True, Shutdown_changed, Task_ends 0, Return])"
  have "?r = Some (the ?r)" "ls_phase (the ?r) = Returned" by code_simp+
  from http_listener_drains[OF this] show ?thesis by blast
qed

section \<open>Draining ends\<close>

text \<open>The steps left to a listener that accepts nothing any more: those of its tasks, and its own return.\<close>

fun drain_event :: "('c, 'a) listen_event \<Rightarrow> bool" where
  "drain_event (Task_begins i) = True"
| "drain_event (Handshake i result) = True"
| "drain_event (Task_ends i) = True"
| "drain_event Return = True"
| "drain_event _ = False"

fun phase_weight :: "task_phase \<Rightarrow> nat" where
  "phase_weight Spawned = 3"
| "phase_weight Handshaking = 2"
| "phase_weight (Serving p) = 1"

definition tasks_weight :: "(nat \<times> ('c, 'a) conn_task) list \<Rightarrow> nat" where
  "tasks_weight ts = sum_list (map (phase_weight \<circ> ct_phase \<circ> snd) ts)"

definition drain_measure :: "('c, 'a) listener_state \<Rightarrow> nat" where
  "drain_measure s = tasks_weight (ls_tasks s) + (if ls_phase s = Draining then 1 else 0)"

lemma tasks_weight_update:
  "map_of ts i = Some t \<Longrightarrow> tasks_weight (AList.update i u ts) + phase_weight (ct_phase t) = tasks_weight ts + phase_weight (ct_phase u)"
  by (induction ts) (auto simp: tasks_weight_def split: if_splits)

lemma tasks_weight_delete_le: "tasks_weight (AList.delete i ts) \<le> tasks_weight ts"
  by (induction ts) (auto simp: tasks_weight_def)

lemma tasks_weight_delete:
  "map_of ts i = Some t \<Longrightarrow> tasks_weight (AList.delete i ts) + phase_weight (ct_phase t) \<le> tasks_weight ts"
  using tasks_weight_delete_le by (induction ts) (auto simp: tasks_weight_def split: if_splits)

lemma phase_weight_first: "phase_weight (first_phase kind acceptor) \<le> 2"
  by (simp add: first_phase_def split: loop_kind.splits option.splits)

lemma drain_step:
  assumes "drain_event e" and "listen_step e s = Some s'" and "ls_phase s \<noteq> Running"
  shows "drain_measure s' < drain_measure s \<and> ls_phase s' \<noteq> Running"
proof (cases e)
  case (Task_begins i)
  then obtain t where t: "map_of (ls_tasks s) i = Some t" "ct_phase t = Spawned"
    and s': "s' = s\<lparr>ls_tasks := AList.update i (t\<lparr>ct_phase := first_phase (ls_kind s) (ct_acceptor t)\<rparr>) (ls_tasks s),
        ls_metrics := count_begin (ls_kind s) (ls_metrics s)\<rparr>"
    using assms(2) by (auto split: option.splits if_splits)
  then show ?thesis
    using tasks_weight_update[OF t(1), of "t\<lparr>ct_phase := first_phase (ls_kind s) (ct_acceptor t)\<rparr>"] assms(3)
      phase_weight_first[of "ls_kind s" "ct_acceptor t"]
    by (simp add: drain_measure_def)
next
  case (Handshake i result)
  then obtain t where t: "map_of (ls_tasks s) i = Some t" "ct_phase t = Handshaking"
    using assms(2) by (auto split: option.splits if_splits)
  show ?thesis
  proof (cases result)
    case None
    then show ?thesis using tasks_weight_delete[OF t(1)] t assms Handshake by (auto simp: drain_measure_def)
  next
    case (Some alpn)
    then show ?thesis
      using tasks_weight_update[OF t(1), of "t\<lparr>ct_phase := Serving (negotiated (ls_kind s) alpn)\<rparr>"] t assms Handshake
      by (auto simp: drain_measure_def)
  qed
next
  case (Task_ends i)
  then obtain t p where t: "map_of (ls_tasks s) i = Some t" "ct_phase t = Serving p"
    using assms(2) by (auto split: option.splits task_phase.splits)
  then show ?thesis using tasks_weight_delete[OF t(1)] assms Task_ends by (auto simp: drain_measure_def)
qed (use assms in \<open>auto simp: drain_measure_def split: if_splits\<close>)

text \<open>A draining listener is never stuck: while it must wait for a connection, that connection has a step.\<close>

lemma drain_enabled:
  assumes "ls_phase s = Draining"
  shows "\<exists>e s'. drain_event e \<and> listen_step e s = Some s'"
proof (cases "list_ex (awaited (ls_kind s)) (map snd (ls_tasks s))")
  case False
  then show ?thesis using assms by (intro exI[of _ Return]) simp
next
  case True
  then obtain i t where "(i, t) \<in> set (ls_tasks s)" by (auto simp: list_ex_iff)
  then obtain u where u: "map_of (ls_tasks s) i = Some u" by (metis weak_map_of_SomeI)
  show ?thesis
  proof (cases "ct_phase u")
    case Spawned
    then show ?thesis using u by (intro exI[of _ "Task_begins i"]) simp
  next
    case Handshaking
    then show ?thesis using u by (intro exI[of _ "Handshake i None"]) simp
  next
    case (Serving p)
    then show ?thesis using u by (intro exI[of _ "Task_ends i"]) simp
  qed
qed



text \<open>A TLS listener does not drain: its loop can return while a request is being served over TLS.\<close>

theorem tls_listener_returns_early:
  "map_option (\<lambda>s. (ls_phase s, map (ct_phase \<circ> snd) (ls_tasks s)))
     (run_http (1::nat) (Some (5::nat)) initial_metrics
        [Accept demo_client, Task_begins 0, Handshake 0 (Some (Some ''h2'')), Push_shutdown True, Shutdown_changed, Return]) =
   Some (Returned, [Serving Http2])"
  by code_simp

text \<open>A QUIC connection whose handshake fails is counted as a successful handshake and as a failed one.\<close>

theorem quic_failure_counted_twice:
  "map_option (\<lambda>s. (m_tls_ok (ls_metrics s), m_tls_fail (ls_metrics s)))
     (run_quic (1::nat) initial_metrics [Accept demo_client, Task_begins 0, Handshake 0 None :: (nat, nat) listen_event]) =
   Some (1, 1)"
  by code_simp

end
