(* ===== verification/Supervisor.thy ===== *)
theory Supervisor
  imports Listener "HOL-Library.Sublist"
begin

text \<open>
  The supervisor of a process (\<^verbatim>\<open>src/src/supervisor.rs\<close>): it starts a task per listener, replaces the
  configuration of the running ones on a reload, starts and closes the others, and shuts all of them down.

  A listener is kept as the ends of its channels, that is by the values last sent into them: the configuration, the TLS
  acceptor and the shutdown flag; \<open>hl_cfg_live\<close>, \<open>hl_tls_live\<close> and \<open>sl_live\<close> say that the receiving end of a channel
  is still held by a task. \<open>hl_born\<close> is the generation a listener was started in, which tells its channels from those of an
  earlier listener of the same address. The
  references in a configuration are relative to the run-time state built with it, and the states are
  told apart by their number. Binding a socket is the operating system's, and an argument, as is the order in which a
  hash map is visited.

  Shown here: after a reload exactly the configured addresses are served, as far as they could be bound, each with the
  new configuration, and all others are closed; a configuration that does not load changes nothing; and the HTTP/3
  endpoints are not touched by a reload at all.
\<close>

section \<open>State\<close>

record 'r http_listener =
  hl_addr :: socket_addr
  hl_cfg :: "nat \<times> 'r listener_cfg"
  hl_tls :: "server_config option"
  hl_shutdown :: bool
  hl_cfg_live :: bool
  hl_tls_live :: bool
  hl_born :: nat

record stream_listener =
  sl_addr :: socket_addr
  sl_udp :: bool
  sl_balancer :: "nat \<times> nat"
  sl_shutdown :: bool
  sl_live :: bool

record h3_listener =
  hq_addr :: socket_addr
  hq_born :: nat
  hq_tls :: server_config
  hq_shutdown :: bool

text \<open>\<open>sup_closing\<close> and \<open>sup_closing_stream\<close> hold the listeners that were told to stop and are awaited by tasks of their own.\<close>

record 'r supervisor =
  sup_generation :: nat
  sup_http :: "'r http_listener list"
  sup_stream :: "stream_listener list"
  sup_h3 :: "h3_listener list"
  sup_closing :: "'r http_listener list"
  sup_closing_stream :: "stream_listener list"

record ('h, 'r, 's) sup_env =
  pv_app :: "'s \<Rightarrow> ('h, 'r) app_env"
  pv_fuel :: nat
  pv_bind_tcp :: "socket_addr \<Rightarrow> 's \<Rightarrow> bool \<times> 's"
  pv_bind_udp :: "socket_addr \<Rightarrow> 's \<Rightarrow> bool \<times> 's"
  pv_quic :: "server_config \<Rightarrow> bool"
  pv_order :: "(socket_addr \<times> 'r listener_cfg) list \<Rightarrow> (socket_addr \<times> 'r listener_cfg) list"
  pv_order_stream :: "(socket_addr \<times> nat \<times> bool) list \<Rightarrow> (socket_addr \<times> nat \<times> bool) list"

section \<open>Starting\<close>

definition spawn_http :: "('h, 'r, 's) sup_env \<Rightarrow> nat \<Rightarrow> 'r listener_cfg \<Rightarrow> 's \<Rightarrow> 'r http_listener option \<times> 's" where
  "spawn_http env g cfg s =
     (let (ok, s') = pv_bind_tcp env (lc_addr cfg) s
      in (if ok then Some \<lparr>hl_addr = lc_addr cfg, hl_cfg = (g, cfg), hl_tls = lc_tls cfg,
            hl_shutdown = False, hl_cfg_live = True, hl_tls_live = True, hl_born = g\<rparr>
          else None, s'))"

definition spawn_stream :: "('h, 'r, 's) sup_env \<Rightarrow> nat \<Rightarrow> socket_addr \<times> nat \<times> bool \<Rightarrow> 's \<Rightarrow> stream_listener option \<times> 's" where
  "spawn_stream env g server s =
     (let (addr, b, udp) = server;
          (ok, s') = (if udp then pv_bind_udp env addr s else pv_bind_tcp env addr s)
      in (if ok then Some \<lparr>sl_addr = addr, sl_udp = udp, sl_balancer = (g, b), sl_shutdown = False, sl_live = True\<rparr>
          else None, s'))"

definition spawn_h3 :: "('h, 'r, 's) sup_env \<Rightarrow> nat \<Rightarrow> 'r listener_cfg \<Rightarrow> h3_listener option" where
  "spawn_h3 env g cfg =
     (case lc_h3_tls cfg of
        None \<Rightarrow> None
      | Some tls \<Rightarrow>
          if pv_quic env tls then Some \<lparr>hq_addr = lc_addr cfg, hq_born = g, hq_tls = tls, hq_shutdown = False\<rparr> else None)"

text \<open>All or nothing: the first address that cannot be bound ends the start.\<close>

fun spawn_all :: "('a \<Rightarrow> 's \<Rightarrow> 'l option \<times> 's) \<Rightarrow> 'a list \<Rightarrow> 's \<Rightarrow> 'l list option \<times> 's" where
  "spawn_all f [] s = (Some [], s)"
| "spawn_all f (x # xs) s =
     (case f x s of
        (None, s1) \<Rightarrow> (None, s1)
      | (Some l, s1) \<Rightarrow>
          (case spawn_all f xs s1 of
             (None, s2) \<Rightarrow> (None, s2)
           | (Some ls, s2) \<Rightarrow> (Some (l # ls), s2)))"

definition sup_start :: "('h, 'r, 's) sup_env \<Rightarrow> 'r runtime \<Rightarrow> 's \<Rightarrow> 'r supervisor option \<times> 's" where
  "sup_start env rt s =
     (case spawn_all (spawn_http env 0) (rt_listeners rt) s of
        (None, s1) \<Rightarrow> (None, s1)
      | (Some http, s1) \<Rightarrow>
          (case spawn_all (spawn_stream env 0) (rt_stream_servers rt) s1 of
             (None, s2) \<Rightarrow> (None, s2)
           | (Some streams, s2) \<Rightarrow>
               (Some \<lparr>sup_generation = 0, sup_http = http, sup_stream = streams,
                      sup_h3 = List.map_filter (\<lambda>l. spawn_h3 env 0 (snd (hl_cfg l))) http,
                      sup_closing = [], sup_closing_stream = []\<rparr>, s2)))"

definition listener_count :: "'r supervisor \<Rightarrow> nat" where
  "listener_count sv = length (sup_http sv) + length (sup_stream sv) + length (sup_h3 sv)"

text \<open>The configuration an HTTP/3 endpoint reads: it subscribed to the channel of the listener it was started beside, which
  may be closing.\<close>

definition h3_cfg :: "'r supervisor \<Rightarrow> h3_listener \<Rightarrow> (nat \<times> 'r listener_cfg) option" where
  "h3_cfg sv q =
     map_option hl_cfg (find (\<lambda>l. hl_addr l = hq_addr q \<and> hl_born l = hq_born q) (sup_http sv @ sup_closing sv))"

section \<open>Reloading\<close>

text \<open>A send reaches the channel only while its receiver lives. A new acceptor is pushed when both sides are
  TLS.\<close>

definition push_http :: "nat \<Rightarrow> 'r listener_cfg \<Rightarrow> 'r http_listener \<Rightarrow> 'r http_listener" where
  "push_http g cfg l =
     (let l1 = (case (hl_tls l, lc_tls cfg) of
                  (Some _, Some tls) \<Rightarrow> if hl_tls_live l then l\<lparr>hl_tls := Some tls\<rparr> else l
                | _ \<Rightarrow> l)
      in if hl_cfg_live l then l1\<lparr>hl_cfg := (g, cfg)\<rparr> else l1)"

text \<open>The running listeners against the wanted configurations: those kept, those closed, and what is still wanted.\<close>

fun keep_http :: "nat \<Rightarrow> 'r http_listener list \<Rightarrow> (socket_addr \<times> 'r listener_cfg) list \<Rightarrow>
    'r http_listener list \<times> 'r http_listener list \<times> (socket_addr \<times> 'r listener_cfg) list" where
  "keep_http g [] wanted = ([], [], wanted)"
| "keep_http g (l # ls) wanted =
     (case map_of wanted (hl_addr l) of
        Some cfg \<Rightarrow>
          (let (kept, shut, rest) = keep_http g ls (AList.delete (hl_addr l) wanted)
           in (push_http g cfg l # kept, shut, rest))
      | None \<Rightarrow>
          (let (kept, shut, rest) = keep_http g ls wanted
           in (kept, l\<lparr>hl_shutdown := True\<rparr> # shut, rest)))"

text \<open>Starting what is new; an address that cannot be bound is reported and left out.\<close>

fun spawn_some :: "('a \<Rightarrow> 's \<Rightarrow> 'l option \<times> 's) \<Rightarrow> 'a list \<Rightarrow> 's \<Rightarrow> 'l list \<times> 's" where
  "spawn_some f [] s = ([], s)"
| "spawn_some f (x # xs) s =
     (let (l, s1) = f x s; (ls, s2) = spawn_some f xs s1
      in (case l of Some l \<Rightarrow> (l # ls, s2) | None \<Rightarrow> (ls, s2)))"

definition wanted_http :: "'r listener_cfg list \<Rightarrow> (socket_addr \<times> 'r listener_cfg) list" where
  "wanted_http cfgs = foldl (\<lambda>m c. AList.update (lc_addr c) c m) [] cfgs"

definition reload_http :: "('h, 'r, 's) sup_env \<Rightarrow> nat \<Rightarrow> 'r listener_cfg list \<Rightarrow> 'r supervisor \<Rightarrow> 's \<Rightarrow> 'r supervisor \<times> 's" where
  "reload_http env g new sv s =
     (let (kept, shut, rest) = keep_http g (sup_http sv) (wanted_http new);
          (started, s') = spawn_some (\<lambda>(a, cfg). spawn_http env g cfg) (pv_order env rest) s
      in (sv\<lparr>sup_http := kept @ started, sup_closing := sup_closing sv @ shut\<rparr>, s'))"

definition push_stream :: "nat \<Rightarrow> nat \<times> bool \<Rightarrow> stream_listener \<Rightarrow> stream_listener" where
  "push_stream g new l =
     (if snd new \<noteq> sl_udp l then l
      else if sl_live l then l\<lparr>sl_balancer := (g, fst new)\<rparr> else l)"

fun keep_stream :: "nat \<Rightarrow> stream_listener list \<Rightarrow> (socket_addr \<times> nat \<times> bool) list \<Rightarrow>
    stream_listener list \<times> stream_listener list \<times> (socket_addr \<times> nat \<times> bool) list" where
  "keep_stream g [] wanted = ([], [], wanted)"
| "keep_stream g (l # ls) wanted =
     (case map_of wanted (sl_addr l) of
        Some new \<Rightarrow>
          (let (kept, shut, rest) = keep_stream g ls (AList.delete (sl_addr l) wanted)
           in (push_stream g new l # kept, shut, rest))
      | None \<Rightarrow>
          (let (kept, shut, rest) = keep_stream g ls wanted
           in (kept, l\<lparr>sl_shutdown := True\<rparr> # shut, rest)))"

definition wanted_stream :: "(socket_addr \<times> nat \<times> bool) list \<Rightarrow> (socket_addr \<times> nat \<times> bool) list" where
  "wanted_stream servers = foldl (\<lambda>m (a, v). AList.update a v m) [] servers"

definition reload_stream :: "('h, 'r, 's) sup_env \<Rightarrow> nat \<Rightarrow> (socket_addr \<times> nat \<times> bool) list \<Rightarrow> 'r supervisor \<Rightarrow> 's \<Rightarrow>
    'r supervisor \<times> 's" where
  "reload_stream env g new sv s =
     (let (kept, shut, rest) = keep_stream g (sup_stream sv) (wanted_stream new);
          (started, s') = spawn_some (spawn_stream env g) (pv_order_stream env rest) s
      in (sv\<lparr>sup_stream := kept @ started, sup_closing_stream := sup_closing_stream sv @ shut\<rparr>, s'))"

definition read_config :: "('h, 'r) app_env \<Rightarrow> nat \<Rightarrow> string \<Rightarrow> (load_error + app_error) + 'r runtime" where
  "read_config app fuel path =
     and_then (map_err Inl (load (ae_files app) fuel path)) (\<lambda>cfg. map_err Inr (build_runtime app cfg))"

definition reload :: "('h, 'r, 's) sup_env \<Rightarrow> string \<Rightarrow> 'r supervisor \<Rightarrow> 's \<Rightarrow> 'r supervisor \<times> 's" where
  "reload env path sv s =
     (case read_config (pv_app env s) (pv_fuel env) path of
        Inl e \<Rightarrow> (sv, s)
      | Inr rt \<Rightarrow>
          (let g = sup_generation sv + 1;
               (sv1, s1) = reload_http env g (rt_listeners rt) (sv\<lparr>sup_generation := g\<rparr>) s
           in reload_stream env g (rt_stream_servers rt) sv1 s1))"

section \<open>Shutting down\<close>

definition sup_shutdown :: "'r supervisor \<Rightarrow> 'r supervisor" where
  "sup_shutdown sv =
     sv\<lparr>sup_http := map (\<lambda>l. l\<lparr>hl_shutdown := True\<rparr>) (sup_http sv),
         sup_stream := map (\<lambda>l. l\<lparr>sl_shutdown := True\<rparr>) (sup_stream sv),
         sup_h3 := map (\<lambda>l. l\<lparr>hq_shutdown := True\<rparr>) (sup_h3 sv)\<rparr>"

section \<open>The reconciliation of running and wanted\<close>

text \<open>Both reloads walk their running listeners against a map of what is wanted; the laws of that walk are its equations,
  and its closed form is shown once.\<close>

locale reconcile =
  fixes addr :: "'l \<Rightarrow> 'k" and push :: "'v \<Rightarrow> 'l \<Rightarrow> 'l" and close :: "'l \<Rightarrow> 'l"
    and keep :: "'l list \<Rightarrow> ('k \<times> 'v) list \<Rightarrow> 'l list \<times> 'l list \<times> ('k \<times> 'v) list"
  assumes keep_Nil: "keep [] wanted = ([], [], wanted)"
    and keep_wanted: "map_of wanted (addr l) = Some v \<Longrightarrow> keep (l # ls) wanted =
      (let (kept, shut, rest) = keep ls (AList.delete (addr l) wanted) in (push v l # kept, shut, rest))"
    and keep_unwanted: "map_of wanted (addr l) = None \<Longrightarrow> keep (l # ls) wanted =
      (let (kept, shut, rest) = keep ls wanted in (kept, close l # shut, rest))"
    and push_addr: "addr (push v l) = addr l"
begin

lemma closed_form:
  assumes "distinct (map addr ls)"
  shows "keep ls wanted =
    (map (\<lambda>l. push (the (map_of wanted (addr l))) l) (filter (\<lambda>l. addr l \<in> fst ` set wanted) ls),
     map close (filter (\<lambda>l. addr l \<notin> fst ` set wanted) ls),
     filter (\<lambda>(a, v). a \<notin> addr ` set ls) wanted)"
  using assms
proof (induction ls arbitrary: wanted)
  case Nil
  then show ?case by (simp add: keep_Nil)
next
  case (Cons l ls)
  show ?case
  proof (cases "map_of wanted (addr l)")
    case None
    then have "filter (\<lambda>(a, v). a \<notin> addr ` set ls) wanted = filter (\<lambda>(a, v). a \<notin> addr ` set (l # ls)) wanted"
      by (intro filter_cong refl) (force simp: map_of_eq_None_iff)
    with None Cons show ?thesis by (simp add: keep_unwanted map_of_eq_None_iff)
  next
    case (Some v)
    have other: "addr k \<noteq> addr l" if "k \<in> set ls" for k using that Cons.prems by (metis distinct.simps(2) image_eqI list.simps(9) set_map)
    have "fst ` set (AList.delete (addr l) wanted) = fst ` set wanted - {addr l}" by (metis delete_keys set_map set_removeAll)
    then have "filter (\<lambda>k. addr k \<in> fst ` set (AList.delete (addr l) wanted)) ls = filter (\<lambda>k. addr k \<in> fst ` set wanted) ls"
      "filter (\<lambda>k. addr k \<notin> fst ` set (AList.delete (addr l) wanted)) ls = filter (\<lambda>k. addr k \<notin> fst ` set wanted) ls"
      using other by (auto intro!: filter_cong)
    moreover have "push (the (map_of (AList.delete (addr l) wanted) (addr k))) k = push (the (map_of wanted (addr k))) k"
      if "k \<in> set ls" for k using other[OF that] by (simp add: delete_conv')
    moreover have "filter (\<lambda>(a, v). a \<notin> addr ` set ls) (AList.delete (addr l) wanted) =
        filter (\<lambda>(a, v). a \<notin> addr ` set (l # ls)) wanted"
      by (auto simp: AList.delete_eq intro!: filter_cong)
    moreover have "addr l \<in> fst ` set wanted" using Some by (metis domI dom_map_of_conv_image_fst)
    ultimately show ?thesis using Some Cons by (simp add: keep_wanted)
  qed
qed

lemma kept_addrs:
  assumes "distinct (map addr ls)"
  shows "map addr (fst (keep ls wanted)) = filter (\<lambda>a. a \<in> fst ` set wanted) (map addr ls)"
  by (simp add: closed_form[OF assms] push_addr filter_map comp_def)

end

interpretation http_keep: reconcile hl_addr "push_http g" "\<lambda>l. l\<lparr>hl_shutdown := True\<rparr>" "keep_http g" for g
  by unfold_locales (auto simp: push_http_def Let_def split: option.splits)

interpretation stream_keep: reconcile sl_addr "push_stream g" "\<lambda>l. l\<lparr>sl_shutdown := True\<rparr>" "keep_stream g" for g
  by unfold_locales (auto simp: push_stream_def)

lemma spawn_some_pure:
  assumes "\<And>x s. fst (f x s) = r x"
  shows "fst (spawn_some f xs s) = List.map_filter r xs"
proof (induction xs arbitrary: s)
  case (Cons x xs)
  obtain l s1 where "f x s = (l, s1)" by force
  moreover from this have "l = r x" using assms[of x s] by simp
  ultimately show ?case using Cons[of s1] by (auto simp: map_filter_simps split: option.splits prod.splits)
qed (simp add: map_filter_simps)

lemma spawn_some_subseq:
  assumes "\<And>x s. fst (f x s) = None \<or> fst (f x s) = Some (r x)"
  shows "\<exists>ys. fst (spawn_some f xs s) = map r ys \<and> subseq ys xs"
proof (induction xs arbitrary: s)
  case (Cons x xs)
  obtain l s1 where f: "f x s = (l, s1)" by force
  obtain ys where ys: "fst (spawn_some f xs s1) = map r ys" "subseq ys xs" using Cons by blast
  from assms[of x s] f consider "l = None" | "l = Some (r x)" by auto
  then show ?case
  proof cases
    case 1
    then show ?thesis using f ys by (intro exI[of _ ys]) (simp add: case_prod_unfold list_emb_Cons)
  next
    case 2
    then show ?thesis using f ys by (intro exI[of _ "x # ys"]) (simp add: case_prod_unfold)
  qed
qed simp

text \<open>The map of the wanted configurations: its keys are the configured addresses, each once.\<close>

lemma wanted_http_snoc: "wanted_http (cfgs @ [c]) = AList.update (lc_addr c) c (wanted_http cfgs)"
  by (simp add: wanted_http_def)

lemma wanted_http_laws:
  shows "distinct (map fst (wanted_http cfgs))"
    and "fst ` set (wanted_http cfgs) = lc_addr ` set cfgs"
    and "(a, c) \<in> set (wanted_http cfgs) \<Longrightarrow> lc_addr c = a \<and> c \<in> set cfgs"
proof (induction cfgs arbitrary: a c rule: rev_induct)
  case (snoc c cfgs)
  {
    case 1
    then show ?case using snoc(1) by (simp add: wanted_http_snoc distinct_update)
  next
    case 2
    then show ?case using snoc(2) by (simp add: wanted_http_snoc dom_update)
  next
    case 3
    then show ?case using snoc(3) by (auto simp: wanted_http_snoc dest!: AList_update_in)
  }
qed (simp_all add: wanted_http_def)

lemma wanted_stream_laws:
  shows "distinct (map fst (wanted_stream servers))"
    and "fst ` set (wanted_stream servers) = fst ` set servers"
    and "(a, v) \<in> set (wanted_stream servers) \<Longrightarrow> (a, v) \<in> set servers"
proof (induction servers arbitrary: a v rule: rev_induct)
  case (snoc x servers)
  have eq: "wanted_stream (servers @ [x]) = AList.update (fst x) (snd x) (wanted_stream servers)"
    by (simp add: wanted_stream_def case_prod_unfold)
  {
    case 1
    then show ?case using snoc(1) by (simp add: eq distinct_update)
  next
    case 2
    then show ?case using snoc(2) by (simp add: eq dom_update)
  next
    case 3
    then show ?case using snoc(3)[of a v] AList_update_in[of a v "fst x" "snd x" "wanted_stream servers"] by (auto simp: eq)
  }
qed (simp_all add: wanted_stream_def)

definition fresh_http :: "nat \<Rightarrow> 'r listener_cfg \<Rightarrow> 'r http_listener" where
  "fresh_http g cfg =
     \<lparr>hl_addr = lc_addr cfg, hl_cfg = (g, cfg), hl_tls = lc_tls cfg, hl_shutdown = False, hl_cfg_live = True,
      hl_tls_live = True, hl_born = g\<rparr>"

lemma spawn_http_answer:
  "fst (spawn_http env g cfg s) = (if fst (pv_bind_tcp env (lc_addr cfg) s) then Some (fresh_http g cfg) else None)"
  by (simp add: spawn_http_def fresh_http_def split: prod.splits)

lemma map_filter_guard: "List.map_filter (\<lambda>x. if P x then Some (f x) else None) xs = map f (filter P xs)"
  by (simp add: List.map_filter_def comp_def)

text \<open>What is still wanted after the walk, in whatever order the map gives it.\<close>

lemma wanted_rest:
  assumes "mset ord = mset (filter (\<lambda>(a, c). a \<notin> A) (wanted_http new))"
  shows "distinct (map (lc_addr \<circ> snd) ord)" and "snd ` set ord \<subseteq> set new" and "lc_addr ` snd ` set ord = lc_addr ` set new - A"
proof -
  define rest where "rest = filter (\<lambda>(a, c). a \<notin> A) (wanted_http new)"
  have same: "set ord = set rest" using assms by (metis mset_eq_setD rest_def)
  have key: "lc_addr c = a" "c \<in> set new" if "(a, c) \<in> set ord" for a c
    using that wanted_http_laws(3)[of a c new] by (auto simp: same rest_def)
  have keys: "map (lc_addr \<circ> snd) ord = map fst ord" by (rule map_cong[OF refl]) (use key(1) in force)
  have "mset (map fst ord) = mset (map fst rest)" using assms by (simp add: rest_def)
  moreover have "distinct (map fst rest)" unfolding rest_def using wanted_http_laws(1)[of new] by (auto simp: distinct_map inj_on_def)
  ultimately show "distinct (map (lc_addr \<circ> snd) ord)" unfolding keys using mset_eq_imp_distinct_iff by blast
  show "snd ` set ord \<subseteq> set new" using key(2) by auto
  have "fst ` set rest = lc_addr ` set new - A" by (auto simp: rest_def wanted_http_laws(2)[symmetric] image_iff)
  moreover have "lc_addr ` snd ` set ord = fst ` set ord" using arg_cong[OF keys, of set] by (simp add: image_comp)
  ultimately show "lc_addr ` snd ` set ord = lc_addr ` set new - A" by (simp add: same)
qed

text \<open>A reload of the HTTP listeners in closed form: the listeners kept, those started out of what was still wanted, and those
  closed.\<close>

definition kept_http :: "nat \<Rightarrow> 'r listener_cfg list \<Rightarrow> 'r http_listener list \<Rightarrow> 'r http_listener list" where
  "kept_http g new ls =
     map (\<lambda>l. push_http g (the (map_of (wanted_http new) (hl_addr l))) l) (filter (\<lambda>l. hl_addr l \<in> lc_addr ` set new) ls)"

definition closed_http :: "'r listener_cfg list \<Rightarrow> 'r http_listener list \<Rightarrow> 'r http_listener list" where
  "closed_http new ls = map (\<lambda>l. l\<lparr>hl_shutdown := True\<rparr>) (filter (\<lambda>l. hl_addr l \<notin> lc_addr ` set new) ls)"

lemma reload_http_unfold:
  assumes "distinct (map hl_addr (sup_http sv))"
  shows "fst (reload_http env g new sv s) = sv\<lparr>
       sup_http := kept_http g new (sup_http sv) @ fst (spawn_some (\<lambda>(a, cfg). spawn_http env g cfg)
         (pv_order env (filter (\<lambda>(a, c). a \<notin> hl_addr ` set (sup_http sv)) (wanted_http new))) s),
       sup_closing := sup_closing sv @ closed_http new (sup_http sv)\<rparr>"
  unfolding reload_http_def http_keep.closed_form[OF assms] wanted_http_laws(2) kept_http_def closed_http_def
  by (simp add: case_prod_unfold Let_def)

lemma reload_http_spec:
  assumes "distinct (map hl_addr (sup_http sv))" and "\<And>m. mset (pv_order env m) = mset m"
    and bind: "\<And>a s. fst (pv_bind_tcp env a s) = can_bind a"
  obtains started where
    "fst (reload_http env g new sv s) = sv\<lparr>
       sup_http := kept_http g new (sup_http sv) @ map (fresh_http g) started,
       sup_closing := sup_closing sv @ closed_http new (sup_http sv)\<rparr>"
    and "distinct (map lc_addr started)" and "set started \<subseteq> set new"
    and "lc_addr ` set started = {a \<in> lc_addr ` set new. a \<notin> hl_addr ` set (sup_http sv) \<and> can_bind a}"
proof
  let ?ord = "pv_order env (filter (\<lambda>(a, c). a \<notin> hl_addr ` set (sup_http sv)) (wanted_http new))"
  define started where "started = map snd (filter (\<lambda>(a, c). can_bind (lc_addr c)) ?ord)"
  note rest = wanted_rest[OF assms(2), of "hl_addr ` set (sup_http sv)" new]
  show "distinct (map lc_addr started)" unfolding started_def using rest(1) by (auto simp: distinct_map comp_def inj_on_def)
  show "set started \<subseteq> set new" using rest(2) by (auto simp: started_def)
  have "lc_addr ` set started = {a \<in> lc_addr ` snd ` set ?ord. can_bind a}" unfolding started_def by force
  then show "lc_addr ` set started = {a \<in> lc_addr ` set new. a \<notin> hl_addr ` set (sup_http sv) \<and> can_bind a}"
    unfolding rest(3) by auto
  have "fst (spawn_some (\<lambda>(a, cfg). spawn_http env g cfg) ?ord s) =
      List.map_filter (\<lambda>(a, c). if can_bind (lc_addr c) then Some (fresh_http g c) else None) ?ord"
    by (rule spawn_some_pure) (auto simp: spawn_http_answer bind)
  also have "\<dots> = map (fresh_http g) started"
    using map_filter_guard[of "\<lambda>p. can_bind (lc_addr (snd p))" "\<lambda>p. fresh_http g (snd p)"]
    by (simp add: started_def case_prod_unfold comp_def)
  finally show "fst (reload_http env g new sv s) = sv\<lparr>
       sup_http := kept_http g new (sup_http sv) @ map (fresh_http g) started,
       sup_closing := sup_closing sv @ closed_http new (sup_http sv)\<rparr>"
    by (simp add: reload_http_unfold[OF assms(1)])
qed

text \<open>The same without an assumption about the system's answers.\<close>

lemma reload_http_shape:
  assumes "distinct (map hl_addr (sup_http sv))" and "\<And>m. mset (pv_order env m) = mset m"
  obtains started where
    "fst (reload_http env g new sv s) = sv\<lparr>
       sup_http := kept_http g new (sup_http sv) @ map (fresh_http g) started,
       sup_closing := sup_closing sv @ closed_http new (sup_http sv)\<rparr>"
    and "distinct (map lc_addr started)" and "lc_addr ` set started \<inter> hl_addr ` set (sup_http sv) = {}"
proof -
  let ?ord = "pv_order env (filter (\<lambda>(a, c). a \<notin> hl_addr ` set (sup_http sv)) (wanted_http new))"
  note rest = wanted_rest[OF assms(2), of "hl_addr ` set (sup_http sv)" new]
  obtain ys where ys: "fst (spawn_some (\<lambda>(a, cfg). spawn_http env g cfg) ?ord s) = map (fresh_http g \<circ> snd) ys" "subseq ys ?ord"
  proof -
    have "fst ((case x of (a, cfg) \<Rightarrow> spawn_http env g cfg) s) = None \<or> fst ((case x of (a, cfg) \<Rightarrow> spawn_http env g cfg) s) = Some ((fresh_http g \<circ> snd) x)"
      for x s by (cases x) (simp add: spawn_http_answer)
    then show thesis
      using spawn_some_subseq[of "\<lambda>(a, cfg). spawn_http env g cfg" "fresh_http g \<circ> snd" ?ord s] that by blast
  qed
  then obtain N where N: "ys = nths ?ord N" by (auto simp: subseq_conv_nths)
  show thesis
  proof
    show "fst (reload_http env g new sv s) = sv\<lparr>
       sup_http := kept_http g new (sup_http sv) @ map (fresh_http g) (map snd ys),
       sup_closing := sup_closing sv @ closed_http new (sup_http sv)\<rparr>"
      by (simp add: reload_http_unfold[OF assms(1)] ys(1))
    show "distinct (map lc_addr (map snd ys))"
      using distinct_nthsI[OF rest(1), of N] by (simp add: N nths_map)
    have "lc_addr ` snd ` set ys \<subseteq> lc_addr ` snd ` set ?ord" using set_nths_subset[of ?ord N] by (auto simp: N)
    then show "lc_addr ` set (map snd ys) \<inter> hl_addr ` set (sup_http sv) = {}" unfolding rest(3) by auto
  qed
qed

lemma filter_only:
  assumes "distinct (map f xs)" and "x \<in> set xs"
  shows "filter (\<lambda>y. f y = f x \<and> P y) xs = (if P x then [x] else [])"
  using assms by (induction xs) (auto simp: filter_empty_conv image_iff)

text \<open>The effect of a reload on the HTTP listeners.\<close>

lemma reload_effect:
  assumes "read_config (pv_app env s) (pv_fuel env) path = Inr rt"
    and "distinct (map hl_addr (sup_http sv))"
    and "\<And>m. mset (pv_order env m) = mset m"
    and "\<And>a s. fst (pv_bind_tcp env a s) = can_bind a"
    and "sv' = fst (reload env path sv s)"
  shows "distinct (map hl_addr (sup_http sv')) \<and>
    hl_addr ` set (sup_http sv') =
      {a \<in> lc_addr ` set (rt_listeners rt). a \<in> hl_addr ` set (sup_http sv) \<or> can_bind a} \<and>
    (\<forall>l \<in> set (sup_http sv'). hl_cfg_live l \<longrightarrow>
       (\<exists>cfg \<in> set (rt_listeners rt). lc_addr cfg = hl_addr l \<and> hl_cfg l = (sup_generation sv + 1, cfg))) \<and>
    sup_closing sv' = sup_closing sv @
      map (\<lambda>l. l\<lparr>hl_shutdown := True\<rparr>) (filter (\<lambda>l. hl_addr l \<notin> lc_addr ` set (rt_listeners rt)) (sup_http sv))"
proof -
  let ?g = "sup_generation sv + 1"
  let ?new = "rt_listeners rt"
  obtain started where spec: "fst (reload_http env ?g ?new (sv\<lparr>sup_generation := ?g\<rparr>) s) = sv\<lparr>sup_generation := ?g,
       sup_http := kept_http ?g ?new (sup_http sv) @ map (fresh_http ?g) started,
       sup_closing := sup_closing sv @ closed_http ?new (sup_http sv)\<rparr>"
    and started: "distinct (map lc_addr started)" "set started \<subseteq> set ?new"
      "lc_addr ` set started = {a \<in> lc_addr ` set ?new. a \<notin> hl_addr ` set (sup_http sv) \<and> can_bind a}"
    using reload_http_spec[of "sv\<lparr>sup_generation := ?g\<rparr>" env can_bind ?g ?new s] assms(2-4) by auto
  define kept where "kept = filter (\<lambda>l. hl_addr l \<in> lc_addr ` set ?new) (sup_http sv)"
  have http: "sup_http sv' = map (\<lambda>l. push_http ?g (the (map_of (wanted_http ?new) (hl_addr l))) l) kept @ map (fresh_http ?g) started"
    and closing: "sup_closing sv' = sup_closing sv @ map (\<lambda>l. l\<lparr>hl_shutdown := True\<rparr>) (filter (\<lambda>l. hl_addr l \<notin> lc_addr ` set ?new) (sup_http sv))"
    using spec assms(1)
    by (auto simp: assms(5) reload_def reload_stream_def kept_def kept_http_def closed_http_def Let_def split: prod.splits)
  have addr: "map hl_addr (sup_http sv') = map hl_addr kept @ map lc_addr started"
    by (simp add: http http_keep.push_addr fresh_http_def comp_def)
  have "distinct (map hl_addr (sup_http sv'))"
    using assms(2) started(1,3) unfolding addr by (auto simp: kept_def distinct_map inj_on_def)
  moreover have "hl_addr ` set (sup_http sv') = {a \<in> lc_addr ` set ?new. a \<in> hl_addr ` set (sup_http sv) \<or> can_bind a}"
  proof -
    have "hl_addr ` set (sup_http sv') = hl_addr ` set kept \<union> lc_addr ` set started" using arg_cong[OF addr, of set] by simp
    moreover have "hl_addr ` set kept = hl_addr ` set (sup_http sv) \<inter> lc_addr ` set ?new" by (auto simp: kept_def)
    ultimately show ?thesis unfolding started(3) by blast
  qed
  moreover have "\<exists>cfg \<in> set ?new. lc_addr cfg = hl_addr l \<and> hl_cfg l = (?g, cfg)" if "l \<in> set (sup_http sv')" "hl_cfg_live l" for l
  proof -
    from that(1) consider (old) k where "k \<in> set kept" "l = push_http ?g (the (map_of (wanted_http ?new) (hl_addr k))) k"
      | (new) cfg where "cfg \<in> set started" "l = fresh_http ?g cfg"
      unfolding http by auto
    then show ?thesis
    proof cases
      case old
      then have "hl_addr k \<in> fst ` set (wanted_http ?new)" by (auto simp: kept_def wanted_http_laws(2))
      then obtain c where c: "map_of (wanted_http ?new) (hl_addr k) = Some c" by (metis dom_map_of_conv_image_fst domD)
      from wanted_http_laws(3)[OF map_of_SomeD[OF c]] old(2) c that(2) show ?thesis
        by (auto simp: push_http_def Let_def split: option.splits if_splits)
    next
      case new
      then show ?thesis using started(2) by (auto simp: fresh_http_def)
    qed
  qed
  ultimately show ?thesis using closing by blast
qed


definition demo_http_listener :: "nat \<Rightarrow> server_config option \<Rightarrow> string http_listener" where
  "demo_http_listener port tls =
     fresh_http 0 \<lparr>lc_addr = \<lparr>sa_ip = V4 [0, 0, 0, 0], sa_port = port\<rparr>, lc_vhosts = [], lc_tls = tls, lc_h3_tls = tls, lc_tls_paths = []\<rparr>"

definition demo_tls :: server_config where
  "demo_tls = projr (build_server_config (ae_tls demo_app_env) [\<lparr>ce_server_name = None, ce_cert_path = ''c'', ce_key_path = ''k''\<rparr>] [])"

definition demo_sup_env :: "(header_list, string, nat) sup_env" where
  "demo_sup_env = \<lparr>pv_app = (\<lambda>_. demo_app_env\<lparr>ae_files := \<lparr>canonicalize = Some,
       read_to_string = (\<lambda>p. Some ''http { server { listen 81; location / { return 204; } } server { listen 82; } server { listen 83; } }'')\<rparr>\<rparr>),
     pv_fuel = 2, pv_bind_tcp = (\<lambda>a n. (sa_port a \<noteq> 83, n + 1)), pv_bind_udp = (\<lambda>a n. (True, n + 1)),
     pv_quic = (\<lambda>_. True), pv_order = rev, pv_order_stream = rev\<rparr>"

definition demo_sup :: "string supervisor" where
  "demo_sup = \<lparr>sup_generation = 0, sup_http = [demo_http_listener 80 (Some demo_tls), demo_http_listener 81 (Some demo_tls)], sup_stream = [],
     sup_h3 = [\<lparr>hq_addr = \<lparr>sa_ip = V4 [0, 0, 0, 0], sa_port = 80\<rparr>, hq_born = 0, hq_tls = demo_tls, hq_shutdown = False\<rparr>],
     sup_closing = [], sup_closing_stream = []\<rparr>"

lemma demo_sup_laws:
  "distinct (map hl_addr (sup_http demo_sup))" "mset (pv_order demo_sup_env m) = mset m"
  "fst (pv_bind_tcp demo_sup_env a n) = (sa_port a \<noteq> 83)"
  by (simp_all add: demo_sup_def demo_http_listener_def fresh_http_def demo_sup_env_def)

lemma demo_addrs:
  assumes "map (\<lambda>c. (sa_port (lc_addr c), sa_ip (lc_addr c))) cfgs = [(81, V4 [0, 0, 0, 0]), (82, V4 [0, 0, 0, 0]), (83, V4 [0, 0, 0, 0])]"
  shows "lc_addr ` set cfgs = (\<lambda>n. \<lparr>sa_ip = V4 [0, 0, 0, 0], sa_port = n\<rparr>) ` {81, 82, 83}"
proof -
  have "map lc_addr cfgs = map (\<lambda>(n, ip). \<lparr>sa_ip = ip, sa_port = n\<rparr>) (map (\<lambda>c. (sa_port (lc_addr c), sa_ip (lc_addr c))) cfgs)" by simp
  then have "map lc_addr cfgs = map (\<lambda>n. \<lparr>sa_ip = V4 [0, 0, 0, 0], sa_port = n\<rparr>) [81, 82, 83]" by (simp only: assms) simp
  from arg_cong[OF this, of set] show ?thesis by simp
qed

lemma demo_reads:
  obtains rt where "read_config (pv_app demo_sup_env 0) (pv_fuel demo_sup_env) ''/m'' = Inr rt"
    "lc_addr ` set (rt_listeners rt) = (\<lambda>n. \<lparr>sa_ip = V4 [0, 0, 0, 0], sa_port = n\<rparr>) ` {81, 82, 83}"
    "lc_tls ` set (rt_listeners rt) = {None}"
proof -
  let ?r = "read_config (pv_app demo_sup_env 0) (pv_fuel demo_sup_env) ''/m''"
  have "(case ?r of Inr rt \<Rightarrow> Some (map (\<lambda>c. (sa_port (lc_addr c), sa_ip (lc_addr c))) (rt_listeners rt), map lc_tls (rt_listeners rt)) | Inl _ \<Rightarrow> None) =
      Some ([(81, V4 [0, 0, 0, 0]), (82, V4 [0, 0, 0, 0]), (83, V4 [0, 0, 0, 0])], [None, None, None])" by code_simp
  then obtain rt where r: "?r = Inr rt"
    and addrs: "map (\<lambda>c. (sa_port (lc_addr c), sa_ip (lc_addr c))) (rt_listeners rt) = [(81, V4 [0, 0, 0, 0]), (82, V4 [0, 0, 0, 0]), (83, V4 [0, 0, 0, 0])]"
    and tls: "map lc_tls (rt_listeners rt) = [None, None, None]" by (auto split: sum.splits)
  from arg_cong[OF tls, of set] have "lc_tls ` set (rt_listeners rt) = {None}" by simp
  with that r demo_addrs[OF addrs] show thesis by metis
qed


text \<open>A kept listener after the reload.\<close>

lemma reload_keeps:
  assumes "read_config (pv_app env s) (pv_fuel env) path = Inr rt" and "distinct (map hl_addr (sup_http sv))"
    and "l \<in> set (sup_http sv)" and "hl_addr l \<in> lc_addr ` set (rt_listeners rt)"
  obtains cfg where "cfg \<in> set (rt_listeners rt)" "lc_addr cfg = hl_addr l"
    "push_http (sup_generation sv + 1) cfg l \<in> set (sup_http (fst (reload env path sv s)))"
proof -
  let ?new = "rt_listeners rt"
  have "hl_addr l \<in> fst ` set (wanted_http ?new)" using assms(4) by (simp add: wanted_http_laws(2))
  then obtain c where c: "map_of (wanted_http ?new) (hl_addr l) = Some c" by (metis dom_map_of_conv_image_fst domD)
  have "push_http (sup_generation sv + 1) c l \<in> set (fst (keep_http (sup_generation sv + 1) (sup_http sv) (wanted_http ?new)))"
    using assms(3,4) c unfolding http_keep.closed_form[OF assms(2)] by (force simp: wanted_http_laws(2))
  then have "push_http (sup_generation sv + 1) c l \<in> set (sup_http (fst (reload env path sv s)))"
    using assms(1) by (auto simp: reload_def reload_http_def reload_stream_def Let_def split: prod.splits)
  with that wanted_http_laws(3)[OF map_of_SomeD[OF c]] show thesis by blast
qed

text \<open>A running listener never changes between plain and TLS, but its configuration is replaced all the same: whatever the
  new configuration of the address says about TLS, the task goes on as it was started and serves the new
  virtual hosts, so a server block that has become TLS is served in the clear until the process is restarted.\<close>

theorem reload_tls_toggle:
  assumes "read_config (pv_app env s) (pv_fuel env) path = Inr rt" and "distinct (map hl_addr (sup_http sv))"
    and "l \<in> set (sup_http sv)" and "hl_addr l \<in> lc_addr ` set (rt_listeners rt)" and "hl_cfg_live l"
  shows "\<exists>l' \<in> set (sup_http (fst (reload env path sv s))). \<exists>cfg \<in> set (rt_listeners rt).
    hl_addr l' = hl_addr l \<and> (hl_tls l' = None \<longleftrightarrow> hl_tls l = None) \<and>
    lc_addr cfg = hl_addr l \<and> hl_cfg l' = (sup_generation sv + 1, cfg)"
proof -
  obtain cfg where cfg: "cfg \<in> set (rt_listeners rt)" "lc_addr cfg = hl_addr l"
    and l': "push_http (sup_generation sv + 1) cfg l \<in> set (sup_http (fst (reload env path sv s)))"
    using reload_keeps[OF assms(1-4)] .
  have "hl_tls (push_http (sup_generation sv + 1) cfg l) = None \<longleftrightarrow> hl_tls l = None"
    "hl_cfg (push_http (sup_generation sv + 1) cfg l) = (sup_generation sv + 1, cfg)"
    using assms(5) by (auto simp: push_http_def Let_def split: option.splits)
  then show ?thesis using cfg l' http_keep.push_addr by (intro bexI[OF _ l'] bexI[OF _ cfg(1)]) simp
qed

theorem reload_tls_toggle_witness:
  "\<exists>l' \<in> set (sup_http (fst (reload demo_sup_env ''/m'' demo_sup 0))).
     sa_port (hl_addr l') = 81 \<and> hl_tls l' \<noteq> None \<and> lc_tls (snd (hl_cfg l')) = None"
proof -
  obtain rt where rt: "read_config (pv_app demo_sup_env 0) (pv_fuel demo_sup_env) ''/m'' = Inr rt"
    and a: "lc_addr ` set (rt_listeners rt) = (\<lambda>n. \<lparr>sa_ip = V4 [0, 0, 0, 0], sa_port = n\<rparr>) ` {81, 82, 83}"
    and plain: "lc_tls ` set (rt_listeners rt) = {None}"
    by (rule demo_reads)
  let ?l = "demo_http_listener 81 (Some demo_tls)"
  have l: "?l \<in> set (sup_http demo_sup)" "hl_addr ?l \<in> lc_addr ` set (rt_listeners rt)" "hl_cfg_live ?l" "sa_port (hl_addr ?l) = 81" "hl_tls ?l \<noteq> None"
    unfolding a by (simp_all add: demo_sup_def demo_http_listener_def fresh_http_def)
  from reload_tls_toggle[OF rt demo_sup_laws(1) l(1-3)] obtain l' cfg
    where l': "l' \<in> set (sup_http (fst (reload demo_sup_env ''/m'' demo_sup 0)))" "hl_addr l' = hl_addr ?l" "hl_tls l' \<noteq> None"
      and cfg: "cfg \<in> set (rt_listeners rt)" "snd (hl_cfg l') = cfg"
    using l(5) by auto
  have "lc_tls cfg = None" using plain cfg(1) by (metis image_eqI singletonD)
  with l' cfg(2) l(4) show ?thesis by (intro bexI[OF _ l'(1)]) simp
qed

text \<open>C39: A reload leaves the HTTP/3 endpoints alone. In particular, when the address of an endpoint is no longer
  configured, its listener is closed but the endpoint stays, is not told to stop, and goes on serving
  the configuration that was just removed.\<close>

theorem reload_leaves_h3:
  assumes "read_config (pv_app env s) (pv_fuel env) path = Inr rt" and "distinct (map hl_addr (sup_http sv))"
    and "\<And>m. mset (pv_order env m) = mset m" and "\<And>a s. fst (pv_bind_tcp env a s) = can_bind a"
    and "sv' = fst (reload env path sv s)"
    and "l \<in> set (sup_http sv)" and "hl_addr l = hq_addr q" and "hl_born l = hq_born q"
    and "hq_addr q \<notin> hl_addr ` set (sup_closing sv)" and "hq_addr q \<notin> lc_addr ` set (rt_listeners rt)"
  shows "sup_h3 sv' = sup_h3 sv \<and> hq_addr q \<notin> hl_addr ` set (sup_http sv') \<and> h3_cfg sv' q = Some (hl_cfg l)"
proof -
  have "sup_h3 sv' = sup_h3 sv"
    using assms(1) by (auto simp: assms(5) reload_def reload_http_def reload_stream_def Let_def split: prod.splits)
  moreover have http: "hq_addr q \<notin> hl_addr ` set (sup_http sv')" and closing: "sup_closing sv' = sup_closing sv @
      map (\<lambda>l. l\<lparr>hl_shutdown := True\<rparr>) (filter (\<lambda>l. hl_addr l \<notin> lc_addr ` set (rt_listeners rt)) (sup_http sv))"
    using reload_effect[OF assms(1-5)] assms(10) by auto
  let ?P = "\<lambda>l. hl_addr l = hq_addr q \<and> hl_born l = hq_born q"
  have "find ?P (sup_http sv') = None" unfolding find_None_prop using http by force
  moreover have "find ?P (sup_closing sv') = Some (l\<lparr>hl_shutdown := True\<rparr>)"
  proof -
    have "filter ?P (sup_closing sv) = []" using assms(9) by (force simp: filter_empty_conv)
    moreover have "filter ?P (filter (\<lambda>l. hl_addr l \<notin> lc_addr ` set (rt_listeners rt)) (sup_http sv)) = [l]"
      using filter_only[OF assms(2,6), of "\<lambda>l. hl_addr l \<notin> lc_addr ` set (rt_listeners rt) \<and> hl_born l = hq_born q"] assms(7,8,10)
      by (simp add: conj_left_commute)
    ultimately show ?thesis unfolding closing find_as_hd by (simp add: filter_map comp_def)
  qed
  ultimately show ?thesis using http by (simp add: h3_cfg_def find_append)
qed

theorem reload_leaves_h3_witness:
  "map (\<lambda>q. map_option (sa_port \<circ> lc_addr \<circ> snd) (h3_cfg (fst (reload demo_sup_env ''/m'' demo_sup 0)) q))
     (sup_h3 (fst (reload demo_sup_env ''/m'' demo_sup 0))) = [Some 80]"
proof -
  obtain rt where rt: "read_config (pv_app demo_sup_env 0) (pv_fuel demo_sup_env) ''/m'' = Inr rt"
    and a: "lc_addr ` set (rt_listeners rt) = (\<lambda>n. \<lparr>sa_ip = V4 [0, 0, 0, 0], sa_port = n\<rparr>) ` {81, 82, 83}"
    by (rule demo_reads)
  let ?l = "demo_http_listener 80 (Some demo_tls)"
  obtain q where q: "sup_h3 demo_sup = [q]" "hl_addr ?l = hq_addr q" "hl_born ?l = hq_born q" "sa_port (hq_addr q) = 80"
    by (simp add: demo_sup_def demo_http_listener_def fresh_http_def) (metis h3_listener.select_convs(1,2) socket_addr.select_convs(2))
  have "?l \<in> set (sup_http demo_sup)" "hq_addr q \<notin> hl_addr ` set (sup_closing demo_sup)" "hq_addr q \<notin> lc_addr ` set (rt_listeners rt)"
    using q(4) unfolding a by (auto simp: demo_sup_def)
  from reload_leaves_h3[OF rt demo_sup_laws refl this(1) q(2,3) this(2,3)] q show ?thesis
    by (simp add: demo_http_listener_def fresh_http_def)
qed

text \<open>A stream listener keeps its transport. After a reload, a listener of a configured address takes the new
  balancer when the transport is the same, and goes on as it was when the transport has changed; a listener of any
  other address is told to stop.\<close>

theorem reload_stream_exact:
  assumes "read_config (pv_app env s) (pv_fuel env) path = Inr rt" and "distinct (map sl_addr (sup_stream sv))"
    and "sv' = fst (reload env path sv s)" and "l \<in> set (sup_stream sv)" and "distinct (map fst (rt_stream_servers rt))"
  shows "(case map_of (rt_stream_servers rt) (sl_addr l) of
            None \<Rightarrow> l\<lparr>sl_shutdown := True\<rparr> \<in> set (sup_closing_stream sv')
          | Some (b, udp) \<Rightarrow>
              (if udp = sl_udp l \<and> sl_live l then l\<lparr>sl_balancer := (sup_generation sv + 1, b)\<rparr> else l) \<in> set (sup_stream sv'))"
proof -
  let ?new = "rt_stream_servers rt"
  let ?g = "sup_generation sv + 1"
  have same: "map_of (wanted_stream ?new) a = map_of ?new a" for a
  proof (cases "map_of (wanted_stream ?new) a")
    case None
    then show ?thesis by (metis map_of_eq_None_iff wanted_stream_laws(2))
  next
    case (Some v)
    then show ?thesis using wanted_stream_laws(3)[OF map_of_SomeD[OF Some]] assms(5) by simp
  qed
  have upto: "sup_stream (fst (reload_http env ?g (rt_listeners rt) (sv\<lparr>sup_generation := ?g\<rparr>) s)) = sup_stream sv"
    "sup_closing_stream (fst (reload_http env ?g (rt_listeners rt) (sv\<lparr>sup_generation := ?g\<rparr>) s)) = sup_closing_stream sv"
    by (simp_all add: reload_http_def split: prod.splits)
  let ?k = "keep_stream ?g (sup_stream sv) (wanted_stream ?new)"
  have "set (fst ?k) \<subseteq> set (sup_stream sv')" "set (fst (snd ?k)) \<subseteq> set (sup_closing_stream sv')"
    using assms(1) upto by (auto simp: assms(3) reload_def reload_stream_def Let_def split: prod.splits)
  moreover have "map_of ?new (sl_addr l) = Some v \<Longrightarrow> push_stream ?g v l \<in> set (fst ?k)" for v
    using assms(4) unfolding stream_keep.closed_form[OF assms(2)] same
    by (force simp: wanted_stream_laws(2) image_iff dest: map_of_SomeD)
  moreover have "map_of ?new (sl_addr l) = None \<Longrightarrow> l\<lparr>sl_shutdown := True\<rparr> \<in> set (fst (snd ?k))"
    using assms(4) unfolding stream_keep.closed_form[OF assms(2)] by (auto simp: wanted_stream_laws(2) map_of_eq_None_iff)
  ultimately show ?thesis by (auto simp: push_stream_def split: option.splits if_splits)
qed

definition demo_stream_env :: "(header_list, string, nat) sup_env" where
  "demo_stream_env = demo_sup_env\<lparr>pv_app := (\<lambda>_. demo_app_env\<lparr>ae_files := \<lparr>canonicalize = Some,
       read_to_string = (\<lambda>p. Some ''http { } stream { server { listen 91 udp; proxy_pass 10.0.0.1:9; } }'')\<rparr>\<rparr>)\<rparr>"

lemma demo_stream_reads:
  obtains rt b where "read_config (pv_app demo_stream_env 0) (pv_fuel demo_stream_env) ''/m'' = Inr rt" "rt_listeners rt = []"
    "rt_stream_servers rt = [(\<lparr>sa_ip = V4 [0, 0, 0, 0], sa_port = 91\<rparr>, b, True)]"
proof -
  let ?r = "read_config (pv_app demo_stream_env 0) (pv_fuel demo_stream_env) ''/m''"
  have "(case ?r of Inr rt \<Rightarrow> Some (map lc_addr (rt_listeners rt), map (\<lambda>(a, b, u). (sa_ip a, sa_port a, u)) (rt_stream_servers rt)) | Inl _ \<Rightarrow> None) =
      Some ([], [(V4 [0, 0, 0, 0], 91, True)])" by code_simp
  then obtain rt where rt: "?r = Inr rt" "rt_listeners rt = []"
    and "map (\<lambda>(a, b, u). (sa_ip a, sa_port a, u)) (rt_stream_servers rt) = [(V4 [0, 0, 0, 0], 91, True)]" by (auto split: sum.splits)
  from this(3) obtain b where "rt_stream_servers rt = [(\<lparr>sa_ip = V4 [0, 0, 0, 0], sa_port = 91\<rparr>, b, True)]"
    by (auto simp: map_eq_Cons_conv)
  with that rt show thesis by blast
qed

theorem reload_stream_exact_witness:
  "\<exists>l. sl_addr l = \<lparr>sa_ip = V4 [0, 0, 0, 0], sa_port = 91\<rparr> \<and> \<not> sl_udp l \<and>
     l \<in> set (sup_stream (fst (reload demo_stream_env ''/m'' (demo_sup\<lparr>sup_stream := [l]\<rparr>) 0)))"
proof -
  let ?l = "\<lparr>sl_addr = \<lparr>sa_ip = V4 [0, 0, 0, 0], sa_port = 91\<rparr>, sl_udp = False, sl_balancer = (0, 0), sl_shutdown = False, sl_live = True\<rparr>"
  obtain rt b where r: "read_config (pv_app demo_stream_env 0) (pv_fuel demo_stream_env) ''/m'' = Inr rt"
    and servers: "rt_stream_servers rt = [(\<lparr>sa_ip = V4 [0, 0, 0, 0], sa_port = 91\<rparr>, b, True)]" by (rule demo_stream_reads)
  have "?l \<in> set (sup_stream (fst (reload demo_stream_env ''/m'' (demo_sup\<lparr>sup_stream := [?l]\<rparr>) 0)))"
    using reload_stream_exact[OF r _ refl, of "demo_sup\<lparr>sup_stream := [?l]\<rparr>" ?l] servers by simp
  then show ?thesis by (intro exI[of _ ?l]) simp
qed


definition demo_dns_env :: "(header_list, string, nat) sup_env" where
  "demo_dns_env = demo_sup_env\<lparr>pv_app := (\<lambda>_. demo_app_env\<lparr>ae_files := \<lparr>canonicalize = Some, read_to_string = (\<lambda>p. Some
     ''http { } stream { server { listen 53; proxy_pass 10.0.0.1:9; } server { listen 53 udp; proxy_pass 10.0.0.1:9; } }'')\<rparr>\<rparr>)\<rparr>"

definition demo_stream_listener :: "bool \<Rightarrow> stream_listener" where
  "demo_stream_listener udp =
     \<lparr>sl_addr = \<lparr>sa_ip = V4 [0, 0, 0, 0], sa_port = 53\<rparr>, sl_udp = udp, sl_balancer = (0, 0), sl_shutdown = False, sl_live = True\<rparr>"


section \<open>Properties of the start\<close>

text \<open>Starting with answers that depend on the item only.\<close>

lemma spawn_all_pure:
  assumes "\<And>x s. fst (f x s) = r x"
  shows "fst (spawn_all f xs s) = (if \<forall>x \<in> set xs. r x \<noteq> None then Some (map (the \<circ> r) xs) else None)"
proof (induction xs arbitrary: s)
  case (Cons x xs)
  obtain l s1 where f: "f x s = (l, s1)" by force
  then have "l = r x" using assms[of x s] by simp
  then show ?case using Cons[of s1] f by (auto split: option.splits prod.splits if_splits)
qed simp

definition fresh_stream :: "nat \<Rightarrow> socket_addr \<times> nat \<times> bool \<Rightarrow> stream_listener" where
  "fresh_stream g server =
     \<lparr>sl_addr = fst server, sl_udp = snd (snd server), sl_balancer = (g, fst (snd server)), sl_shutdown = False, sl_live = True\<rparr>"

lemma spawn_stream_answer:
  "fst (spawn_stream env g server s) =
     (if fst ((if snd (snd server) then pv_bind_udp else pv_bind_tcp) env (fst server) s) then Some (fresh_stream g server) else None)"
  by (auto simp: spawn_stream_def fresh_stream_def split: prod.splits)

text \<open>The start is all or nothing: it succeeds exactly when every configured HTTP and stream address can be bound,
  and then there is one listener per configuration, in its order, each with its own configuration. An HTTP/3 endpoint that cannot
  be configured is left out and does not fail the start.\<close>

theorem sup_start_exact:
  assumes "\<And>a s. fst (pv_bind_tcp env a s) = tcp a" and "\<And>a s. fst (pv_bind_udp env a s) = udp a"
  shows "fst (sup_start env rt s) =
    (if (\<forall>cfg \<in> set (rt_listeners rt). tcp (lc_addr cfg)) \<and>
        (\<forall>(a, b, u) \<in> set (rt_stream_servers rt). (if u then udp a else tcp a))
     then Some \<lparr>sup_generation = 0, sup_http = map (fresh_http 0) (rt_listeners rt),
                sup_stream = map (fresh_stream 0) (rt_stream_servers rt),
                sup_h3 = [\<lparr>hq_addr = lc_addr cfg, hq_born = 0, hq_tls = the (lc_h3_tls cfg), hq_shutdown = False\<rparr>.
                  cfg \<leftarrow> rt_listeners rt, lc_h3_tls cfg \<noteq> None \<and> pv_quic env (the (lc_h3_tls cfg))],
                sup_closing = [], sup_closing_stream = []\<rparr>
     else None)"
proof -
  have http: "fst (spawn_all (spawn_http env 0) xs s) = (if \<forall>cfg \<in> set xs. tcp (lc_addr cfg) then Some (map (fresh_http 0) xs) else None)" for xs s
    using spawn_all_pure[of "spawn_http env 0" "\<lambda>cfg. if tcp (lc_addr cfg) then Some (fresh_http 0 cfg) else None" xs s]
    by (auto simp: spawn_http_answer assms)
  have stream: "fst (spawn_all (spawn_stream env 0) xs s) =
      (if \<forall>(a, b, u) \<in> set xs. (if u then udp a else tcp a) then Some (map (fresh_stream 0) xs) else None)" for xs s
    using spawn_all_pure[of "spawn_stream env 0" "\<lambda>x. if (if snd (snd x) then udp (fst x) else tcp (fst x)) then Some (fresh_stream 0 x) else None" xs s]
    by (auto simp: spawn_stream_answer assms case_prod_unfold split: if_splits)
  have h3: "List.map_filter (\<lambda>l. spawn_h3 env 0 (snd (hl_cfg l))) (map (fresh_http 0) xs) =
      [\<lparr>hq_addr = lc_addr cfg, hq_born = 0, hq_tls = the (lc_h3_tls cfg), hq_shutdown = False\<rparr>.
         cfg \<leftarrow> xs, lc_h3_tls cfg \<noteq> None \<and> pv_quic env (the (lc_h3_tls cfg))]" for xs
    by (induction xs) (auto simp: map_filter_simps spawn_h3_def fresh_http_def split: option.splits)
  obtain a1 s1 where r1: "spawn_all (spawn_http env 0) (rt_listeners rt) s = (a1, s1)" by force
  obtain a2 s2 where r2: "spawn_all (spawn_stream env 0) (rt_stream_servers rt) s1 = (a2, s2)" by force
  show ?thesis
    using http[of "rt_listeners rt" s] stream[of "rt_stream_servers rt" s1] h3[of "rt_listeners rt"]
    by (auto simp: sup_start_def r1 r2 split: if_splits)
qed

theorem sup_start_exact_witness:
  "sup_h3 (the (fst (sup_start demo_stream_env (projr (read_config (pv_app demo_stream_env 0) (pv_fuel demo_stream_env) ''/m'')) 0))) = []"
proof -
  let ?rt = "projr (read_config (pv_app demo_stream_env 0) (pv_fuel demo_stream_env) ''/m'')"
  obtain rt b where "?rt = rt" "rt_listeners rt = []" "rt_stream_servers rt = [(\<lparr>sa_ip = V4 [0, 0, 0, 0], sa_port = 91\<rparr>, b, True)]"
    using demo_stream_reads by (metis sum.sel(2))
  moreover have "fst (pv_bind_tcp demo_stream_env a s) = (sa_port a \<noteq> 83)" "fst (pv_bind_udp demo_stream_env a s) = True" for a s
    by (simp_all add: demo_stream_env_def demo_sup_env_def)
  ultimately show ?thesis using sup_start_exact[of demo_stream_env "\<lambda>a. sa_port a \<noteq> 83" "\<lambda>_. True" ?rt 0] by simp
qed

end
