(* ===== verification/Logging.thy ===== *)
theory Logging
  imports Config_Include "HOL-Library.Multiset"
begin

text \<open>
  The access and error logs (\<^verbatim>\<open>src/src/logging.rs\<close>): where a record goes, and how the files are reopened when the operator
  rotates them.

  A file system is a directory of names over numbered files; a file lives on under its number when its name is moved
  away, and an open handle is the number. The handle of a log is a cell that its clones share (the code's
  \<^verbatim>\<open>Arc<Mutex<File>>\<close>), so reopening through the registry redirects the writers.
  The level filter (\<^verbatim>\<open>EnvFilter\<close>) is the library's and an argument. A record is one line, written as a whole.

  Shown here: a record is written to one sink, chosen by its target; whatever is renamed, refused and reopened meanwhile,
  no record is lost or doubled; and after a rotation records go to the new file, or to the old one when the
  new cannot be opened.
\<close>

section \<open>Files\<close>

record log_fs =
  lf_names :: "(string \<times> nat) list"
  lf_files :: "string list list"
  lf_dirs :: "string list"
  lf_denied :: "string list"

definition create_dir_all :: "string \<Rightarrow> log_fs \<Rightarrow> log_fs" where
  "create_dir_all dir fs = (if dir \<in> set (lf_denied fs) then fs else fs\<lparr>lf_dirs := dir # lf_dirs fs\<rparr>)"

definition parent_present :: "string \<Rightarrow> log_fs \<Rightarrow> bool" where
  "parent_present path fs \<longleftrightarrow> (case path_parent path of None \<Rightarrow> True | Some d \<Rightarrow> d = [] \<or> d \<in> set (lf_dirs fs))"

definition open_append :: "string \<Rightarrow> log_fs \<Rightarrow> nat option \<times> log_fs" where
  "open_append path fs =
     (if path \<in> set (lf_denied fs) \<or> \<not> parent_present path fs then (None, fs)
      else case map_of (lf_names fs) path of
             Some i \<Rightarrow> (Some i, fs)
           | None \<Rightarrow> (Some (length (lf_files fs)),
               fs\<lparr>lf_names := (path, length (lf_files fs)) # lf_names fs, lf_files := lf_files fs @ [[]]\<rparr>))"

definition append_line :: "nat \<Rightarrow> string \<Rightarrow> log_fs \<Rightarrow> log_fs" where
  "append_line i line fs = fs\<lparr>lf_files := (lf_files fs)[i := lf_files fs ! i @ [line]]\<rparr>"

text \<open>What an operator does when rotating: move a name.\<close>

definition rename_file :: "string \<Rightarrow> string \<Rightarrow> log_fs \<Rightarrow> log_fs" where
  "rename_file old new fs =
     (case map_of (lf_names fs) old of
        Some i \<Rightarrow> fs\<lparr>lf_names := (new, i) # AList.delete new (AList.delete old (lf_names fs))\<rparr>
      | None \<Rightarrow> fs)"

section \<open>The logs of a process\<close>

record reopen_log =
  rl_path :: string
  rl_file :: nat

datatype sink = Stdout | Stderr | To_file reopen_log

record logging =
  lg_fs :: log_fs
  lg_cells :: "nat list"
  lg_registry :: "reopen_log list"
  lg_access :: sink
  lg_error :: sink
  lg_stdout :: "string list"
  lg_stderr :: "string list"

definition logging_init :: "log_fs \<Rightarrow> logging" where
  "logging_init fs =
     \<lparr>lg_fs = fs, lg_cells = [], lg_registry = [], lg_access = Stdout, lg_error = Stderr, lg_stdout = [], lg_stderr = []\<rparr>"

definition log_new :: "string \<Rightarrow> logging \<Rightarrow> reopen_log option \<times> logging" where
  "log_new path st =
     (let fs = (case path_parent path of
                  Some dir \<Rightarrow> if dir \<noteq> [] then create_dir_all dir (lg_fs st) else lg_fs st
                | None \<Rightarrow> lg_fs st);
          (file, fs') = open_append path fs
      in case file of
           Some i \<Rightarrow> (Some \<lparr>rl_path = path, rl_file = length (lg_cells st)\<rparr>, st\<lparr>lg_fs := fs', lg_cells := lg_cells st @ [i]\<rparr>)
         | None \<Rightarrow> (None, st\<lparr>lg_fs := fs'\<rparr>))"

definition log_reopen :: "reopen_log \<Rightarrow> logging \<Rightarrow> bool \<times> logging" where
  "log_reopen l st =
     (let (file, fs') = open_append (rl_path l) (lg_fs st)
      in case file of
           Some i \<Rightarrow> (True, st\<lparr>lg_fs := fs', lg_cells := (lg_cells st)[rl_file l := i]\<rparr>)
         | None \<Rightarrow> (False, st\<lparr>lg_fs := fs'\<rparr>))"

definition register :: "reopen_log \<Rightarrow> logging \<Rightarrow> logging" where
  "register l st = st\<lparr>lg_registry := lg_registry st @ [l]\<rparr>"

definition reopen_failed :: "reopen_log \<Rightarrow> string" where
  "reopen_failed l = ''elrond: failed to reopen log '' @ rl_path l"

definition reopen_one :: "logging \<Rightarrow> reopen_log \<Rightarrow> logging" where
  "reopen_one st l =
     (let (ok, st') = log_reopen l st
      in if ok then st' else st'\<lparr>lg_stderr := lg_stderr st' @ [reopen_failed l]\<rparr>)"

definition reopen_all :: "logging \<Rightarrow> logging" where
  "reopen_all st = foldl reopen_one st (lg_registry st)"

section \<open>Installation and records\<close>

definition install_writer :: "string option \<Rightarrow> sink \<Rightarrow> logging \<Rightarrow> sink option \<times> logging" where
  "install_writer path dflt st =
     (case path of
        Some p \<Rightarrow>
          (case log_new p st of
             (Some l, st') \<Rightarrow> (Some (To_file l), register l st')
           | (None, st') \<Rightarrow> (None, st'))
      | None \<Rightarrow> (Some dflt, st))"

definition install :: "string option \<Rightarrow> string option \<Rightarrow> logging \<Rightarrow> bool \<times> logging" where
  "install access_log error_log st =
     (case install_writer access_log Stdout st of
        (None, st1) \<Rightarrow> (False, st1)
      | (Some access, st1) \<Rightarrow>
          (case install_writer error_log Stderr st1 of
             (None, st2) \<Rightarrow> (False, st2)
           | (Some err, st2) \<Rightarrow> (True, st2\<lparr>lg_access := access, lg_error := err\<rparr>)))"

definition write_sink :: "sink \<Rightarrow> string \<Rightarrow> logging \<Rightarrow> logging" where
  "write_sink k line st =
     (case k of
        Stdout \<Rightarrow> st\<lparr>lg_stdout := lg_stdout st @ [line]\<rparr>
      | Stderr \<Rightarrow> st\<lparr>lg_stderr := lg_stderr st @ [line]\<rparr>
      | To_file l \<Rightarrow> st\<lparr>lg_fs := append_line (lg_cells st ! rl_file l) line (lg_fs st)\<rparr>)"

text \<open>A record reaches the layer whose filter admits its target.\<close>

definition log_record :: "(string \<Rightarrow> string \<Rightarrow> bool) \<Rightarrow> string \<Rightarrow> string \<Rightarrow> logging \<Rightarrow> logging" where
  "log_record enabled target line st =
     (if \<not> enabled target line then st
      else (let st1 = (if target = ''access'' then write_sink (lg_access st) line st else st)
            in if target \<noteq> ''access'' then write_sink (lg_error st1) line st1 else st1))"

text \<open>The life of the logs: records, the signal, and the outside.\<close>

datatype log_event =
    Record_line string string
  | Usr1
  | Rename string string
  | Deny string
  | Allow string

fun log_step :: "(string \<Rightarrow> string \<Rightarrow> bool) \<Rightarrow> logging \<Rightarrow> log_event \<Rightarrow> logging" where
  "log_step enabled st (Record_line target line) = log_record enabled target line st"
| "log_step enabled st Usr1 = reopen_all st"
| "log_step enabled st (Rename old new) = st\<lparr>lg_fs := rename_file old new (lg_fs st)\<rparr>"
| "log_step enabled st (Deny path) = st\<lparr>lg_fs := (lg_fs st)\<lparr>lf_denied := path # lf_denied (lg_fs st)\<rparr>\<rparr>"
| "log_step enabled st (Allow path) = st\<lparr>lg_fs := (lg_fs st)\<lparr>lf_denied := filter (\<lambda>p. p \<noteq> path) (lf_denied (lg_fs st))\<rparr>\<rparr>"

definition log_run :: "(string \<Rightarrow> string \<Rightarrow> bool) \<Rightarrow> log_event list \<Rightarrow> logging \<Rightarrow> logging" where
  "log_run enabled es st = foldl (log_step enabled) st es"

section \<open>Handles stay valid\<close>

text \<open>Every name and every held handle is a file, and every registered log and file sink has a cell.\<close>

definition wf_sink :: "logging \<Rightarrow> sink \<Rightarrow> bool" where
  "wf_sink st k \<longleftrightarrow> (case k of To_file l \<Rightarrow> rl_file l < length (lg_cells st) | _ \<Rightarrow> True)"

definition wf_fs :: "log_fs \<Rightarrow> bool" where
  "wf_fs fs \<longleftrightarrow> (\<forall>(p, i) \<in> set (lf_names fs). i < length (lf_files fs))"

definition wf_logging :: "logging \<Rightarrow> bool" where
  "wf_logging st \<longleftrightarrow> wf_fs (lg_fs st) \<and> (\<forall>i \<in> set (lg_cells st). i < length (lf_files (lg_fs st))) \<and>
     (\<forall>l \<in> set (lg_registry st). rl_file l < length (lg_cells st)) \<and> wf_sink st (lg_access st) \<and> wf_sink st (lg_error st)"

definition all_lines :: "logging \<Rightarrow> string multiset" where
  "all_lines st = sum_list (map mset (lf_files (lg_fs st))) + mset (lg_stdout st) + mset (lg_stderr st)"

lemma sum_list_mset_update:
  "i < length xs \<Longrightarrow> sum_list (map mset (xs[i := xs ! i @ [y]])) = add_mset y (sum_list (map mset xs))"
  by (induction xs arbitrary: i) (auto split: nat.splits)

lemma open_append_wf:
  assumes "wf_fs fs" and "open_append path fs = (r, fs')"
  shows "wf_fs fs' \<and> length (lf_files fs) \<le> length (lf_files fs') \<and> (\<forall>i. r = Some i \<longrightarrow> i < length (lf_files fs'))"
  using assms by (fastforce simp: open_append_def wf_fs_def split: if_splits option.splits dest: map_of_SomeD)

lemma open_append_lines:
  "open_append path fs = (r, fs') \<Longrightarrow> sum_list (map mset (lf_files fs')) = sum_list (map mset (lf_files fs))"
  by (auto simp: open_append_def split: if_splits option.splits)

lemma reopen_one_keeps:
  assumes "wf_logging st" and "l \<in> set (lg_registry st)"
  shows "wf_logging (reopen_one st l) \<and> lg_registry (reopen_one st l) = lg_registry st \<and>
    (\<exists>msgs. set msgs \<subseteq> range reopen_failed \<and> all_lines (reopen_one st l) = all_lines st + mset msgs)"
proof -
  obtain r fs' where o: "open_append (rl_path l) (lg_fs st) = (r, fs')" by force
  have w: "wf_fs fs'" "length (lf_files (lg_fs st)) \<le> length (lf_files fs')" "\<And>i. r = Some i \<Longrightarrow> i < length (lf_files fs')"
    using open_append_wf[OF _ o] assms(1) by (auto simp: wf_logging_def)
  note lines = open_append_lines[OF o]
  show ?thesis
  proof (cases r)
    case None
    then have st': "reopen_one st l = st\<lparr>lg_fs := fs', lg_stderr := lg_stderr st @ [reopen_failed l]\<rparr>"
      by (simp add: reopen_one_def log_reopen_def o)
    have "wf_logging (reopen_one st l)" using assms(1) w unfolding st' by (fastforce simp: wf_logging_def wf_sink_def split: sink.splits)
    moreover have "all_lines (reopen_one st l) = all_lines st + mset [reopen_failed l]" using lines unfolding st' by (simp add: all_lines_def)
    ultimately show ?thesis by (intro conjI exI[of _ "[reopen_failed l]"]) (auto simp: st')
  next
    case (Some i)
    then have st': "reopen_one st l = st\<lparr>lg_fs := fs', lg_cells := (lg_cells st)[rl_file l := i]\<rparr>"
      by (simp add: reopen_one_def log_reopen_def o)
    have "j < length (lf_files fs')" if "j \<in> set ((lg_cells st)[rl_file l := i])" for j
      using that set_update_subset_insert[of "lg_cells st" "rl_file l" i] w(2) w(3)[OF Some] assms(1)
      by (fastforce simp: wf_logging_def)
    then have "wf_logging (reopen_one st l)" using assms(1) w(1) unfolding st' by (auto simp: wf_logging_def wf_sink_def split: sink.splits)
    moreover have "all_lines (reopen_one st l) = all_lines st + mset []" using lines unfolding st' by (simp add: all_lines_def)
    ultimately show ?thesis by (intro conjI exI[of _ "[]"]) (auto simp: st')
  qed
qed

lemma reopen_fold_keeps:
  assumes "wf_logging st" and "set ls \<subseteq> set (lg_registry st)"
  shows "wf_logging (foldl reopen_one st ls) \<and>
    (\<exists>msgs. set msgs \<subseteq> range reopen_failed \<and> all_lines (foldl reopen_one st ls) = all_lines st + mset msgs)"
  using assms
proof (induction ls arbitrary: st)
  case Nil
  then show ?case by (auto intro: exI[of _ "[]"])
next
  case (Cons l ls)
  then obtain msgs where m: "set msgs \<subseteq> range reopen_failed" "all_lines (reopen_one st l) = all_lines st + mset msgs"
    and keep: "wf_logging (reopen_one st l)" "lg_registry (reopen_one st l) = lg_registry st"
    using reopen_one_keeps[of st l] by auto
  with Cons.IH[of "reopen_one st l"] Cons.prems(2) obtain msgs' where "set msgs' \<subseteq> range reopen_failed"
    "wf_logging (foldl reopen_one (reopen_one st l) ls)"
    "all_lines (foldl reopen_one (reopen_one st l) ls) = all_lines (reopen_one st l) + mset msgs'" by auto
  then show ?case using m by (intro conjI exI[of _ "msgs @ msgs'"]) simp_all
qed

lemma write_sink_keeps:
  assumes "wf_logging st" and "wf_sink st k"
  shows "wf_logging (write_sink k line st) \<and> all_lines (write_sink k line st) = add_mset line (all_lines st)"
proof (cases k)
  case (To_file l)
  then have "lg_cells st ! rl_file l < length (lf_files (lg_fs st))" using assms by (simp add: wf_logging_def wf_sink_def)
  from sum_list_mset_update[OF this] assms show ?thesis
    by (auto simp: To_file write_sink_def append_line_def wf_logging_def wf_fs_def wf_sink_def all_lines_def split: sink.splits)
qed (use assms in \<open>auto simp: write_sink_def wf_logging_def wf_sink_def all_lines_def split: sink.splits\<close>)

fun admitted_lines :: "(string \<Rightarrow> string \<Rightarrow> bool) \<Rightarrow> log_event \<Rightarrow> string list" where
  "admitted_lines enabled (Record_line target line) = (if enabled target line then [line] else [])"
| "admitted_lines enabled _ = []"

lemma rename_wf: "wf_fs fs \<Longrightarrow> wf_fs (rename_file old new fs) \<and> lf_files (rename_file old new fs) = lf_files fs"
  by (fastforce simp: rename_file_def wf_fs_def AList.delete_eq split: option.splits dest: map_of_SomeD)

lemma log_step_keeps:
  assumes "wf_logging st"
  shows "wf_logging (log_step enabled st e) \<and>
    (\<exists>msgs. set msgs \<subseteq> range reopen_failed \<and> all_lines (log_step enabled st e) = all_lines st + mset msgs + mset (admitted_lines enabled e))"
proof (cases e)
  case (Record_line target line)
  have "wf_sink st (lg_access st)" "wf_sink st (lg_error st)" using assms by (auto simp: wf_logging_def)
  with assms write_sink_keeps[OF assms] show ?thesis
    by (auto simp: Record_line log_record_def intro!: exI[of _ "[]"])
next
  case Usr1
  then show ?thesis using reopen_fold_keeps[OF assms, of "lg_registry st"] by (simp add: reopen_all_def)
next
  case (Rename old new)
  then show ?thesis using assms rename_wf[of "lg_fs st" old new]
    by (auto simp: wf_logging_def wf_sink_def all_lines_def split: sink.splits intro!: exI[of _ "[]"])
qed (use assms in \<open>auto simp: wf_logging_def wf_fs_def wf_sink_def all_lines_def split: sink.splits intro!: exI[of _ "[]"]\<close>)


definition demo_log_fs :: log_fs where
  "demo_log_fs = \<lparr>lf_names = [], lf_files = [], lf_dirs = [], lf_denied = []\<rparr>"

definition demo_logging :: logging where
  "demo_logging = snd (install (Some ''/v/a'') None (logging_init demo_log_fs))"

definition demo_rotation :: "log_event list" where
  "demo_rotation = [Record_line ''access'' ''1'', Rename ''/v/a'' ''/v/b'', Record_line ''access'' ''2'', Deny ''/v/a'', Usr1,
     Record_line ''access'' ''3'', Allow ''/v/a'', Usr1, Record_line ''access'' ''4'', Record_line ''x'' ''5'']"


section \<open>Rotation\<close>

definition openable :: "string \<Rightarrow> log_fs \<Rightarrow> bool" where
  "openable path fs \<longleftrightarrow> path \<notin> set (lf_denied fs) \<and> parent_present path fs"

text \<open>What reopening one log does to names and cells: names are only added, for new files.\<close>

lemma reopen_one_effect:
  fixes st :: logging and l :: reopen_log
  defines "st' \<equiv> reopen_one st l"
  shows "map_of (lf_names (lg_fs st)) p = Some j \<Longrightarrow> map_of (lf_names (lg_fs st')) p = Some j"
    and "map_of (lf_names (lg_fs st')) p = Some j \<Longrightarrow> map_of (lf_names (lg_fs st)) p = Some j \<or> length (lf_files (lg_fs st)) \<le> j"
    and "openable p (lg_fs st') = openable p (lg_fs st)"
    and "c \<noteq> rl_file l \<Longrightarrow> lg_cells st' ! c = lg_cells st ! c"
    and "length (lg_cells st') = length (lg_cells st)" and "length (lf_files (lg_fs st)) \<le> length (lf_files (lg_fs st'))"
    and "openable (rl_path l) (lg_fs st) \<Longrightarrow> rl_file l < length (lg_cells st) \<Longrightarrow>
      map_of (lf_names (lg_fs st')) (rl_path l) = Some (lg_cells st' ! rl_file l)"
    and "\<not> openable (rl_path l) (lg_fs st) \<Longrightarrow> lg_cells st' = lg_cells st"
  unfolding st'_def
  by (auto simp: reopen_one_def log_reopen_def open_append_def openable_def parent_present_def Let_def
      split: if_splits option.splits)

lemma reopen_fold_effect:
  assumes "distinct (map rl_file ls)" and "l \<in> set ls" and "\<And>k. k \<in> set ls \<Longrightarrow> rl_file k < length (lg_cells st)"
  defines "st' \<equiv> foldl reopen_one st ls"
  shows "if openable (rl_path l) (lg_fs st)
     then map_of (lf_names (lg_fs st')) (rl_path l) = Some (lg_cells st' ! rl_file l)
     else lg_cells st' ! rl_file l = lg_cells st ! rl_file l"
    (is "?P st'")
proof -
  have later: "map_of (lf_names (lg_fs s)) p = Some j \<Longrightarrow> map_of (lf_names (lg_fs (foldl reopen_one s ks))) p = Some j"
    "c \<notin> rl_file ` set ks \<Longrightarrow> lg_cells (foldl reopen_one s ks) ! c = lg_cells s ! c"
    "openable p (lg_fs (foldl reopen_one s ks)) = openable p (lg_fs s)"
    "length (lg_cells (foldl reopen_one s ks)) = length (lg_cells s)" for s ks p j c
    by (induction ks arbitrary: s) (simp_all add: reopen_one_effect)
  obtain pre post where ls: "ls = pre @ l # post" using split_list[OF assms(2)] by blast
  let ?s = "foldl reopen_one st pre"
  have out: "rl_file l \<notin> rl_file ` set pre" "rl_file l \<notin> rl_file ` set post" using assms(1) by (auto simp: ls)
  have st': "st' = foldl reopen_one (reopen_one ?s l) post" by (simp add: st'_def ls)
  show ?thesis
  proof (cases "openable (rl_path l) (lg_fs st)")
    case True
    then have "map_of (lf_names (lg_fs (reopen_one ?s l))) (rl_path l) = Some (lg_cells (reopen_one ?s l) ! rl_file l)"
      using reopen_one_effect(7)[of l ?s] assms(2,3) by (simp add: later)
    then show ?thesis using True later(1) later(2)[OF out(2)] by (simp add: st')
  next
    case False
    then have "lg_cells (reopen_one ?s l) = lg_cells ?s" using reopen_one_effect(8)[of l ?s] by (simp add: later)
    then show ?thesis using False later(2)[OF out(2)] later(2)[OF out(1)] by (simp add: st')
  qed
qed

lemma reopen_fold_new:
  "map_of (lf_names (lg_fs (foldl reopen_one st ls))) p = Some j \<Longrightarrow>
     map_of (lf_names (lg_fs st)) p = Some j \<or> length (lf_files (lg_fs st)) \<le> j"
proof (induction ls arbitrary: st)
  case (Cons l ls)
  then have "map_of (lf_names (lg_fs (reopen_one st l))) p = Some j \<or> length (lf_files (lg_fs (reopen_one st l))) \<le> j" by simp
  then show ?case using reopen_one_effect(2)[of st l p j] reopen_one_effect(6)[of st l] by linarith
qed simp

text \<open>Rotation. When the access log's file has been renamed and the process has been told to reopen, the next access
  record is appended to the file that now has the log's name, which is another one than the renamed;
  unless that cannot be opened, and then it is appended to the renamed file.\<close>

theorem rotation_switches:
  assumes "wf_logging st" and "distinct (map rl_file (lg_registry st))" and "l \<in> set (lg_registry st)"
    and "lg_access st = To_file l" and "map_of (lf_names (lg_fs st)) (rl_path l) = Some i" and "lg_cells st ! rl_file l = i"
    and "new \<noteq> rl_path l" and "enabled ''access'' line"
    and "st' = log_run enabled [Rename (rl_path l) new, Usr1] st"
  shows "\<exists>j. lf_files (lg_fs (log_step enabled st' (Record_line ''access'' line))) =
      (lf_files (lg_fs st'))[j := lf_files (lg_fs st') ! j @ [line]] \<and>
    (if openable (rl_path l) (lg_fs st) then map_of (lf_names (lg_fs st')) (rl_path l) = Some j \<and> j \<noteq> i else j = i)"
proof -
  let ?st = "log_step enabled st (Rename (rl_path l) new)"
  let ?j = "lg_cells st' ! rl_file l"
  have st': "st' = foldl reopen_one ?st (lg_registry st)" by (simp add: assms(9) log_run_def reopen_all_def)
  have less: "rl_file k < length (lg_cells ?st)" if "k \<in> set (lg_registry st)" for k using assms(1) that by (simp add: wf_logging_def)
  have open_same: "openable (rl_path l) (lg_fs ?st) = openable (rl_path l) (lg_fs st)"
    by (simp add: openable_def parent_present_def rename_file_def assms(5) split: option.split)
  have gone: "map_of (lf_names (lg_fs ?st)) (rl_path l) = None"
    using assms(7) by (simp add: rename_file_def assms(5) AList.delete_conv')
  have i: "i < length (lf_files (lg_fs ?st))"
    using assms(1) map_of_SomeD[OF assms(5)] rename_wf[of "lg_fs st"] by (auto simp: wf_logging_def wf_fs_def)
  have "if openable (rl_path l) (lg_fs st) then map_of (lf_names (lg_fs st')) (rl_path l) = Some ?j \<and> ?j \<noteq> i else ?j = i"
    using reopen_fold_effect[OF assms(2,3) less] reopen_fold_new[of ?st "lg_registry st" "rl_path l" ?j] gone i assms(6) open_same
    by (auto simp: st' split: if_splits)
  moreover have "lg_access (foldl reopen_one s ls) = lg_access s" for s ls
    by (induction ls arbitrary: s) (simp_all add: reopen_one_def log_reopen_def split: option.splits prod.splits)
  then have "lg_access st' = To_file l" by (simp add: st' assms(4))
  then have "lf_files (lg_fs (log_step enabled st' (Record_line ''access'' line))) = (lf_files (lg_fs st'))[?j := lf_files (lg_fs st') ! ?j @ [line]]"
    using assms(8) by (simp add: log_record_def write_sink_def append_line_def)
  ultimately show ?thesis by blast
qed

theorem rotation_switches_witness:
  "\<exists>j. lf_files (lg_fs (log_step (\<lambda>t l. True) (log_run (\<lambda>t l. True) [Rename ''/v/a'' ''/v/b'', Usr1] demo_logging)
      (Record_line ''access'' ''x''))) = (lf_files (lg_fs (log_run (\<lambda>t l. True) [Rename ''/v/a'' ''/v/b'', Usr1] demo_logging)))
        [j := lf_files (lg_fs (log_run (\<lambda>t l. True) [Rename ''/v/a'' ''/v/b'', Usr1] demo_logging)) ! j @ [''x'']] \<and> j \<noteq> 0"
proof -
  let ?l = "\<lparr>rl_path = ''/v/a'', rl_file = 0\<rparr>"
  have st: "demo_logging = (logging_init \<lparr>lf_names = [(''/v/a'', 0)], lf_files = [[]], lf_dirs = [''/v''], lf_denied = []\<rparr>)
      \<lparr>lg_cells := [0], lg_registry := [?l], lg_access := To_file ?l\<rparr>" by code_simp
  have o: "openable ''/v/a'' (lg_fs demo_logging)" by code_simp
  from rotation_switches[of demo_logging ?l 0 "''/v/b''" "\<lambda>t l. True" "''x''" "log_run (\<lambda>t l. True) [Rename ''/v/a'' ''/v/b'', Usr1] demo_logging"] o
  show ?thesis by (auto simp: st logging_init_def wf_logging_def wf_fs_def wf_sink_def simp del: log_step.simps)
qed

end
