(* ===== verification/Privilege.thy ===== *)
theory Privilege
  imports Rust_Text
begin

text \<open>
  The identity and the limits of the process (\<^verbatim>\<open>src/src/privilege.rs\<close>), and the messages to the service manager
  (\<^verbatim>\<open>src/src/sd_notify.rs\<close>).

  The system calls are arguments, the fields of \<open>unix_ops\<close>; \<open>unix_laws\<close> says what the manual pages promise of them:
  a call that succeeds changes what it is for and nothing else, and one that fails changes nothing.

  Shown here: a drop that reports success has set user, group and supplementary groups, one that fails has not changed
  the user, and one started by root goes through; the limit of open files is only ever raised, never past the hard
  limit.
\<close>

section \<open>Identities\<close>

record creds =
  cr_uid :: nat
  cr_gid :: nat
  cr_groups :: "nat list"

record unix_ops =
  ux_getpwnam :: "string \<Rightarrow> (nat \<times> nat) option"
  ux_getgrnam :: "string \<Rightarrow> nat option"
  ux_initgroups :: "string \<Rightarrow> nat \<Rightarrow> creds \<Rightarrow> bool \<times> creds"
  ux_setgid :: "nat \<Rightarrow> creds \<Rightarrow> bool \<times> creds"
  ux_setuid :: "nat \<Rightarrow> creds \<Rightarrow> bool \<times> creds"
  ux_getrlimit :: "nat \<times> nat \<Rightarrow> (nat \<times> nat) option"
  ux_setrlimit :: "nat \<times> nat \<Rightarrow> nat \<times> nat \<Rightarrow> bool \<times> (nat \<times> nat)"

record user_ids =
  ui_uid :: nat
  ui_gid :: nat
  ui_user :: string

datatype priv_error =
    Nul_in_user string
  | User_not_found string
  | Nul_in_group string
  | Group_not_found string
  | Initgroups_failed nat
  | Setgid_failed nat
  | Setuid_failed nat
  | Getrlimit_failed
  | Setrlimit_failed

definition c_string :: "'e \<Rightarrow> string \<Rightarrow> 'e + string" where
  "c_string e s = (if CHR 0x00 \<in> set s then Inl e else Inr s)"

definition resolve_user :: "unix_ops \<Rightarrow> string \<Rightarrow> string option \<Rightarrow> priv_error + user_ids" where
  "resolve_user ops user grp =
     and_then (c_string (Nul_in_user user) user) (\<lambda>user_cstr.
     and_then (ok_or (User_not_found user) (ux_getpwnam ops user_cstr)) (\<lambda>(uid, primary_gid).
     and_then
       (case grp of
          Some g \<Rightarrow>
            and_then (c_string (Nul_in_group g) g) (\<lambda>g_cstr.
            ok_or (Group_not_found g) (ux_getgrnam ops g_cstr))
        | None \<Rightarrow> Inr primary_gid) (\<lambda>gid.
     Inr \<lparr>ui_uid = uid, ui_gid = gid, ui_user = user_cstr\<rparr>)))"

definition drop_to :: "unix_ops \<Rightarrow> user_ids \<Rightarrow> creds \<Rightarrow> (priv_error + unit) \<times> creds" where
  "drop_to ops ids c =
     (let (ok1, c1) = ux_initgroups ops (ui_user ids) (ui_gid ids) c
      in if \<not> ok1 then (Inl (Initgroups_failed (ui_gid ids)), c1)
      else let (ok2, c2) = ux_setgid ops (ui_gid ids) c1
      in if \<not> ok2 then (Inl (Setgid_failed (ui_gid ids)), c2)
      else let (ok3, c3) = ux_setuid ops (ui_uid ids) c2
      in if \<not> ok3 then (Inl (Setuid_failed (ui_uid ids)), c3)
      else (Inr (), c3))"

definition is_root :: "creds \<Rightarrow> bool" where
  "is_root c \<longleftrightarrow> cr_uid c = 0"

section \<open>Open files\<close>

definition raise_nofile :: "unix_ops \<Rightarrow> nat \<Rightarrow> nat \<times> nat \<Rightarrow> (priv_error + nat \<times> nat) \<times> (nat \<times> nat)" where
  "raise_nofile ops target limits =
     (case ux_getrlimit ops limits of
        None \<Rightarrow> (Inl Getrlimit_failed, limits)
      | Some (rlim_cur, rlim_max) \<Rightarrow>
          (let want = min target rlim_max
           in if rlim_cur \<ge> want then (Inr (rlim_cur, rlim_cur), limits)
              else let (ok, limits') = ux_setrlimit ops (want, rlim_max) limits
                   in if \<not> ok then (Inl Setrlimit_failed, limits') else (Inr (rlim_cur, want), limits')))"

section \<open>Messages to the service manager\<close>

record notify_env =
  ne_socket :: "string option"
  ne_unbound :: bool

text \<open>The datagrams a call puts out, with the address they are sent to.\<close>

definition notify_send :: "notify_env \<Rightarrow> string \<Rightarrow> (string \<times> string) list" where
  "notify_send ne payload =
     (case ne_socket ne of
        None \<Rightarrow> []
      | Some addr \<Rightarrow>
          if addr = [] then []
          else if starts_with addr ''@'' then []
          else if \<not> ne_unbound ne then []
          else [(addr, payload)])"

definition notify_ready :: "notify_env \<Rightarrow> (string \<times> string) list" where
  "notify_ready ne = notify_send ne ''READY=1''"

definition notify_stopping :: "notify_env \<Rightarrow> (string \<times> string) list" where
  "notify_stopping ne = notify_send ne ''STOPPING=1''"

definition notify_reloading :: "notify_env \<Rightarrow> (string \<times> string) list" where
  "notify_reloading ne = notify_send ne ''RELOADING=1''"

definition notify_status :: "notify_env \<Rightarrow> string \<Rightarrow> (string \<times> string) list" where
  "notify_status ne msg = notify_send ne (''STATUS='' @ msg)"

section \<open>What the system calls promise\<close>

text \<open>\<open>members\<close> is the group database: the supplementary groups \<^verbatim>\<open>initgroups\<close> gives a user. Changing groups takes
  the privilege of the superuser, which is what makes the order of the calls matter.\<close>

definition unix_laws :: "unix_ops \<Rightarrow> (string \<Rightarrow> nat \<Rightarrow> nat list) \<Rightarrow> bool" where
  "unix_laws ops members \<longleftrightarrow>
     (\<forall>u g c. ux_initgroups ops u g c = (True, c\<lparr>cr_groups := members u g\<rparr>) \<and> cr_uid c = 0 \<or> ux_initgroups ops u g c = (False, c)) \<and>
     (\<forall>g c. ux_setgid ops g c = (True, c\<lparr>cr_gid := g\<rparr>) \<or> ux_setgid ops g c = (False, c)) \<and>
     (\<forall>u c. ux_setuid ops u c = (True, c\<lparr>cr_uid := u\<rparr>) \<or> ux_setuid ops u c = (False, c)) \<and>
     (\<forall>l. ux_getrlimit ops l = Some l \<or> ux_getrlimit ops l = None) \<and>
     (\<forall>v l. ux_setrlimit ops v l = (True, v) \<or> ux_setrlimit ops v l = (False, l))"

text \<open>The superuser is not refused.\<close>

definition root_may :: "unix_ops \<Rightarrow> bool" where
  "root_may ops \<longleftrightarrow> (\<forall>u g c. cr_uid c = 0 \<longrightarrow> fst (ux_initgroups ops u g c) \<and> fst (ux_setgid ops g c) \<and> (\<forall>v. fst (ux_setuid ops v c)))"

lemma unix_lawsD:
  assumes "unix_laws ops members"
  shows "ux_initgroups ops u g c = (ok, c') \<Longrightarrow> c' = (if ok then c\<lparr>cr_groups := members u g\<rparr> else c)"
    and "ux_setgid ops g c = (ok, c') \<Longrightarrow> c' = (if ok then c\<lparr>cr_gid := g\<rparr> else c)"
    and "ux_setuid ops v c = (ok, c') \<Longrightarrow> c' = (if ok then c\<lparr>cr_uid := v\<rparr> else c)"
    and "ux_getrlimit ops l = Some l' \<Longrightarrow> l' = l"
    and "ux_setrlimit ops w l = (ok, l') \<Longrightarrow> l' = (if ok then w else l)"
  using assms unfolding unix_laws_def by (metis (full_types) Pair_inject option.inject option.simps(3))+

lemma drop_to_effect:
  assumes "unix_laws ops members" and "drop_to ops ids c = (r, c')"
  shows "(case r of
            Inr _ \<Rightarrow> c' = \<lparr>cr_uid = ui_uid ids, cr_gid = ui_gid ids, cr_groups = members (ui_user ids) (ui_gid ids)\<rparr>
          | Inl _ \<Rightarrow> cr_uid c' = cr_uid c) \<and>
    (root_may ops \<and> is_root c \<longrightarrow> r = Inr ())"
proof -
  obtain ok1 c1 where s1: "ux_initgroups ops (ui_user ids) (ui_gid ids) c = (ok1, c1)" by force
  obtain ok2 c2 where s2: "ux_setgid ops (ui_gid ids) c1 = (ok2, c2)" by force
  obtain ok3 c3 where s3: "ux_setuid ops (ui_uid ids) c2 = (ok3, c3)" by force
  note laws = unix_lawsD(1)[OF assms(1) s1] unix_lawsD(2)[OF assms(1) s2] unix_lawsD(3)[OF assms(1) s3]
  have "ok1 \<and> ok2 \<and> ok3" if "root_may ops" "cr_uid c = 0"
  proof -
    have "cr_uid c1 = 0" "cr_uid c2 = 0" using laws that(2) by (simp_all split: if_splits)
    then show ?thesis using that s1 s2 s3 unfolding root_may_def by (metis fst_conv)
  qed
  then show ?thesis using assms(2) laws s1 s2 s3 by (cases c; auto simp: drop_to_def is_root_def split: if_splits)
qed

lemma drop_to_result:
  assumes "unix_laws ops members" and "drop_to ops ids c = (Inr u, c')"
  shows "c' = \<lparr>cr_uid = ui_uid ids, cr_gid = ui_gid ids, cr_groups = members (ui_user ids) (ui_gid ids)\<rparr>"
  using drop_to_effect[OF assms] by simp

text \<open>The drop of privileges. When it reports success, the process has the user, the group and the supplementary groups
  of the target and nothing of the old identity; when it reports an error the user has not changed; and for a process of
  the superuser, whom the system does not refuse, it goes through: no call comes after the one that
  gives the privilege away.\<close>

theorem drop_to_exact:
  assumes "unix_laws ops members" and "drop_to ops ids c = (r, c')"
  shows "(case r of
            Inr _ \<Rightarrow> c' = \<lparr>cr_uid = ui_uid ids, cr_gid = ui_gid ids, cr_groups = members (ui_user ids) (ui_gid ids)\<rparr>
          | Inl _ \<Rightarrow> cr_uid c' = cr_uid c) \<and>
    (root_may ops \<and> is_root c \<longrightarrow> r = Inr ())"
  by (rule drop_to_effect[OF assms])

text \<open>A system where only the superuser changes identity.\<close>

definition demo_unix :: unix_ops where
  "demo_unix = \<lparr>ux_getpwnam = (\<lambda>u. if u = ''www'' then Some (33, 34) else None), ux_getgrnam = (\<lambda>g. None),
     ux_initgroups = (\<lambda>u g c. if cr_uid c = 0 then (True, c\<lparr>cr_groups := [g]\<rparr>) else (False, c)),
     ux_setgid = (\<lambda>g c. if cr_uid c = 0 then (True, c\<lparr>cr_gid := g\<rparr>) else (False, c)),
     ux_setuid = (\<lambda>u c. if cr_uid c = 0 then (True, c\<lparr>cr_uid := u\<rparr>) else (False, c)),
     ux_getrlimit = Some, ux_setrlimit = (\<lambda>v l. if snd v \<le> snd l then (True, v) else (False, l))\<rparr>"

lemma demo_unix_laws: "unix_laws demo_unix (\<lambda>u g. [g])" "root_may demo_unix"
  by (simp_all add: unix_laws_def root_may_def demo_unix_def)

theorem drop_to_exact_witness:
  "drop_to demo_unix \<lparr>ui_uid = 33, ui_gid = 34, ui_user = ''www''\<rparr> \<lparr>cr_uid = 0, cr_gid = 0, cr_groups = [0, 5]\<rparr> =
     (Inr (), \<lparr>cr_uid = 33, cr_gid = 34, cr_groups = [34]\<rparr>)"
proof -
  obtain r c' where d: "drop_to demo_unix \<lparr>ui_uid = 33, ui_gid = 34, ui_user = ''www''\<rparr> \<lparr>cr_uid = 0, cr_gid = 0, cr_groups = [0, 5]\<rparr> = (r, c')" by force
  from drop_to_exact[OF demo_unix_laws(1) d] demo_unix_laws(2) have "r = Inr ()" by (simp add: is_root_def)
  with drop_to_exact[OF demo_unix_laws(1) d] d show ?thesis by simp
qed

text \<open>The limit of open files is only raised, and never past the hard limit: on success the soft limit is the
  larger of what it was and the configured number cut to the hard limit, as reported; the hard limit stays; and a
  failure leaves both alone.\<close>

theorem raise_nofile_exact:
  assumes "unix_laws ops members" and "raise_nofile ops target (soft, hard) = (r, (soft', hard'))"
  shows "hard' = hard \<and> (case r of
           Inr (old, new) \<Rightarrow> old = soft \<and> new = max soft (min target hard) \<and> soft' = new
         | Inl e \<Rightarrow> soft' = soft)"
proof (cases "ux_getrlimit ops (soft, hard)")
  case None
  then show ?thesis using assms(2) by (auto simp: raise_nofile_def)
next
  case (Some l)
  obtain ok l' where s: "ux_setrlimit ops (min target hard, hard) (soft, hard) = (ok, l')" by (metis surj_pair)
  note unix_lawsD(4)[OF assms(1) Some] unix_lawsD(5)[OF assms(1) s]
  with assms(2) Some s show ?thesis by (auto simp: raise_nofile_def Let_def split: if_splits)
qed

theorem raise_nofile_exact_witness:
  "raise_nofile demo_unix 70000 (1024, 4096) = (Inr (1024, 4096), (4096, 4096))"
proof -
  obtain r s h where d: "raise_nofile demo_unix 70000 (1024, 4096) = (r, (s, h))" by (metis surj_pair)
  moreover have "\<not> isl r" using d by (auto simp: raise_nofile_def demo_unix_def)
  ultimately show ?thesis using raise_nofile_exact[OF demo_unix_laws(1) d] by (auto split: sum.splits)
qed

end
