(* ===== verification/Process.thy ===== *)
theory Process
  imports Supervisor Logging Privilege
begin

text \<open>
  The process from its arguments to its exit code (\<^verbatim>\<open>src/src/main.rs\<close>).

  The state of the process holds the outside as the supervisor sees it, the identity, the limit of open files, the
  logs, and the trace of what the process did, in order. Signals arrive as a list; between two of them the outside may
  change. The non-Unix variants are not part of the model.

  Shown here: \<^verbatim>\<open>-t\<close> leaves everything alone; readiness is announced only when every address is bound and the privileges
  are dropped; a failed drop ends the process; the PID file is removed on every way out; and a signal loop that ends
  only by an interrupt or a termination, with each reload bracketed by its messages.
\<close>

section \<open>Arguments\<close>

datatype cli =
    Run string bool
  | Version
  | Help
  | Missing_path string
  | Unknown_argument string

fun parse_cli :: "string list \<Rightarrow> string \<Rightarrow> bool \<Rightarrow> cli" where
  "parse_cli [] config_path test_only = Run config_path test_only"
| "parse_cli (arg # args) config_path test_only =
     (if arg = ''-c'' \<or> arg = ''--config'' then
        (case args of p # rest \<Rightarrow> parse_cli rest p test_only | [] \<Rightarrow> Missing_path arg)
      else if arg = ''-t'' \<or> arg = ''--test'' then parse_cli args config_path True
      else if arg = ''-v'' \<or> arg = ''--version'' then Version
      else if arg = ''-h'' \<or> arg = ''--help'' then Help
      else Unknown_argument arg)"

section \<open>State\<close>

datatype main_action =
    Printed
  | Eprinted
  | Logs_installed bool
  | Pid_written string bool
  | Nofile_raised nat
  | Bound nat
  | Bind_failed
  | Dropped user_ids
  | Drop_failed
  | Notified string string
  | Reloaded
  | Logs_reopened
  | Shut_down
  | Pid_removed string

record 's process =
  pc_world :: 's
  pc_creds :: creds
  pc_limits :: "nat \<times> nat"
  pc_logs :: logging
  pc_trace :: "main_action list"

record ('h, 'r, 's) main_env =
  me_sup :: "('h, 'r, 's) sup_env"
  me_unix :: unix_ops
  me_notify :: notify_env
  me_write_pid :: "string \<Rightarrow> 's \<Rightarrow> bool \<times> 's"
  me_remove :: "string \<Rightarrow> 's \<Rightarrow> 's"
  me_ctrl_c :: bool
  me_term :: bool
  me_hup :: bool
  me_usr1 :: bool

datatype 's signal = Sigint | Sigterm | Sighup | Sigusr1 | Outside 's

datatype exit_code = Success | Failure | Usage

definition did :: "main_action list \<Rightarrow> 's process \<Rightarrow> 's process" where
  "did as p = p\<lparr>pc_trace := pc_trace p @ as\<rparr>"

abbreviation notified :: "(string \<times> string) list \<Rightarrow> main_action list" where
  "notified ds \<equiv> map (\<lambda>(a, m). Notified a m) ds"

section \<open>Signals\<close>

definition handle_hup :: "('h, 'r, 's) main_env \<Rightarrow> string \<Rightarrow> 'r supervisor \<Rightarrow> 's process \<Rightarrow> 'r supervisor \<times> 's process" where
  "handle_hup env path sv p =
     (let (sv', w) = reload (me_sup env) path sv (pc_world p)
      in (sv', did (notified (notify_reloading (me_notify env)) @ [Reloaded] @
                    notified (notify_status (me_notify env) (''reloaded: '' @ show_nat (listener_count sv') @ '' listener(s)'')) @
                    notified (notify_ready (me_notify env)))
                 (p\<lparr>pc_world := w\<rparr>)))"

text \<open>The first component says that the loop has ended; otherwise the process is still waiting after the given signals. Without a
  handler for the interrupt the wait for it fails at once, which the loop takes for the signal.\<close>

fun wait_for_signals :: "('h, 'r, 's) main_env \<Rightarrow> string \<Rightarrow> 's signal list \<Rightarrow> 'r supervisor \<Rightarrow> 's process \<Rightarrow>
    bool \<times> 'r supervisor \<times> 's process" where
  "wait_for_signals env path [] sv p = (\<not> me_ctrl_c env, sv, p)"
| "wait_for_signals env path (sig # sigs) sv p =
     (if \<not> me_ctrl_c env then (True, sv, p)
      else case sig of
        Sigint \<Rightarrow> (True, sv, p)
      | Sigterm \<Rightarrow> if me_term env then (True, sv, p) else wait_for_signals env path sigs sv p
      | Sighup \<Rightarrow>
          if me_hup env then (let (sv', p') = handle_hup env path sv p in wait_for_signals env path sigs sv' p')
          else wait_for_signals env path sigs sv p
      | Sigusr1 \<Rightarrow>
          if me_usr1 env then wait_for_signals env path sigs sv (did [Logs_reopened] (p\<lparr>pc_logs := reopen_all (pc_logs p)\<rparr>))
          else wait_for_signals env path sigs sv p
      | Outside w \<Rightarrow> wait_for_signals env path sigs sv (p\<lparr>pc_world := w\<rparr>))"

section \<open>Starting and stopping\<close>

definition cleanup_pid_file :: "('h, 'r, 's) main_env \<Rightarrow> string option \<Rightarrow> 's process \<Rightarrow> 's process" where
  "cleanup_pid_file env path p =
     (case path of
        Some f \<Rightarrow> did [Pid_removed f] (p\<lparr>pc_world := me_remove env f (pc_world p)\<rparr>)
      | None \<Rightarrow> p)"

definition write_pid_file :: "('h, 'r, 's) main_env \<Rightarrow> string option \<Rightarrow> 's process \<Rightarrow> 's process" where
  "write_pid_file env path p =
     (case path of
        Some f \<Rightarrow> (let (ok, w) = me_write_pid env f (pc_world p) in did [Pid_written f ok] (p\<lparr>pc_world := w\<rparr>))
      | None \<Rightarrow> p)"

definition raise_limit :: "('h, 'r, 's) main_env \<Rightarrow> nat option \<Rightarrow> 's process \<Rightarrow> 's process" where
  "raise_limit env target p =
     (case target of
        Some n \<Rightarrow> did [Nofile_raised n] (p\<lparr>pc_limits := snd (raise_nofile (me_unix env) n (pc_limits p))\<rparr>)
      | None \<Rightarrow> p)"

definition drop_target :: "('h, 'r, 's) main_env \<Rightarrow> config \<Rightarrow> priv_error + user_ids option" where
  "drop_target env cfg =
     (case cfg_user cfg of
        Some user \<Rightarrow> and_then (resolve_user (me_unix env) user (cfg_group cfg)) (\<lambda>ids. Inr (Some ids))
      | None \<Rightarrow> Inr None)"

definition drop_privileges :: "('h, 'r, 's) main_env \<Rightarrow> user_ids option \<Rightarrow> 's process \<Rightarrow> bool \<times> 's process" where
  "drop_privileges env target p =
     (case target of
        Some ids \<Rightarrow>
          (case drop_to (me_unix env) ids (pc_creds p) of
             (Inr _, c) \<Rightarrow> (True, did [Dropped ids] (p\<lparr>pc_creds := c\<rparr>))
           | (Inl _, c) \<Rightarrow> (False, did [Drop_failed] (p\<lparr>pc_creds := c\<rparr>)))
      | None \<Rightarrow> (True, p))"

text \<open>From a built runtime to the moment the process is ready, or to its failure.\<close>

definition start_up :: "('h, 'r, 's) main_env \<Rightarrow> config \<Rightarrow> 'r runtime \<Rightarrow> 's process \<Rightarrow> 'r supervisor option \<times> 's process" where
  "start_up env cfg rt p =
     (let pid_path = cfg_pid cfg;
          p1 = write_pid_file env pid_path p;
          p2 = raise_limit env (cfg_worker_rlimit_nofile cfg) p1
      in case drop_target env cfg of
           Inl e \<Rightarrow> (None, cleanup_pid_file env pid_path p2)
         | Inr target \<Rightarrow>
             (case sup_start (me_sup env) rt (pc_world p2) of
                (None, w) \<Rightarrow> (None, cleanup_pid_file env pid_path (did [Bind_failed] (p2\<lparr>pc_world := w\<rparr>)))
              | (Some sv, w) \<Rightarrow>
                  (let p3 = did [Bound (listener_count sv)] (p2\<lparr>pc_world := w\<rparr>);
                       (ok, p4) = drop_privileges env target p3
                   in if \<not> ok then (None, cleanup_pid_file env pid_path (did [Shut_down] p4))
                      else (Some sv,
                            did (notified (notify_status (me_notify env) (''ready: '' @ show_nat (listener_count sv) @ '' listener(s)'')) @
                                 notified (notify_ready (me_notify env))) p4))))"

definition serve_and_stop :: "('h, 'r, 's) main_env \<Rightarrow> string \<Rightarrow> config \<Rightarrow> 's signal list \<Rightarrow> 'r supervisor \<Rightarrow> 's process \<Rightarrow>
    exit_code option \<times> 's process" where
  "serve_and_stop env path cfg sigs sv p =
     (let (ended, sv', p') = wait_for_signals env path sigs sv p
      in if \<not> ended then (None, p')
         else (Some Success, cleanup_pid_file env (cfg_pid cfg)
                 (did (notified (notify_stopping (me_notify env)) @ [Shut_down]) p')))"

definition run_server :: "('h, 'r, 's) main_env \<Rightarrow> string \<Rightarrow> bool \<Rightarrow> 's signal list \<Rightarrow> 's process \<Rightarrow> exit_code option \<times> 's process" where
  "run_server env path test_only sigs p =
     (let app = pv_app (me_sup env) (pc_world p)
      in case load (ae_files app) (pv_fuel (me_sup env)) path of
           Inl e \<Rightarrow> (Some Failure, did [Eprinted] p)
         | Inr cfg \<Rightarrow>
             (let (installed, p1) =
                (if test_only then (True, p)
                 else let (ok, logs) = install (Option.bind (cfg_http cfg) http_access_log) (cfg_error_log cfg) (pc_logs p)
                      in (ok, did [Logs_installed ok] (p\<lparr>pc_logs := logs\<rparr>)))
              in if \<not> installed then (Some Failure, did [Eprinted] p1)
                 else case build_runtime app cfg of
                        Inl e \<Rightarrow> (Some Failure, if test_only then did [Eprinted] p1 else p1)
                      | Inr rt \<Rightarrow>
                          if test_only then (Some Success, did [Printed] p1)
                          else (case start_up env cfg rt p1 of
                                  (None, p2) \<Rightarrow> (Some Failure, p2)
                                | (Some sv, p2) \<Rightarrow> serve_and_stop env path cfg sigs sv p2)))"

definition main :: "('h, 'r, 's) main_env \<Rightarrow> string list \<Rightarrow> 's signal list \<Rightarrow> 's process \<Rightarrow> exit_code option \<times> 's process" where
  "main env args sigs p =
     (case parse_cli args ''elrond.conf'' False of
        Run path test_only \<Rightarrow> run_server env path test_only sigs p
      | Version \<Rightarrow> (Some Success, did [Printed] p)
      | Help \<Rightarrow> (Some Success, did [Printed] p)
      | Missing_path arg \<Rightarrow> (Some Usage, did [Eprinted] p)
      | Unknown_argument arg \<Rightarrow> (Some Usage, did [Eprinted, Printed] p))"

section \<open>The test mode\<close>

lemma did_simps [simp]:
  "pc_trace (did as p) = pc_trace p @ as" "pc_world (did as p) = pc_world p" "pc_creds (did as p) = pc_creds p"
  "pc_limits (did as p) = pc_limits p" "pc_logs (did as p) = pc_logs p"
  by (simp_all add: did_def)

text \<open>A configuration test touches nothing: with \<^verbatim>\<open>-t\<close> the process opens no log, writes no PID file, binds nothing and keeps its
  identity and limits; it only prints, and it succeeds exactly when the configuration can be read and built.\<close>

theorem test_mode_pure:
  assumes "parse_cli args ''elrond.conf'' False = Run path True"
  shows "\<exists>a \<in> {Printed, Eprinted}. main env args sigs p =
    (Some (if isl (read_config (pv_app (me_sup env) (pc_world p)) (pv_fuel (me_sup env)) path) then Failure else Success), did [a] p)"
  using assms
  by (auto simp: main_def run_server_def read_config_def Let_def and_then_def map_err_def split: sum.splits)

section \<open>The signal loop\<close>

text \<open>What a signal makes the loop do, as far as the trace shows it besides messages; and which signals end it.\<close>

fun ends_loop :: "('h, 'r, 's) main_env \<Rightarrow> 's signal \<Rightarrow> bool" where
  "ends_loop env Sigint = True"
| "ends_loop env Sigterm = me_term env"
| "ends_loop env _ = False"

fun signal_work :: "('h, 'r, 's) main_env \<Rightarrow> 's signal \<Rightarrow> main_action list" where
  "signal_work env Sighup = (if me_hup env then [Reloaded] else [])"
| "signal_work env Sigusr1 = (if me_usr1 env then [Logs_reopened] else [])"
| "signal_work env _ = []"

definition is_notice :: "main_action \<Rightarrow> bool" where
  "is_notice a \<longleftrightarrow> (\<exists>addr msg. a = Notified addr msg)"

lemma is_notice_simps [simp]:
  "is_notice (Notified a m)" "\<not> is_notice Reloaded" "\<not> is_notice Logs_reopened" "filter (\<lambda>a. \<not> is_notice a) (notified ds) = []"
  by (auto simp: is_notice_def filter_empty_conv)

lemma handle_hup_trace:
  "pc_trace (snd (handle_hup env path sv p)) = pc_trace p @ notified (notify_reloading (me_notify env)) @ [Reloaded] @
     notified (notify_status (me_notify env) (''reloaded: '' @ show_nat (listener_count (fst (handle_hup env path sv p))) @ '' listener(s)'')) @
     notified (notify_ready (me_notify env))"
  "pc_creds (snd (handle_hup env path sv p)) = pc_creds p"
  by (simp_all add: handle_hup_def split: prod.splits)

lemma wait_loop:
  assumes "me_ctrl_c env" and "wait_for_signals env path sigs sv p = (ended, sv', p')"
  shows "(ended \<longleftrightarrow> list_ex (ends_loop env) sigs) \<and> (\<exists>added. pc_trace p' = pc_trace p @ added \<and>
    filter (\<lambda>a. \<not> is_notice a) added = concat (map (signal_work env) (takeWhile (\<lambda>s. \<not> ends_loop env s) sigs))) \<and>
    pc_creds p' = pc_creds p"
  using assms(2)
proof (induction sigs arbitrary: sv p)
  case (Cons sig sigs)
  show ?case
  proof (cases sig)
    case Sighup
    show ?thesis
    proof (cases "me_hup env")
      case True
      obtain sv1 p1 where h: "handle_hup env path sv p = (sv1, p1)" by force
      with Cons.prems True assms(1) have "wait_for_signals env path sigs sv1 p1 = (ended, sv', p')" by (simp add: Sighup)
      from Cons.IH[OF this] handle_hup_trace[of env path sv p] h True show ?thesis by (auto simp: Sighup)
    qed (use Cons assms(1) Sighup in auto)
  next
    case Sigusr1
    then show ?thesis using Cons.prems Cons.IH assms(1) by (cases "me_usr1 env") fastforce+
  next
    case (Outside w)
    then show ?thesis using Cons.prems Cons.IH[of sv "p\<lparr>pc_world := w\<rparr>"] assms(1) by auto
  qed (use Cons assms(1) in \<open>auto split: if_splits\<close>)
qed (use assms(1) in simp)

text \<open>The signal loop ends by an interrupt or a handled termination, and by nothing else; and up to there it does one
  reload per handled hang-up and one reopening of the logs per handled user signal, in their order.\<close>

theorem signal_loop_exact:
  assumes "me_ctrl_c env" and "wait_for_signals env path sigs sv p = (ended, sv', p')"
  shows "(ended \<longleftrightarrow> list_ex (ends_loop env) sigs) \<and> (\<exists>added. pc_trace p' = pc_trace p @ added \<and>
    filter (\<lambda>a. \<not> is_notice a) added = concat (map (signal_work env) (takeWhile (\<lambda>s. \<not> ends_loop env s) sigs)))"
  using wait_loop[OF assms] by blast

lemma wait_added:
  assumes "wait_for_signals env path sigs sv p = (ended, sv', p')"
  obtains added where "pc_trace p' = pc_trace p @ added" "\<And>a. a \<in> set added \<Longrightarrow> is_notice a \<or> a = Reloaded \<or> a = Logs_reopened"
    "pc_creds p' = pc_creds p"
proof (cases "me_ctrl_c env")
  case True
  from wait_loop[OF True assms] obtain added where a: "pc_trace p' = pc_trace p @ added" "pc_creds p' = pc_creds p"
    "filter (\<lambda>a. \<not> is_notice a) added = concat (map (signal_work env) (takeWhile (\<lambda>s. \<not> ends_loop env s) sigs))" by blast
  have work: "a \<in> set (signal_work env s) \<Longrightarrow> a = Reloaded \<or> a = Logs_reopened" for a s by (cases s) (auto split: if_splits)
  have "a = Reloaded \<or> a = Logs_reopened" if "a \<in> set added" "\<not> is_notice a" for a
  proof -
    have "a \<in> set (filter (\<lambda>a. \<not> is_notice a) added)" using that by simp
    then show ?thesis unfolding a(3) using work by auto
  qed
  then show thesis using that a(1,2) by blast
next
  case False
  then have "p' = p" using assms by (cases sigs) auto
  then show thesis using that[of "[]"] by simp
qed

section \<open>The course of a run\<close>

definition pid_part :: "string option \<Rightarrow> bool \<Rightarrow> main_action list" where
  "pid_part path ok = (case path of Some f \<Rightarrow> [Pid_written f ok] | None \<Rightarrow> [])"

definition off_part :: "string option \<Rightarrow> main_action list" where
  "off_part path = (case path of Some f \<Rightarrow> [Pid_removed f] | None \<Rightarrow> [])"

definition limit_part :: "nat option \<Rightarrow> main_action list" where
  "limit_part target = (case target of Some n \<Rightarrow> [Nofile_raised n] | None \<Rightarrow> [])"

definition drop_part :: "user_ids option \<Rightarrow> main_action list" where
  "drop_part target = (case target of Some ids \<Rightarrow> [Dropped ids] | None \<Rightarrow> [])"

lemmas part_defs = pid_part_def off_part_def limit_part_def drop_part_def

lemma cleanup_trace: "pc_trace (cleanup_pid_file env path p) = pc_trace p @ off_part path"
  "pc_creds (cleanup_pid_file env path p) = pc_creds p"
  by (auto simp: cleanup_pid_file_def off_part_def split: option.splits)

lemma write_pid_trace:
  obtains ok where "pc_trace (write_pid_file env path p) = pc_trace p @ pid_part path ok"
    "pc_creds (write_pid_file env path p) = pc_creds p"
proof (cases path)
  case (Some f)
  obtain ok w where "me_write_pid env f (pc_world p) = (ok, w)" by force
  then show thesis using that[of ok] Some by (simp add: write_pid_file_def pid_part_def)
qed (use that in \<open>simp add: write_pid_file_def pid_part_def\<close>)

lemma raise_limit_trace: "pc_trace (raise_limit env target p) = pc_trace p @ limit_part target"
  "pc_creds (raise_limit env target p) = pc_creds p"
  by (auto simp: raise_limit_def limit_part_def split: option.splits)

text \<open>The four ways a start can go.\<close>

lemma start_up_cases:
  assumes "start_up env cfg rt p = (r, p')"
  obtains (no_user) ok e where "drop_target env cfg = Inl e" "r = None"
      "pc_trace p' = pc_trace p @ pid_part (cfg_pid cfg) ok @ limit_part (cfg_worker_rlimit_nofile cfg) @ off_part (cfg_pid cfg)"
  | (unbound) ok where "r = None"
      "pc_trace p' = pc_trace p @ pid_part (cfg_pid cfg) ok @ limit_part (cfg_worker_rlimit_nofile cfg) @ Bind_failed # off_part (cfg_pid cfg)"
  | (undropped) ok n where "r = None"
      "pc_trace p' = pc_trace p @ pid_part (cfg_pid cfg) ok @ limit_part (cfg_worker_rlimit_nofile cfg) @
         Bound n # Drop_failed # Shut_down # off_part (cfg_pid cfg)"
  | (ready) ok n target sv msg where "drop_target env cfg = Inr target" "r = Some sv"
      "pc_trace p' = pc_trace p @ pid_part (cfg_pid cfg) ok @ limit_part (cfg_worker_rlimit_nofile cfg) @
         Bound n # drop_part target @ notified (notify_status (me_notify env) msg) @ notified (notify_ready (me_notify env))"
      "case target of Some ids \<Rightarrow> drop_to (me_unix env) ids (pc_creds p) = (Inr (), pc_creds p') | None \<Rightarrow> pc_creds p' = pc_creds p"
proof -
  obtain ok where w: "pc_trace (write_pid_file env (cfg_pid cfg) p) = pc_trace p @ pid_part (cfg_pid cfg) ok"
    "pc_creds (write_pid_file env (cfg_pid cfg) p) = pc_creds p" by (rule write_pid_trace)
  let ?p2 = "raise_limit env (cfg_worker_rlimit_nofile cfg) (write_pid_file env (cfg_pid cfg) p)"
  have p2: "pc_trace ?p2 = pc_trace p @ pid_part (cfg_pid cfg) ok @ limit_part (cfg_worker_rlimit_nofile cfg)" "pc_creds ?p2 = pc_creds p"
    by (simp_all add: raise_limit_trace w)
  show thesis
  proof (cases "drop_target env cfg")
    case (Inl e)
    then show thesis using assms no_user[of e ok] p2 by (auto simp: start_up_def cleanup_trace Let_def)
  next
    case (Inr target)
    obtain r1 w1 where s: "sup_start (me_sup env) rt (pc_world ?p2) = (r1, w1)" by force
    show thesis
    proof (cases r1)
      case None
      then show thesis using assms unbound[of ok] p2 s Inr by (auto simp: start_up_def cleanup_trace Let_def)
    next
      case (Some sv)
      let ?p3 = "did [Bound (listener_count sv)] (?p2\<lparr>pc_world := w1\<rparr>)"
      have p3: "pc_trace ?p3 = pc_trace ?p2 @ [Bound (listener_count sv)]" "pc_creds ?p3 = pc_creds p" by (simp_all add: p2)
      obtain d p4 where dr: "drop_privileges env target ?p3 = (d, p4)" by force
      show thesis
      proof (cases d)
        case True
        then have "pc_trace p4 = pc_trace ?p3 @ drop_part target"
          "case target of Some ids \<Rightarrow> drop_to (me_unix env) ids (pc_creds p) = (Inr (), pc_creds p4) | None \<Rightarrow> pc_creds p4 = pc_creds p"
          using dr p3 by (auto simp: drop_privileges_def drop_part_def split: option.splits prod.splits sum.splits)
        moreover define msg where "msg = ''ready: '' @ show_nat (listener_count sv) @ '' listener(s)''"
        moreover have "r = Some sv" "p' = did (notified (notify_status (me_notify env) msg) @ notified (notify_ready (me_notify env))) p4"
          using assms s Inr Some dr True by (simp_all add: start_up_def Let_def msg_def)
        ultimately show thesis using ready[of target sv ok "listener_count sv" msg] p2 p3 Inr by (simp split: option.splits)
      next
        case False
        then have "pc_trace p4 = pc_trace ?p3 @ [Drop_failed]"
          using dr by (auto simp: drop_privileges_def split: option.splits prod.splits sum.splits)
        then show thesis using assms undropped[of ok "listener_count sv"] p2 p3 s Inr Some dr False
          by (auto simp: start_up_def cleanup_trace Let_def)
      qed
    qed
  qed
qed

text \<open>A run either ends early, having printed or opened its logs at most, or gets to start.\<close>

lemma main_cases:
  assumes "main env args sigs p = (code, p')"
  obtains (early) added where "pc_trace p' = pc_trace p @ added" "set added \<subseteq> {Printed, Eprinted, Logs_installed True, Logs_installed False}"
  | (failed) path cfg rt p1 where "load (ae_files (pv_app (me_sup env) (pc_world p))) (pv_fuel (me_sup env)) path = Inr cfg"
      "pc_trace p1 = pc_trace p @ [Logs_installed True]" "start_up env cfg rt p1 = (None, p')" "code = Some Failure"
  | (served) path cfg rt p1 p2 sv where "load (ae_files (pv_app (me_sup env) (pc_world p))) (pv_fuel (me_sup env)) path = Inr cfg"
      "pc_trace p1 = pc_trace p @ [Logs_installed True]" "pc_creds p1 = pc_creds p"
      "start_up env cfg rt p1 = (Some sv, p2)" "serve_and_stop env path cfg sigs sv p2 = (code, p')"
proof (cases "parse_cli args ''elrond.conf'' False")
  case (Run path test_only)
  let ?app = "pv_app (me_sup env) (pc_world p)"
  have run: "run_server env path test_only sigs p = (code, p')" using assms Run by (simp add: main_def)
  show thesis
  proof (cases "load (ae_files ?app) (pv_fuel (me_sup env)) path")
    case (Inl e)
    then show thesis using run early[of "[Eprinted]"] by (auto simp: run_server_def)
  next
    case (Inr cfg)
    obtain ok logs where i: "install (Option.bind (cfg_http cfg) http_access_log) (cfg_error_log cfg) (pc_logs p) = (ok, logs)" by force
    let ?p1 = "did [Logs_installed ok] (p\<lparr>pc_logs := logs\<rparr>)"
    show thesis
    proof (cases "\<not> test_only \<and> ok \<and> \<not> isl (build_runtime ?app cfg)")
      case False
      then show thesis using run Inr i
          early[of "[Eprinted]"] early[of "[Printed]"] early[of "[Logs_installed True]"] early[of "[Logs_installed False, Eprinted]"]
        by (cases "build_runtime ?app cfg"; cases test_only; cases ok) (auto simp: run_server_def Let_def)
    next
      case True
      then obtain rt where rt: "build_runtime ?app cfg = Inr rt" by (cases "build_runtime ?app cfg") auto
      obtain r p2 where s: "start_up env cfg rt ?p1 = (r, p2)" by force
      from run True Inr i rt s have r: "(code, p') = (case r of None \<Rightarrow> (Some Failure, p2) | Some sv \<Rightarrow> serve_and_stop env path cfg sigs sv p2)"
        by (auto simp: run_server_def Let_def split: option.splits)
      show thesis
      proof (cases r)
        case None
        then show thesis using failed[OF Inr, of ?p1 rt] r s True by simp
      next
        case (Some sv)
        then show thesis using served[OF Inr, of ?p1 rt sv p2] r s True by simp
      qed
    qed
  qed
qed (use assms early[of "[Printed]"] early[of "[Eprinted]"] early[of "[Eprinted, Printed]"] in \<open>auto simp: main_def\<close>)

lemma serve_trace:
  assumes "serve_and_stop env path cfg sigs sv p = (code, p')"
  obtains added where "\<And>a. a \<in> set added \<Longrightarrow> is_notice a \<or> a = Reloaded \<or> a = Logs_reopened \<or> a = Shut_down"
    "pc_trace p' = pc_trace p @ added @ (if code = None then [] else off_part (cfg_pid cfg))" "pc_creds p' = pc_creds p"
proof -
  obtain ended sv' p1 where w: "wait_for_signals env path sigs sv p = (ended, sv', p1)" using prod_cases3 by blast
  obtain added where a: "pc_trace p1 = pc_trace p @ added" "pc_creds p1 = pc_creds p"
    "\<And>a. a \<in> set added \<Longrightarrow> is_notice a \<or> a = Reloaded \<or> a = Logs_reopened" using wait_added[OF w] by metis
  show thesis
  proof (cases ended)
    case True
    have "is_notice a \<or> a = Reloaded \<or> a = Logs_reopened \<or> a = Shut_down"
      if "a \<in> set (added @ notified (notify_stopping (me_notify env)) @ [Shut_down])" for a
      using that a(3) by (auto simp: is_notice_def)
    then show thesis
      using that[of "added @ notified (notify_stopping (me_notify env)) @ [Shut_down]"] a(1,2) assms w True
      by (auto simp: serve_and_stop_def cleanup_trace)
  next
    case False
    then show thesis using that[of added] a assms w by (auto simp: serve_and_stop_def)
  qed
qed

section \<open>An example\<close>

text \<open>A process of root whose configuration names a user and a PID file; the outside is the list of the PID files present. The flags say
  whether the address is free and whether the identity can be changed.\<close>

definition demo_main :: "bool \<Rightarrow> bool \<Rightarrow> (header_list, string, string list) main_env" where
  "demo_main is_free may_drop = \<lparr>
     me_sup = \<lparr>pv_app = (\<lambda>_. demo_app_env\<lparr>ae_files := \<lparr>canonicalize = Some,
         read_to_string = (\<lambda>p. if p \<noteq> ''/m'' then None else Some ''pid /p; user www; http { server { listen 81; } }'')\<rparr>\<rparr>),
       pv_fuel = 2, pv_bind_tcp = (\<lambda>a w. (is_free, w)), pv_bind_udp = (\<lambda>a w. (is_free, w)),
       pv_quic = (\<lambda>_. True), pv_order = rev, pv_order_stream = rev\<rparr>,
     me_unix = (if may_drop then demo_unix else demo_unix\<lparr>ux_setuid := \<lambda>u c. (False, c)\<rparr>),
     me_notify = \<lparr>ne_socket = Some ''/n'', ne_unbound = True\<rparr>,
     me_write_pid = (\<lambda>f w. (True, f # w)), me_remove = (\<lambda>f w. filter (\<lambda>g. g \<noteq> f) w),
     me_ctrl_c = True, me_term = True, me_hup = True, me_usr1 = True\<rparr>"

definition demo_process :: "string list \<Rightarrow> string list process" where
  "demo_process w = \<lparr>pc_world = w, pc_creds = \<lparr>cr_uid = 0, cr_gid = 0, cr_groups = [0]\<rparr>, pc_limits = (1024, 4096),
     pc_logs = logging_init demo_log_fs, pc_trace = []\<rparr>"

lemma demo_main_runs:
  "(let (code, p) = main (demo_main True True) [''-c'', ''/m''] [Sighup, Sigterm] (demo_process []);
        (code', p') = main (demo_main False True) [''-c'', ''/m''] [] (demo_process [''/p'']);
        env = demo_main True True
    in (code, pc_trace p, code', pc_trace p', pc_world p', pc_trace (snd (main (demo_main True False) [''-c'', ''/m''] [] (demo_process []))),
        isl (read_config (pv_app (me_sup (demo_main False False)) [''/p'']) (pv_fuel (me_sup (demo_main False False))) ''/m''),
        case load (ae_files (pv_app (me_sup env) [])) (pv_fuel (me_sup env)) ''/m'' of Inr c \<Rightarrow> cfg_user c | Inl _ \<Rightarrow> None)) =
   (Some Success,
    [Logs_installed True, Pid_written ''/p'' True, Bound 1, Dropped \<lparr>ui_uid = 33, ui_gid = 34, ui_user = ''www''\<rparr>,
     Notified ''/n'' ''STATUS=ready: 1 listener(s)'', Notified ''/n'' ''READY=1'', Notified ''/n'' ''RELOADING=1'', Reloaded,
     Notified ''/n'' ''STATUS=reloaded: 1 listener(s)'', Notified ''/n'' ''READY=1'', Notified ''/n'' ''STOPPING=1'', Shut_down,
     Pid_removed ''/p''],
    Some Failure, [Logs_installed True, Pid_written ''/p'' True, Bind_failed, Pid_removed ''/p''], [],
    [Logs_installed True, Pid_written ''/p'' True, Bound 1, Drop_failed, Shut_down, Pid_removed ''/p''], False, Some ''www'')"
  by code_simp

lemma demo_main_run:
  "fst (main (demo_main True True) [''-c'', ''/m''] [Sighup, Sigterm] (demo_process [])) = Some Success"
  "Pid_written ''/p'' True \<in> set (pc_trace (snd (main (demo_main True True) [''-c'', ''/m''] [Sighup, Sigterm] (demo_process []))))"
  "Notified ''/n'' ''READY=1'' \<in> set (pc_trace (snd (main (demo_main True True) [''-c'', ''/m''] [Sighup, Sigterm] (demo_process []))))"
  "Drop_failed \<in> set (pc_trace (snd (main (demo_main True False) [''-c'', ''/m''] [] (demo_process []))))"
  using demo_main_runs by (simp_all only: Let_def case_prod_unfold prod.inject list.set insert_iff simp_thms)

lemma demo_main_config:
  "\<not> isl (read_config (pv_app (me_sup (demo_main False False)) [''/p'']) (pv_fuel (me_sup (demo_main False False))) ''/m'')"
  "(case load (ae_files (pv_app (me_sup (demo_main True True)) [])) (pv_fuel (me_sup (demo_main True True))) ''/m'' of
      Inr c \<Rightarrow> cfg_user c | Inl _ \<Rightarrow> None) = Some ''www''"
  using demo_main_runs by (simp_all only: Let_def case_prod_unfold prod.inject simp_thms)

theorem test_mode_pure_witness:
  "fst (main (demo_main False False) [''-t'', ''-c'', ''/m''] [] (demo_process [''/p''])) = Some Success"
proof -
  have "parse_cli [''-t'', ''-c'', ''/m''] ''elrond.conf'' False = Run ''/m'' True" by simp
  moreover have "\<not> isl (read_config (pv_app (me_sup (demo_main False False)) (pc_world (demo_process [''/p''])))
      (pv_fuel (me_sup (demo_main False False))) ''/m'')"
    using demo_main_config(1) by (simp add: demo_process_def)
  ultimately show ?thesis using test_mode_pure[of "[''-t'', ''-c'', ''/m'']" "''/m''" "demo_main False False" "[]" "demo_process [''/p'']"]
    by auto
qed

theorem signal_loop_exact_witness:
  "fst (wait_for_signals (demo_main True True) ''/m'' [Sigusr1, Outside [], Sigterm, Sighup] demo_sup (demo_process []))"
  using signal_loop_exact[of "demo_main True True" "''/m''" "[Sigusr1, Outside [], Sigterm, Sighup]" demo_sup "demo_process []"]
  by (simp add: demo_main_def split: prod.splits)

section \<open>Properties of a run\<close>





text \<open>A failed drop of privileges is fatal: the listeners are shut down, the process ends with a failure, and it never said it was
  ready.\<close>

theorem drop_failure_fatal:
  assumes "pc_trace p = []" and "main env args sigs p = (code, p')" and "Drop_failed \<in> set (pc_trace p')"
  shows "code = Some Failure \<and> Shut_down \<in> set (pc_trace p') \<and> \<not> list_ex is_notice (pc_trace p')"
  using assms(2)
proof (cases rule: main_cases)
  case early
  then show ?thesis using assms(1,3) by auto
next
  case (failed path cfg rt p1)
  from failed(3) show ?thesis
    by (cases rule: start_up_cases) (use assms(1,3) failed(2,4) in \<open>auto simp: part_defs is_notice_def split: option.splits\<close>)
next
  case (served path cfg rt p1 p2 sv)
  from serve_trace[OF served(5)] obtain added where a: "\<And>a. a \<in> set added \<Longrightarrow> is_notice a \<or> a = Reloaded \<or> a = Logs_reopened \<or> a = Shut_down"
    "pc_trace p' = pc_trace p2 @ added @ (if code = None then [] else off_part (cfg_pid cfg))" by metis
  have "Drop_failed \<notin> set added" using a(1)[of Drop_failed] by (auto simp: is_notice_def)
  then have "Drop_failed \<in> set (pc_trace p2)" using assms(3) a(2) by (auto simp: off_part_def split: option.splits if_splits)
  with served(4) show ?thesis
    by (cases rule: start_up_cases) (use assms(1) served(2) in \<open>auto simp: part_defs split: option.splits\<close>)
qed

theorem drop_failure_fatal_witness:
  "fst (main (demo_main True False) [''-c'', ''/m''] [] (demo_process [])) = Some Failure"
proof -
  let ?r = "main (demo_main True False) [''-c'', ''/m''] [] (demo_process [])"
  have "pc_trace (demo_process []) = []" "?r = (fst ?r, snd ?r)" by (simp_all add: demo_process_def)
  moreover note demo_main_run(4)
  ultimately show ?thesis by (blast dest: drop_failure_fatal)
qed

text \<open>A second instance takes the PID file of the first one with it. When the address is taken, the start writes its own PID over the file,
  fails to bind, and removes the file, so the running instance is left without one.\<close>

theorem failed_start_removes_pid:
  "(let (code, p) = main (demo_main False True) [''-c'', ''/m''] [] (demo_process [''/p''])
    in (code, pc_trace p, pc_world p)) =
   (Some Failure, [Logs_installed True, Pid_written ''/p'' True, Bind_failed, Pid_removed ''/p''], [])"
  using demo_main_runs by (simp only: Let_def case_prod_unfold prod.inject simp_thms)


end
