(* ===== verification/System.thy ===== *)
theory System
  imports Supervisor
begin

text \<open>
  The supervisor and the listeners it manages, put together: \<open>sys_step\<close> interleaves the reloads and the shutdown of the
  supervisor (\<^verbatim>\<open>src/src/supervisor.rs\<close>, driven by the signal loop of \<^verbatim>\<open>src/src/main.rs\<close>) with the steps of every HTTP and
  HTTP/3 listener (\<^verbatim>\<open>run\<close> of \<^verbatim>\<open>src/src/server.rs\<close> and \<^verbatim>\<open>src/src/http3.rs\<close>) in any order. What the supervisor sends arrives in the
  channels of the listeners it names: a listener is known by the generation it was started in and its address, and an HTTP/3
  listener reads the configuration channel of the HTTP listener it was started beside.

  \<open>reachable\<close> are the states after a start and any such steps. Shown here, by induction on them: the channels of a listener hold what the
  supervisor last sent; a listener that is not being closed is running, has the configuration of the current
  generation and hears every send, so the branches of the supervisor for listeners that have gone away are not taken; and
  every connection is served with a configuration of its own address, of a generation between the start of
  its listener and the present, in the order of acceptance.

  A reload is one step here. In the program a listener may act between two of its sends, but a send concerns one listener only and listeners share no channel,
  so such a run ends in the same state as one where the steps of a listener before its send come first and the others after the reload.

  Stream listeners follow the same protocol with a balancer for the configuration and are left out, as are the shared counters, which every task
  counts from zero for itself here; both are treated in \<open>Supervisor\<close> and \<open>Listener\<close>.
\<close>

section \<open>The composed system\<close>

type_synonym 'r http_task = "(nat \<times> 'r listener_cfg, server_config) listener_state"

type_synonym listener_key = "nat \<times> socket_addr"

record 'r system =
  sy_sup :: "'r supervisor"
  sy_http :: "(listener_key \<times> 'r http_task) list"
  sy_h3 :: "(listener_key \<times> 'r http_task) list"
  sy_stopping :: bool

definition hl_key :: "'r http_listener \<Rightarrow> listener_key" where
  "hl_key l = (hl_born l, hl_addr l)"

definition hq_key :: "h3_listener \<Rightarrow> listener_key" where
  "hq_key q = (hq_born q, hq_addr q)"

text \<open>The receiving ends after the supervisor has sent, or a new task with its channels.\<close>

definition deliver :: "loop_kind \<Rightarrow> 'c \<Rightarrow> 'a option \<Rightarrow> bool \<Rightarrow> ('c, 'a) listener_state option \<Rightarrow> ('c, 'a) listener_state" where
  "deliver kind cfg tls stop old =
     (case old of
        Some st \<Rightarrow> st\<lparr>ls_cfg := cfg, ls_tls := tls, ls_shutdown := stop\<rparr>
      | None \<Rightarrow> (spawn_listener kind cfg tls initial_metrics)\<lparr>ls_shutdown := stop\<rparr>)"

definition all_http :: "'r supervisor \<Rightarrow> 'r http_listener list" where
  "all_http sv = sup_http sv @ sup_closing sv"

definition sync_http :: "'r supervisor \<Rightarrow> (listener_key \<times> 'r http_task) list \<Rightarrow> (listener_key \<times> 'r http_task) list" where
  "sync_http sv tasks =
     map (\<lambda>l. (hl_key l, deliver Http_loop (hl_cfg l) (hl_tls l) (hl_shutdown l) (map_of tasks (hl_key l)))) (all_http sv)"

definition sync_h3 :: "'r supervisor \<Rightarrow> (listener_key \<times> 'r http_task) list \<Rightarrow> (listener_key \<times> 'r http_task) list" where
  "sync_h3 sv tasks =
     map (\<lambda>q. (hq_key q, deliver Quic_loop (the (h3_cfg sv q)) None (hq_shutdown q) (map_of tasks (hq_key q)))) (sup_h3 sv)"

definition set_sup :: "'r supervisor \<Rightarrow> 'r system \<Rightarrow> 'r system" where
  "set_sup sv y = y\<lparr>sy_sup := sv, sy_http := sync_http sv (sy_http y), sy_h3 := sync_h3 sv (sy_h3 y)\<rparr>"

definition sys_init :: "'r supervisor \<Rightarrow> 'r system" where
  "sys_init sv = \<lparr>sy_sup = sv, sy_http = sync_http sv [], sy_h3 = sync_h3 sv [], sy_stopping = False\<rparr>"

text \<open>The steps a listener takes by itself; the others are the supervisor's.\<close>

fun own_event :: "('c, 'a) listen_event \<Rightarrow> bool" where
  "own_event (Push_cfg c) = False"
| "own_event (Push_tls a) = False"
| "own_event (Push_shutdown b) = False"
| "own_event e = True"

inductive sys_step :: "('h, 'r, 's) sup_env \<Rightarrow> string \<Rightarrow> 'r system \<Rightarrow> 'r system \<Rightarrow> bool" for env path where
  Reload: "\<not> sy_stopping y \<Longrightarrow> sys_step env path y (set_sup (fst (reload env path (sy_sup y) s)) y)"
| Stop: "\<not> sy_stopping y \<Longrightarrow> sys_step env path y ((set_sup (sup_shutdown (sy_sup y)) y)\<lparr>sy_stopping := True\<rparr>)"
| Http: "map_of (sy_http y) k = Some st \<Longrightarrow> own_event e \<Longrightarrow> listen_step e st = Some st' \<Longrightarrow>
    sys_step env path y (y\<lparr>sy_http := AList.update k st' (sy_http y)\<rparr>)"
| H3: "map_of (sy_h3 y) k = Some st \<Longrightarrow> own_event e \<Longrightarrow> listen_step e st = Some st' \<Longrightarrow>
    sys_step env path y (y\<lparr>sy_h3 := AList.update k st' (sy_h3 y)\<rparr>)"

inductive reachable :: "('h, 'r, 's) sup_env \<Rightarrow> string \<Rightarrow> 'r system \<Rightarrow> bool" for env path where
  Start: "read_config (pv_app env s) (pv_fuel env) path = Inr rt \<Longrightarrow> sup_start env rt s = (Some sv, s') \<Longrightarrow> reachable env path (sys_init sv)"
| Step: "reachable env path y \<Longrightarrow> sys_step env path y y' \<Longrightarrow> reachable env path y'"

declare reachable.intros [intro]

section \<open>A listener's connections\<close>

text \<open>The configuration of a task is one of its address, its connections have configurations of the address that are not newer, in the order of
  acceptance and not older than the listener.\<close>

definition task_ok :: "listener_key \<Rightarrow> 'r http_task \<Rightarrow> bool" where
  "task_ok k st \<longleftrightarrow> lc_addr (snd (ls_cfg st)) = snd k \<and> fst k \<le> fst (ls_cfg st) \<and>
     (\<forall>t \<in> snd ` set (ls_tasks st). lc_addr (snd (ct_cfg t)) = snd k \<and> fst k \<le> fst (ct_cfg t) \<and> fst (ct_cfg t) \<le> fst (ls_cfg st)) \<and>
     sorted (map (fst \<circ> ct_cfg \<circ> snd) (ls_tasks st))"

lemma map_update_cfg:
  "map_of ts i = Some t \<Longrightarrow> ct_cfg u = ct_cfg t \<Longrightarrow> map (ct_cfg \<circ> snd) (AList.update i u ts) = map (ct_cfg \<circ> snd) ts"
  by (induction ts) (auto split: if_splits)

lemma map_delete_cfg: "set (map f (AList.delete i ts)) \<subseteq> set (map f ts)"
  by (auto simp: AList.delete_eq)

lemma sorted_delete: "sorted (map f ts) \<Longrightarrow> sorted (map f (AList.delete i ts))"
  unfolding AList.delete_eq by (rule sorted_filter)

lemma own_event_frame:
  assumes "own_event e" and "listen_step e st = Some st'"
  shows "ls_cfg st' = ls_cfg st \<and> ls_tls st' = ls_tls st \<and> ls_shutdown st' = ls_shutdown st \<and> ls_kind st' = ls_kind st"
  using assms by (cases e) (auto split: if_splits option.splits task_phase.splits)

text \<open>What a step of its own does to the configurations of the connections: nothing, an end, or an acceptance with the current one.\<close>

lemma own_event_cfgs:
  assumes "own_event e" and "listen_step e st = Some st'"
  obtains (same) "map (ct_cfg \<circ> snd) (ls_tasks st') = map (ct_cfg \<circ> snd) (ls_tasks st)"
  | (ended) i where "ls_tasks st' = AList.delete i (ls_tasks st)"
  | (accepted) "map (ct_cfg \<circ> snd) (ls_tasks st') = map (ct_cfg \<circ> snd) (ls_tasks st) @ [ls_cfg st]" "ls_phase st = Running"
  using assms
  by (cases e) (auto split: if_splits option.splits task_phase.splits simp: map_update_cfg)

lemma task_ok_cfgs:
  "task_ok k st \<longleftrightarrow> lc_addr (snd (ls_cfg st)) = snd k \<and> fst k \<le> fst (ls_cfg st) \<and>
     (\<forall>c \<in> set (map (ct_cfg \<circ> snd) (ls_tasks st)). lc_addr (snd c) = snd k \<and> fst k \<le> fst c \<and> fst c \<le> fst (ls_cfg st)) \<and>
     sorted (map fst (map (ct_cfg \<circ> snd) (ls_tasks st)))"
  by (auto simp: task_ok_def comp_assoc)

lemma task_ok_step:
  assumes "task_ok k st" and "own_event e" and "listen_step e st = Some st'"
  shows "task_ok k st'"
proof -
  note frame = own_event_frame[OF assms(2,3)]
  show ?thesis using assms(2,3)
  proof (cases rule: own_event_cfgs)
    case same
    then show ?thesis using assms(1) frame unfolding task_ok_cfgs by simp
  next
    case (ended i)
    then show ?thesis using assms(1) frame sorted_delete[of "fst \<circ> ct_cfg \<circ> snd"] unfolding task_ok_def
      by (auto simp: AList.delete_eq)
  next
    case accepted
    then show ?thesis using assms(1) frame unfolding task_ok_cfgs by (auto simp: sorted_append)
  qed
qed

lemma task_ok_deliver:
  assumes "case old of Some st \<Rightarrow> task_ok k st \<and> fst (ls_cfg st) \<le> fst cfg | None \<Rightarrow> fst k \<le> fst cfg"
    and "lc_addr (snd cfg) = snd k"
  shows "task_ok k (deliver kind cfg tls stop old)"
  using assms by (force simp: task_ok_def deliver_def spawn_listener_def split: option.splits)

lemma deliver_channels:
  "ls_cfg (deliver kind cfg tls stop old) = cfg" "ls_tls (deliver kind cfg tls stop old) = tls"
  "ls_shutdown (deliver kind cfg tls stop old) = stop"
  "ls_phase (deliver kind cfg tls stop old) = (case old of Some st \<Rightarrow> ls_phase st | None \<Rightarrow> Running)"
  "ls_kind (deliver kind cfg tls stop old) = (case old of Some st \<Rightarrow> ls_kind st | None \<Rightarrow> kind)"
  by (auto simp: deliver_def spawn_listener_def split: option.splits)

section \<open>The supervisor's side\<close>

definition sup_ok :: "'r supervisor \<Rightarrow> bool" where
  "sup_ok sv \<longleftrightarrow> distinct (map hl_addr (sup_http sv)) \<and> distinct (map hl_key (all_http sv)) \<and>
     (\<forall>l \<in> set (all_http sv). hl_born l \<le> fst (hl_cfg l) \<and> fst (hl_cfg l) \<le> sup_generation sv \<and> lc_addr (snd (hl_cfg l)) = hl_addr l) \<and>
     (\<forall>l \<in> set (sup_http sv). hl_cfg_live l \<and> hl_tls_live l \<and> fst (hl_cfg l) = sup_generation sv) \<and>
     list_all hl_shutdown (sup_closing sv) \<and>
     hq_key ` set (sup_h3 sv) \<subseteq> hl_key ` set (all_http sv) \<and> distinct (map hq_key (sup_h3 sv))"

text \<open>How a supervisor may change: listeners come in under new keys and stay under theirs, with configurations that do not get older;
  nobody takes a shutdown back.\<close>

definition evolves :: "'r supervisor \<Rightarrow> 'r supervisor \<Rightarrow> bool" where
  "evolves sv sv' \<longleftrightarrow>
     (\<forall>l' \<in> set (all_http sv'). hl_key l' \<notin> hl_key ` set (all_http sv) \<or>
        (\<exists>l \<in> set (all_http sv). hl_key l = hl_key l' \<and> fst (hl_cfg l) \<le> fst (hl_cfg l') \<and> (hl_shutdown l \<longrightarrow> hl_shutdown l')))"

lemma map_of_keyed: "distinct (map k xs) \<Longrightarrow> x \<in> set xs \<Longrightarrow> map_of (map (\<lambda>x. (k x, v x)) xs) (k x) = Some (v x)"
  by (induction xs) (auto simp: image_iff)

lemma distinct_key_eq: "distinct (map k xs) \<Longrightarrow> x \<in> set xs \<Longrightarrow> y \<in> set xs \<Longrightarrow> k x = k y \<Longrightarrow> x = y"
  by (auto simp: distinct_map inj_on_def)

lemma h3_cfg_key:
  assumes "distinct (map hl_key (all_http sv))" and "l \<in> set (all_http sv)" and "hq_key q = hl_key l"
  shows "h3_cfg sv q = Some (hl_cfg l)"
proof -
  have "find (\<lambda>l. hl_addr l = hq_addr q \<and> hl_born l = hq_born q) (all_http sv) = Some l"
  proof (rule ccontr)
    assume "\<not> ?thesis"
    then obtain l' where "find (\<lambda>l. hl_addr l = hq_addr q \<and> hl_born l = hq_born q) (all_http sv) = Some l'" "l' \<noteq> l"
      using assms(2,3) by (cases "find (\<lambda>l. hl_addr l = hq_addr q \<and> hl_born l = hq_born q) (all_http sv)")
        (auto simp: find_None_prop hl_key_def hq_key_def)
    then have "l' \<in> set (all_http sv)" "hl_key l = hl_key l'"
      using assms(3) by (auto simp: find_Some_iff hl_key_def hq_key_def)
    then show False using distinct_key_eq[OF assms(1,2)] \<open>l' \<noteq> l\<close> by blast
  qed
  then show ?thesis by (simp add: h3_cfg_def all_http_def)
qed

lemma push_http_live:
  assumes "hl_cfg_live l" and "hl_tls_live l"
  shows "hl_cfg (push_http g cfg l) = (g, cfg)" "hl_key (push_http g cfg l) = hl_key l" "hl_shutdown (push_http g cfg l) = hl_shutdown l"
    "hl_cfg_live (push_http g cfg l)" "hl_tls_live (push_http g cfg l)" "hl_born (push_http g cfg l) = hl_born l"
  using assms by (auto simp: push_http_def hl_key_def Let_def split: option.splits)

lemma closed_keys: "map hl_key (closed_http new ls) = map hl_key (filter (\<lambda>l. hl_addr l \<notin> lc_addr ` set new) ls)"
  by (simp add: closed_http_def hl_key_def comp_def)

lemma kept_keys:
  assumes "\<And>l. l \<in> set ls \<Longrightarrow> hl_cfg_live l \<and> hl_tls_live l"
  shows "map hl_key (kept_http g new ls) = map hl_key (filter (\<lambda>l. hl_addr l \<in> lc_addr ` set new) ls)"
  using assms by (auto simp: kept_http_def push_http_live)

text \<open>A member of the kept listeners, with the configuration it was sent.\<close>

lemma kept_member:
  assumes "l' \<in> set (kept_http g new ls)"
  obtains l cfg where "l \<in> set ls" "hl_addr l = lc_addr cfg" "cfg \<in> set new" "l' = push_http g cfg l"
proof -
  obtain l where l: "l \<in> set ls" "hl_addr l \<in> lc_addr ` set new" "l' = push_http g (the (map_of (wanted_http new) (hl_addr l))) l"
    using assms by (auto simp: kept_http_def)
  then have "hl_addr l \<in> fst ` set (wanted_http new)" by (simp add: wanted_http_laws(2))
  then obtain cfg where "map_of (wanted_http new) (hl_addr l) = Some cfg" by (metis dom_map_of_conv_image_fst domD)
  with that[OF l(1), of cfg] l(3) wanted_http_laws(3)[OF map_of_SomeD[OF this]] show thesis by simp
qed

lemma fresh_key: "hl_key (fresh_http g c) = (g, lc_addr c)" by (simp add: hl_key_def fresh_http_def)

lemma split_keys:
  "mset (map k (filter P xs)) + mset (map k (filter (\<lambda>x. \<not> P x) xs)) = mset (map k xs)"
  by (induction xs) auto

lemma all_http_mset:
  assumes "sup_http sv' = kept_http g new (sup_http sv) @ map (fresh_http g) started"
    and "sup_closing sv' = sup_closing sv @ closed_http new (sup_http sv)"
    and "\<And>l. l \<in> set (sup_http sv) \<Longrightarrow> hl_cfg_live l \<and> hl_tls_live l"
  shows "mset (map hl_key (all_http sv')) = mset (map hl_key (all_http sv)) + mset (map (\<lambda>c. (g, lc_addr c)) started)"
  using split_keys[of hl_key "\<lambda>l. hl_addr l \<in> lc_addr ` set new" "sup_http sv"]
  by (simp add: all_http_def assms(1,2) kept_keys[OF assms(3)] closed_keys fresh_key comp_def flip: mset_map)

text \<open>What a reload that read its file leaves: the listeners that were kept and those that started, the closed ones with those that were
  closing before.\<close>

definition reloaded :: "'r supervisor \<Rightarrow> 'r listener_cfg list \<Rightarrow> 'r listener_cfg list \<Rightarrow> 'r supervisor \<Rightarrow> bool" where
  "reloaded sv new started sv' \<longleftrightarrow>
     (let g = sup_generation sv + 1
      in sup_generation sv' = g \<and> sup_http sv' = kept_http g new (sup_http sv) @ map (fresh_http g) started \<and>
         sup_closing sv' = sup_closing sv @ closed_http new (sup_http sv) \<and> sup_h3 sv' = sup_h3 sv \<and>
         distinct (map lc_addr started) \<and> lc_addr ` set started \<inter> hl_addr ` set (sup_http sv) = {})"

lemma reload_shape:
  assumes "sup_ok sv" and "\<And>m. mset (pv_order env m) = mset m"
  shows "fst (reload env path sv s) = sv \<or> (\<exists>new started. reloaded sv new started (fst (reload env path sv s)))"
proof (cases "read_config (pv_app env s) (pv_fuel env) path")
  case (Inr rt)
  let ?g = "sup_generation sv + 1"
  obtain started where "fst (reload_http env ?g (rt_listeners rt) (sv\<lparr>sup_generation := ?g\<rparr>) s) = sv\<lparr>sup_generation := ?g,
       sup_http := kept_http ?g (rt_listeners rt) (sup_http sv) @ map (fresh_http ?g) started,
       sup_closing := sup_closing sv @ closed_http (rt_listeners rt) (sup_http sv)\<rparr>"
    and "distinct (map lc_addr started)" "lc_addr ` set started \<inter> hl_addr ` set (sup_http sv) = {}"
    using reload_http_shape[of "sv\<lparr>sup_generation := ?g\<rparr>" env ?g "rt_listeners rt" s] assms by (auto simp: sup_ok_def)
  then have "reloaded sv (rt_listeners rt) started (fst (reload env path sv s))"
    using Inr by (auto simp: reloaded_def reload_def reload_stream_def Let_def split: prod.splits)
  then show ?thesis by blast
qed (simp add: reload_def)

lemma sup_okD:
  assumes "sup_ok sv"
  shows "distinct (map hl_addr (sup_http sv))" "distinct (map hl_key (all_http sv))"
    "\<And>l. l \<in> set (sup_http sv) \<Longrightarrow> hl_cfg_live l \<and> hl_tls_live l"
    "\<And>l. l \<in> set (all_http sv) \<Longrightarrow> hl_born l \<le> fst (hl_cfg l) \<and> fst (hl_cfg l) \<le> sup_generation sv \<and> lc_addr (snd (hl_cfg l)) = hl_addr l"
    "list_all hl_shutdown (sup_closing sv)"
    "hq_key ` set (sup_h3 sv) \<subseteq> hl_key ` set (all_http sv)" "distinct (map hq_key (sup_h3 sv))"
  using assms by (auto simp: sup_ok_def)

lemma new_keys:
  assumes "sup_ok sv"
  shows "(sup_generation sv + 1, a) \<notin> hl_key ` set (all_http sv)"
  using sup_okD(4)[OF assms] by (force simp: hl_key_def)

lemma reloaded_keys:
  assumes ok: "sup_ok sv" and "reloaded sv new started sv'"
  shows "distinct (map hl_key (all_http sv'))" "hl_key ` set (all_http sv) \<subseteq> hl_key ` set (all_http sv')"
    "distinct (map hl_addr (sup_http sv'))"
proof -
  let ?g = "sup_generation sv + 1"
  have sv': "sup_http sv' = kept_http ?g new (sup_http sv) @ map (fresh_http ?g) started"
    "sup_closing sv' = sup_closing sv @ closed_http new (sup_http sv)"
    and st: "distinct (map lc_addr started)" "lc_addr ` set started \<inter> hl_addr ` set (sup_http sv) = {}"
    using assms(2) by (auto simp: reloaded_def Let_def)
  note keys' = all_http_mset[OF sv' sup_okD(3)[OF ok]]
  have "distinct (map hl_key (all_http sv) @ map (\<lambda>c. (?g, lc_addr c)) started)"
    using sup_okD(2)[OF ok] st(1) new_keys[OF ok] by (auto simp: distinct_map inj_on_def)
  then show "distinct (map hl_key (all_http sv'))" using keys' by (metis mset_append mset_eq_imp_distinct_iff)
  show "hl_key ` set (all_http sv) \<subseteq> hl_key ` set (all_http sv')" using arg_cong[OF keys', of set_mset] by auto
  have "map hl_addr (kept_http ?g new (sup_http sv)) = map hl_addr (filter (\<lambda>l. hl_addr l \<in> lc_addr ` set new) (sup_http sv))"
    by (simp add: kept_http_def http_keep.push_addr comp_def)
  then show "distinct (map hl_addr (sup_http sv'))" using sup_okD(1)[OF ok] st by (auto simp: sv'(1) fresh_http_def comp_def distinct_map_filter)
qed

text \<open>A listener after the reload was there before, and then it has not gone back, or it is new.\<close>

lemma reloaded_member:
  assumes ok: "sup_ok sv" and r: "reloaded sv new started sv'" and "l' \<in> set (all_http sv')"
  obtains (old) l where "l \<in> set (all_http sv)" "hl_key l = hl_key l'" "fst (hl_cfg l) \<le> fst (hl_cfg l')" "hl_shutdown l \<longrightarrow> hl_shutdown l'"
      "hl_born l' \<le> fst (hl_cfg l')" "fst (hl_cfg l') \<le> sup_generation sv + 1" "lc_addr (snd (hl_cfg l')) = hl_addr l'"
  | (new) c where "l' = fresh_http (sup_generation sv + 1) c"
proof -
  let ?g = "sup_generation sv + 1"
  note past = sup_okD(4)[OF ok]
  from assms(3) r consider (kept) "l' \<in> set (kept_http ?g new (sup_http sv))" | (fresh) c where "l' = fresh_http ?g c"
    | (closing) "l' \<in> set (sup_closing sv)" | (shut) "l' \<in> set (closed_http new (sup_http sv))"
    by (auto simp: all_http_def reloaded_def Let_def)
  then show thesis
  proof cases
    case kept
    then obtain l cfg where l: "l \<in> set (sup_http sv)" "hl_addr l = lc_addr cfg" "l' = push_http ?g cfg l" by (rule kept_member)
    then have "l \<in> set (all_http sv)" by (simp add: all_http_def)
    then show ?thesis using l past[of l] sup_okD(3)[OF ok l(1)] that(1)[of l] by (simp add: push_http_live http_keep.push_addr)
  next
    case fresh
    then show ?thesis by (rule that(2))
  next
    case closing
    then show ?thesis using past[of l'] that(1)[of l'] by (simp add: all_http_def)
  next
    case shut
    then obtain l where "l \<in> set (sup_http sv)" "l' = l\<lparr>hl_shutdown := True\<rparr>" by (auto simp: closed_http_def)
    then show ?thesis using past[of l] that(1)[of l] by (simp add: all_http_def hl_key_def)
  qed
qed

lemma reloaded_current:
  assumes ok: "sup_ok sv" and r: "reloaded sv new started sv'" and "l' \<in> set (sup_http sv')"
  shows "hl_cfg_live l' \<and> hl_tls_live l' \<and> fst (hl_cfg l') = sup_generation sv + 1 \<and> (hl_shutdown l' \<longrightarrow> (\<exists>l \<in> set (sup_http sv). hl_shutdown l))"
  using assms(3) sup_okD(3)[OF ok] r
  by (auto simp: reloaded_def Let_def fresh_http_def push_http_live elim!: kept_member)

lemma reloaded_ok:
  assumes ok: "sup_ok sv" and r: "reloaded sv new started sv'"
  shows "sup_ok sv'"
proof -
  have sv': "sup_generation sv' = sup_generation sv + 1" "sup_h3 sv' = sup_h3 sv"
    "sup_closing sv' = sup_closing sv @ closed_http new (sup_http sv)" using r by (auto simp: reloaded_def Let_def)
  have "hl_born l' \<le> fst (hl_cfg l') \<and> fst (hl_cfg l') \<le> sup_generation sv + 1 \<and> lc_addr (snd (hl_cfg l')) = hl_addr l'"
    if "l' \<in> set (all_http sv')" for l'
    using ok r that by (cases rule: reloaded_member) (simp_all add: fresh_http_def)
  moreover have "list_all hl_shutdown (sup_closing sv')" using sup_okD(5)[OF ok] by (auto simp: sv'(3) closed_http_def list_all_iff)
  ultimately show ?thesis unfolding sup_ok_def sv'(1,2)
    using reloaded_keys[OF ok r] reloaded_current[OF ok r] sup_okD(6,7)[OF ok] by auto
qed

lemma reloaded_evolves:
  assumes ok: "sup_ok sv" and r: "reloaded sv new started sv'"
  shows "evolves sv sv'"
  unfolding evolves_def
proof
  fix l' assume "l' \<in> set (all_http sv')"
  with ok r show "hl_key l' \<notin> hl_key ` set (all_http sv) \<or>
      (\<exists>l \<in> set (all_http sv). hl_key l = hl_key l' \<and> fst (hl_cfg l) \<le> fst (hl_cfg l') \<and> (hl_shutdown l \<longrightarrow> hl_shutdown l'))"
  proof (cases rule: reloaded_member)
    case (new c)
    then show ?thesis using new_keys[OF ok, of "lc_addr c"] by (simp add: fresh_key)
  qed blast
qed

lemma reload_evolves:
  assumes ok: "sup_ok sv" and order: "\<And>m. mset (pv_order env m) = mset m" and sv'_def: "sv' = fst (reload env path sv s)"
  shows "sup_ok sv' \<and> evolves sv sv' \<and> sup_h3 sv' = sup_h3 sv \<and>
    (\<forall>l' \<in> set (sup_http sv'). hl_shutdown l' \<longrightarrow> (\<exists>l \<in> set (sup_http sv). hl_shutdown l))"
  using reload_shape[OF ok order, of path s] unfolding sv'_def[symmetric]
proof
  assume "sv' = sv"
  then show ?thesis using ok by (auto simp: evolves_def)
next
  assume "\<exists>new started. reloaded sv new started sv'"
  then obtain new started where r: "reloaded sv new started sv'" by blast
  then have "sup_h3 sv' = sup_h3 sv" by (simp add: reloaded_def Let_def)
  then show ?thesis using reloaded_ok[OF ok r] reloaded_evolves[OF ok r] reloaded_current[OF ok r] by blast
qed

lemma shutdown_evolves:
  assumes "sup_ok sv"
  shows "sup_ok (sup_shutdown sv) \<and> evolves sv (sup_shutdown sv)"
proof -
  have "map hl_key (all_http (sup_shutdown sv)) = map hl_key (all_http sv)" "map hl_addr (sup_http (sup_shutdown sv)) = map hl_addr (sup_http sv)"
    "map hq_key (sup_h3 (sup_shutdown sv)) = map hq_key (sup_h3 sv)"
    by (simp_all add: all_http_def sup_shutdown_def hl_key_def hq_key_def comp_def)
  note same = this this[THEN arg_cong[of _ _ set], simplified]
  have member: "\<exists>l \<in> set (all_http sv). hl_key l = hl_key l' \<and> hl_cfg l = hl_cfg l' \<and> (hl_shutdown l \<longrightarrow> hl_shutdown l')"
    if "l' \<in> set (all_http (sup_shutdown sv))" for l'
    using that by (force simp: all_http_def sup_shutdown_def hl_key_def)
  then have "evolves sv (sup_shutdown sv)" unfolding evolves_def by (metis order_refl)
  moreover have "sup_ok (sup_shutdown sv)" using assms member unfolding sup_ok_def same
    by (fastforce simp: sup_shutdown_def hl_key_def)
  ultimately show ?thesis by blast
qed

lemma start_listeners:
  assumes "sup_start env rt s = (Some sv, s')"
  shows "sup_http sv = map (fresh_http 0) (rt_listeners rt)" "sup_closing sv = []" "sup_generation sv = 0"
    "sup_h3 sv = List.map_filter (\<lambda>l. spawn_h3 env 0 (snd (hl_cfg l))) (map (fresh_http 0) (rt_listeners rt))"
proof -
  have "http = map (fresh_http 0) xs" if "fst (spawn_all (spawn_http env 0) xs s) = Some http" for xs s http
    using that
  proof (induction xs arbitrary: s http)
    case (Cons x xs)
    obtain l s1 ls s2 where f: "spawn_http env 0 x s = (l, s1)" "spawn_all (spawn_http env 0) xs s1 = (ls, s2)" by force
    then show ?case using Cons.prems Cons.IH[of s1] spawn_http_answer[of env 0 x s] by (auto split: option.splits if_splits)
  qed simp
  from this[of "rt_listeners rt" s] assms
  show "sup_http sv = map (fresh_http 0) (rt_listeners rt)" "sup_closing sv = []" "sup_generation sv = 0"
    "sup_h3 sv = List.map_filter (\<lambda>l. spawn_h3 env 0 (snd (hl_cfg l))) (map (fresh_http 0) (rt_listeners rt))"
    by (auto simp: sup_start_def split: prod.splits option.splits)
qed

lemma start_ok:
  assumes "read_config app fuel path = Inr rt" and "sup_start env rt s = (Some sv, s')"
  shows "sup_ok sv \<and> list_all (Not \<circ> hl_shutdown) (sup_http sv) \<and> list_all (Not \<circ> hq_shutdown) (sup_h3 sv)"
proof -
  have "distinct (map lc_addr (rt_listeners rt))"
    using assms(1) build_addrs by (auto simp: read_config_def and_then_Inr_iff map_err_def split: sum.splits)
  then have "inj_on lc_addr (set (rt_listeners rt))" "distinct (rt_listeners rt)" by (auto simp: distinct_map)
  moreover note sv = start_listeners[OF assms(2)]
  have h3: "map hq_key (List.map_filter (\<lambda>l. spawn_h3 env 0 (snd (hl_cfg l))) (map (fresh_http 0) xs)) =
      map (\<lambda>c. (0, lc_addr c)) (filter (\<lambda>c. spawn_h3 env 0 c \<noteq> None) xs)" for xs
    by (induction xs) (auto simp: map_filter_simps fresh_http_def hq_key_def spawn_h3_def split: option.splits if_splits)
  have "hl_key \<circ> fresh_http 0 = (\<lambda>c. (0, lc_addr c))" by (auto simp: fresh_key)
  ultimately have "sup_ok sv"
    using arg_cong[OF h3[of "rt_listeners rt"], of set] arg_cong[OF h3[of "rt_listeners rt"], of distinct]
    unfolding sup_ok_def all_http_def sv
    by (auto simp: fresh_http_def distinct_map inj_on_def comp_def image_image hl_key_def)
  moreover have "list_all (Not \<circ> hq_shutdown) (sup_h3 sv)"
    unfolding sv by (auto simp: list_all_iff map_filter_def spawn_h3_def split: option.splits if_splits)
  ultimately show ?thesis unfolding sv by (simp add: fresh_http_def list_all_iff)
qed

section \<open>The invariant of the system\<close>

definition http_task_ok :: "'r http_listener \<Rightarrow> 'r http_task \<Rightarrow> bool" where
  "http_task_ok l st \<longleftrightarrow> task_ok (hl_key l) st \<and> ls_kind st = Http_loop \<and>
     ls_cfg st = hl_cfg l \<and> ls_tls st = hl_tls l \<and> ls_shutdown st = hl_shutdown l \<and> (ls_phase st \<noteq> Running \<longrightarrow> hl_shutdown l)"

definition h3_task_ok :: "'r supervisor \<Rightarrow> h3_listener \<Rightarrow> 'r http_task \<Rightarrow> bool" where
  "h3_task_ok sv q st \<longleftrightarrow> task_ok (hq_key q) st \<and> ls_kind st = Quic_loop \<and> h3_cfg sv q = Some (ls_cfg st) \<and> ls_shutdown st = hq_shutdown q"

definition sys_ok :: "'r system \<Rightarrow> bool" where
  "sys_ok y \<longleftrightarrow> sup_ok (sy_sup y) \<and>
     map fst (sy_http y) = map hl_key (all_http (sy_sup y)) \<and> map fst (sy_h3 y) = map hq_key (sup_h3 (sy_sup y)) \<and>
     (\<forall>l \<in> set (all_http (sy_sup y)). \<exists>st. map_of (sy_http y) (hl_key l) = Some st \<and> http_task_ok l st) \<and>
     (\<forall>q \<in> set (sup_h3 (sy_sup y)). \<exists>st. map_of (sy_h3 y) (hq_key q) = Some st \<and> h3_task_ok (sy_sup y) q st) \<and>
     (\<forall>l \<in> set (sup_http (sy_sup y)). hl_shutdown l = sy_stopping y) \<and> (\<forall>q \<in> set (sup_h3 (sy_sup y)). hq_shutdown q = sy_stopping y)"

lemma sys_ok_http: "sys_ok y \<Longrightarrow> l \<in> set (all_http (sy_sup y)) \<Longrightarrow> \<exists>st. map_of (sy_http y) (hl_key l) = Some st \<and> http_task_ok l st"
  by (simp add: sys_ok_def)

lemma sys_ok_h3: "sys_ok y \<Longrightarrow> q \<in> set (sup_h3 (sy_sup y)) \<Longrightarrow> \<exists>st. map_of (sy_h3 y) (hq_key q) = Some st \<and> h3_task_ok (sy_sup y) q st"
  by (simp add: sys_ok_def)

text \<open>What a send of the supervisor leaves with a listener, which it may have just started.\<close>

lemma http_delivered:
  assumes "sys_ok y" and "sup_ok sv" and "evolves (sy_sup y) sv" and "l \<in> set (all_http sv)"
  shows "http_task_ok l (deliver Http_loop (hl_cfg l) (hl_tls l) (hl_shutdown l) (map_of (sy_http y) (hl_key l)))"
proof -
  have keys: "fst ` set (sy_http y) = hl_key ` set (all_http (sy_sup y))" using assms(1) by (metis sys_ok_def set_map)
  have l: "hl_born l \<le> fst (hl_cfg l)" "lc_addr (snd (hl_cfg l)) = snd (hl_key l)" "fst (hl_key l) = hl_born l"
    using assms(2,4) by (auto simp: sup_ok_def hl_key_def)
  show ?thesis
  proof (cases "hl_key l \<in> hl_key ` set (all_http (sy_sup y))")
    case False
    then have "map_of (sy_http y) (hl_key l) = None" by (simp add: map_of_eq_None_iff keys)
    with l show ?thesis by (simp add: http_task_ok_def deliver_channels task_ok_deliver)
  next
    case True
    then obtain l0 where l0: "l0 \<in> set (all_http (sy_sup y))" "hl_key l0 = hl_key l" "fst (hl_cfg l0) \<le> fst (hl_cfg l)"
        "hl_shutdown l0 \<longrightarrow> hl_shutdown l"
      using assms(3,4) unfolding evolves_def by blast
    then obtain st where "map_of (sy_http y) (hl_key l) = Some st" "http_task_ok l0 st" using sys_ok_http[OF assms(1) l0(1)] by auto
    then show ?thesis using l l0(2-4) task_ok_deliver[where old = "Some st" and k = "hl_key l" and cfg = "hl_cfg l"]
      by (auto simp: http_task_ok_def deliver_channels)
  qed
qed

lemma h3_delivered:
  assumes "sys_ok y" and "sup_ok sv" and "evolves (sy_sup y) sv" and "q \<in> set (sup_h3 sv)"
  shows "h3_task_ok sv q (deliver Quic_loop (the (h3_cfg sv q)) None (hq_shutdown q) (map_of (sy_h3 y) (hq_key q)))"
proof -
  have keys: "fst ` set (sy_h3 y) = hq_key ` set (sup_h3 (sy_sup y))" using assms(1) by (metis sys_ok_def set_map)
  have "hq_key q \<in> hl_key ` set (all_http sv)" using assms(2,4) by (simp add: sup_ok_def image_subset_iff)
  then obtain l where l: "l \<in> set (all_http sv)" "hq_key q = hl_key l" by blast
  then have cfg: "h3_cfg sv q = Some (hl_cfg l)" using h3_cfg_key assms(2) unfolding sup_ok_def by blast
  have lk: "fst (hl_key l) \<le> fst (hl_cfg l)" "lc_addr (snd (hl_cfg l)) = snd (hl_key l)"
    using assms(2) l(1) by (auto simp: sup_ok_def hl_key_def)
  show ?thesis
  proof (cases "map_of (sy_h3 y) (hq_key q)")
    case None
    with lk l cfg show ?thesis by (simp add: h3_task_ok_def deliver_channels task_ok_deliver)
  next
    case (Some st)
    then have "hq_key q \<in> hq_key ` set (sup_h3 (sy_sup y))" using keys by (force dest: map_of_SomeD)
    then obtain q0 where q0: "q0 \<in> set (sup_h3 (sy_sup y))" "hq_key q0 = hq_key q" by force
    then have st: "h3_task_ok (sy_sup y) q0 st" using sys_ok_h3[OF assms(1) q0(1)] Some by auto
    have ok: "distinct (map hl_key (all_http (sy_sup y)))" "hq_key ` set (sup_h3 (sy_sup y)) \<subseteq> hl_key ` set (all_http (sy_sup y))"
      using assms(1) by (simp_all add: sys_ok_def sup_ok_def)
    then have "hl_key l \<in> hl_key ` set (all_http (sy_sup y))" using q0 l(2) by force
    then obtain l0 where l0: "l0 \<in> set (all_http (sy_sup y))" "hl_key l0 = hl_key l" "fst (hl_cfg l0) \<le> fst (hl_cfg l)"
      using assms(3) l(1) unfolding evolves_def by blast
    then have "h3_cfg (sy_sup y) q0 = Some (hl_cfg l0)" using h3_cfg_key[OF ok(1)] q0(2) l(2) by simp
    then show ?thesis using st q0(2) l0(3) lk l(2) cfg Some task_ok_deliver[where old = "Some st" and k = "hl_key l" and cfg = "hl_cfg l"]
      by (auto simp: h3_task_ok_def deliver_channels)
  qed
qed

lemma set_sup_ok:
  assumes "sys_ok y" and "sup_ok sv" and "evolves (sy_sup y) sv"
    and "\<forall>l \<in> set (sup_http sv). hl_shutdown l = b" and "\<forall>q \<in> set (sup_h3 sv). hq_shutdown q = b"
  shows "sys_ok ((set_sup sv y)\<lparr>sy_stopping := b\<rparr>)"
proof -
  have "distinct (map hl_key (all_http sv))" "distinct (map hq_key (sup_h3 sv))" using assms(2) by (auto simp: sup_ok_def)
  note at = this[THEN map_of_keyed]
  show ?thesis using assms(2,4,5) http_delivered[OF assms(1-3)] h3_delivered[OF assms(1-3)]
    unfolding sys_ok_def by (simp add: set_sup_def sync_http_def sync_h3_def at comp_def del: map_of_eq_Some_iff)
qed

text \<open>A step of its own: only a listener that was told to may leave its loop.\<close>

lemma own_event_phase:
  assumes "own_event e" and "listen_step e st = Some st'" and "ls_phase st' \<noteq> Running" and "ls_kind st = Http_loop"
  shows "ls_phase st \<noteq> Running \<or> ls_shutdown st"
  using assms by (cases e) (auto split: if_splits option.splits task_phase.splits)

lemma http_task_ok_step:
  assumes "http_task_ok l st" and "own_event e" and "listen_step e st = Some st'"
  shows "http_task_ok l st'"
  using assms(1) own_event_frame[OF assms(2,3)] own_event_phase[OF assms(2,3)] task_ok_step[OF _ assms(2,3)]
  by (auto simp: http_task_ok_def)

lemma h3_task_ok_step:
  assumes "h3_task_ok sv q st" and "own_event e" and "listen_step e st = Some st'"
  shows "h3_task_ok sv q st'"
  using assms(1) own_event_frame[OF assms(2,3)] task_ok_step[OF _ assms(2,3)] by (auto simp: h3_task_ok_def)

lemma update_keys_same: "map_of xs k = Some v \<Longrightarrow> map fst (AList.update k w xs) = map fst xs"
  by (simp add: update_keys) (metis domI dom_map_of_conv_image_fst)

lemma sys_step_ok:
  assumes "sys_step env path y y'" and "sys_ok y" and order: "\<And>m. mset (pv_order env m) = mset m"
  shows "sys_ok y'"
  using assms(1)
proof cases
  case (Reload s)
  have "sup_ok (sy_sup y)" using assms(2) by (simp add: sys_ok_def)
  note ev = reload_evolves[OF this order refl, of path s]
  have "sys_ok ((set_sup (fst (reload env path (sy_sup y) s)) y)\<lparr>sy_stopping := False\<rparr>)"
    using ev assms(2) Reload(2) unfolding sys_ok_def[of y] by (intro set_sup_ok[OF assms(2)]) auto
  moreover have "y'\<lparr>sy_stopping := False\<rparr> = y'" using Reload by (simp add: set_sup_def)
  ultimately show ?thesis by (simp add: Reload(1))
next
  case Stop
  have "sup_ok (sy_sup y)" using assms(2) by (simp add: sys_ok_def)
  from shutdown_evolves[OF this] show ?thesis
    unfolding Stop by (intro set_sup_ok[OF assms(2)]) (auto simp: sup_shutdown_def)
next
  case (Http k st e st')
  have "\<exists>st2. map_of (AList.update k st' (sy_http y)) (hl_key l) = Some st2 \<and> http_task_ok l st2"
    if in_sup: "l \<in> set (all_http (sy_sup y))" for l
  proof -
    obtain st1 where "map_of (sy_http y) (hl_key l) = Some st1" "http_task_ok l st1" using sys_ok_http[OF assms(2) in_sup] by blast
    then show ?thesis using http_task_ok_step[OF _ Http(3,4)] Http(2) by (auto simp: update_conv)
  qed
  then show ?thesis using assms(2) update_keys_same[OF Http(2)] by (simp add: Http(1) sys_ok_def)
next
  case (H3 k st e st')
  have "\<exists>st2. map_of (AList.update k st' (sy_h3 y)) (hq_key q) = Some st2 \<and> h3_task_ok (sy_sup y) q st2"
    if in_sup: "q \<in> set (sup_h3 (sy_sup y))" for q
  proof -
    obtain st1 where "map_of (sy_h3 y) (hq_key q) = Some st1" "h3_task_ok (sy_sup y) q st1" using sys_ok_h3[OF assms(2) in_sup] by blast
    then show ?thesis using h3_task_ok_step[OF _ H3(3,4)] H3(2) by (auto simp: update_conv)
  qed
  then show ?thesis using assms(2) update_keys_same[OF H3(2)] by (simp add: H3(1) sys_ok_def)
qed

lemma start_sys_ok:
  assumes "read_config app fuel path = Inr rt" and "sup_start env rt s = (Some sv, s')"
  shows "sys_ok (sys_init sv)"
proof -
  let ?none = "\<lparr>sup_generation = 0, sup_http = [], sup_stream = [], sup_h3 = [], sup_closing = [], sup_closing_stream = []\<rparr>"
  let ?y = "\<lparr>sy_sup = ?none, sy_http = [], sy_h3 = [], sy_stopping = False\<rparr>"
  have "sys_ok ?y" "evolves (sy_sup ?y) sv" by (simp_all add: sys_ok_def sup_ok_def all_http_def evolves_def)
  moreover have "sys_init sv = (set_sup sv ?y)\<lparr>sy_stopping := False\<rparr>" by (simp add: sys_init_def set_sup_def)
  ultimately show ?thesis using set_sup_ok[of ?y sv False] start_ok[OF assms] by (simp add: list_all_iff)
qed

lemma reachable_ok:
  assumes "reachable env path y" and "\<And>m. mset (pv_order env m) = mset m"
  shows "sys_ok y"
  using assms(1) by induction (auto intro: start_sys_ok sys_step_ok assms(2))

lemma serves_running:
  assumes "sys_ok y" and "\<not> sy_stopping y" and "l \<in> set (sup_http (sy_sup y))"
  obtains st where "map_of (sy_http y) (hl_key l) = Some st" "http_task_ok l st" "ls_phase st = Running"
proof -
  have "\<not> hl_shutdown l" "l \<in> set (all_http (sy_sup y))" using assms by (auto simp: sys_ok_def all_http_def)
  then show thesis using that sys_ok_http[OF assms(1)] by (auto simp: http_task_ok_def)
qed

text \<open>Every task belongs to a listener, an HTTP/3 task to the HTTP listener it was started beside.\<close>

lemma keyed_task:
  assumes "map fst xs = map f ls" and "distinct (map f ls)" and "(k, v) \<in> set xs"
  obtains l where "l \<in> set ls" "k = f l" "map_of xs (f l) = Some v"
proof -
  have "k \<in> f ` set ls" using assms(1,3) by (metis fst_conv image_eqI set_map)
  moreover have "map_of xs k = Some v" using assms by (simp add: map_of_eq_Some_iff)
  ultimately show thesis using that by blast
qed

lemma sys_ok_keys:
  assumes "sys_ok y"
  shows "map fst (sy_http y) = map hl_key (all_http (sy_sup y))" "distinct (map hl_key (all_http (sy_sup y)))"
    "map fst (sy_h3 y) = map hq_key (sup_h3 (sy_sup y))" "distinct (map hq_key (sup_h3 (sy_sup y)))"
    "hq_key ` set (sup_h3 (sy_sup y)) \<subseteq> hl_key ` set (all_http (sy_sup y))"
  using assms by (simp_all add: sys_ok_def sup_ok_def)

lemma task_of_member:
  assumes "sys_ok y" and "(k, st) \<in> set (sy_http y) \<union> set (sy_h3 y)"
  shows "\<exists>l \<in> set (all_http (sy_sup y)). task_ok k st \<and> ls_cfg st = hl_cfg l"
  using assms(2)
proof
  assume "(k, st) \<in> set (sy_http y)"
  then obtain l where l: "l \<in> set (all_http (sy_sup y))" "k = hl_key l" "map_of (sy_http y) (hl_key l) = Some st"
    by (rule keyed_task[OF sys_ok_keys(1,2)[OF assms(1)]])
  then show ?thesis using sys_ok_http[OF assms(1) l(1)] by (auto simp: http_task_ok_def)
next
  assume "(k, st) \<in> set (sy_h3 y)"
  then obtain q where q: "q \<in> set (sup_h3 (sy_sup y))" "k = hq_key q" "map_of (sy_h3 y) (hq_key q) = Some st"
    by (rule keyed_task[OF sys_ok_keys(3,4)[OF assms(1)]])
  then obtain l where "l \<in> set (all_http (sy_sup y))" "hq_key q = hl_key l" using sys_ok_keys(5)[OF assms(1)] by blast
  then show ?thesis using sys_ok_h3[OF assms(1) q(1)] q(2,3) h3_cfg_key[OF sys_ok_keys(2)[OF assms(1)]]
    by (auto simp: h3_task_ok_def intro: bexI[of _ l])
qed

lemma task_told_to_stop:
  assumes "sys_ok y" and "sy_stopping y" and "(k, st) \<in> set (sy_http y) \<union> set (sy_h3 y)"
  shows "ls_shutdown st"
  using assms(3)
proof
  assume "(k, st) \<in> set (sy_http y)"
  then obtain l where l: "l \<in> set (all_http (sy_sup y))" "map_of (sy_http y) (hl_key l) = Some st"
    by (rule keyed_task[OF sys_ok_keys(1,2)[OF assms(1)]])
  then have "hl_shutdown l" using assms(1,2) by (auto simp: sys_ok_def sup_ok_def all_http_def list_all_iff)
  then show ?thesis using sys_ok_http[OF assms(1) l(1)] l(2) by (auto simp: http_task_ok_def)
next
  assume "(k, st) \<in> set (sy_h3 y)"
  then obtain q where q: "q \<in> set (sup_h3 (sy_sup y))" "map_of (sy_h3 y) (hq_key q) = Some st"
    by (rule keyed_task[OF sys_ok_keys(3,4)[OF assms(1)]])
  then have "hq_shutdown q" using assms(1,2) by (simp add: sys_ok_def)
  then show ?thesis using sys_ok_h3[OF assms(1) q(1)] q(2) by (auto simp: h3_task_ok_def)
qed

section \<open>Stopping\<close>

text \<open>A listener that was told to stop and has not returned has a step of its own that brings it nearer to its return.\<close>

definition stop_measure :: "('c, 'a) listener_state \<Rightarrow> nat" where
  "stop_measure st = drain_measure st + (if ls_phase st = Running then 2 else 0)"

lemma stop_enabled:
  assumes "ls_shutdown st" and "ls_phase st \<noteq> Returned"
  shows "\<exists>e st'. own_event e \<and> listen_step e st = Some st' \<and> stop_measure st' < stop_measure st"
proof (cases "ls_phase st")
  case Running
  then show ?thesis using assms(1) by (intro exI[of _ Shutdown_changed]) (simp add: stop_measure_def drain_measure_def)
next
  case Draining
  then obtain e st' where e: "drain_event e" "listen_step e st = Some st'" using drain_enabled by blast
  moreover have "own_event e" using e(1) by (cases e) auto
  ultimately show ?thesis using drain_step[OF e] Draining
    by (intro exI[of _ e] exI[of _ st']) (simp add: stop_measure_def)
qed (use assms(2) in simp)

definition sys_measure :: "'r system \<Rightarrow> nat" where
  "sys_measure y = sum_list (map (stop_measure \<circ> snd) (sy_http y)) + sum_list (map (stop_measure \<circ> snd) (sy_h3 y))"

lemma sum_update:
  fixes f :: "'v \<Rightarrow> nat"
  shows "map_of xs k = Some v \<Longrightarrow> f w < f v \<Longrightarrow> sum_list (map (f \<circ> snd) (AList.update k w xs)) < sum_list (map (f \<circ> snd) xs)"
  by (induction xs) (auto split: if_splits)

lemma stop_step:
  assumes ok: "sys_ok y" and "sy_stopping y" and m: "(k, st) \<in> set (sy_http y) \<union> set (sy_h3 y)" and "ls_phase st \<noteq> Returned"
  shows "\<exists>y'. sys_step env path y y' \<and> sys_measure y' < sys_measure y \<and> sy_sup y' = sy_sup y \<and> sy_stopping y'"
proof -
  from task_told_to_stop[OF assms(1-3)] assms(4) obtain e st' where e: "own_event e" "listen_step e st = Some st'" "stop_measure st' < stop_measure st"
    using stop_enabled by blast
  note keys = sys_ok_keys[OF ok]
  from m show ?thesis
  proof
    assume "(k, st) \<in> set (sy_http y)"
    then have at: "map_of (sy_http y) k = Some st" using keys(1,2) by simp
    show ?thesis using sys_step.Http[OF at e(1,2)] sum_update[where f = stop_measure, OF at e(3)] assms(2)
      by (intro exI[of _ "y\<lparr>sy_http := AList.update k st' (sy_http y)\<rparr>"]) (simp add: sys_measure_def)
  next
    assume "(k, st) \<in> set (sy_h3 y)"
    then have at: "map_of (sy_h3 y) k = Some st" using keys(3,4) by simp
    show ?thesis using sys_step.H3[OF at e(1,2)] sum_update[where f = stop_measure, OF at e(3)] assms(2)
      by (intro exI[of _ "y\<lparr>sy_h3 := AList.update k st' (sy_h3 y)\<rparr>"]) (simp add: sys_measure_def)
  qed
qed

lemma stop_run:
  assumes order: "\<And>m. mset (pv_order env m) = mset m"
  shows "sys_ok y \<Longrightarrow> sy_stopping y \<Longrightarrow> \<exists>y'. (sys_step env path)\<^sup>*\<^sup>* y y' \<and> sy_sup y' = sy_sup y \<and> sy_stopping y' \<and>
    list_all (\<lambda>(k, st). ls_phase st = Returned) (sy_http y' @ sy_h3 y')"
proof (induction y rule: measure_induct_rule[of sys_measure])
  case (less y)
  show ?case
  proof (cases "list_all (\<lambda>(k, st). ls_phase st = Returned) (sy_http y @ sy_h3 y)")
    case True
    then show ?thesis using less.prems(2) by blast
  next
    case False
    then obtain k st where "(k, st) \<in> set (sy_http y) \<union> set (sy_h3 y)" "ls_phase st \<noteq> Returned" by (auto simp: list_all_iff)
    from stop_step[OF less.prems this] obtain y' where y': "sys_step env path y y'" "sys_measure y' < sys_measure y"
        "sy_sup y' = sy_sup y" "sy_stopping y'" by blast
    from less.IH[OF y'(2) sys_step_ok[OF y'(1) less.prems(1) order] y'(4)] y'(1,3) show ?thesis
      by (metis converse_rtranclp_into_rtranclp)
  qed
qed

section \<open>Properties\<close>

text \<open>A system to apply the properties to: three plain listeners, every address can be bound.\<close>

definition demo_sys_env :: "(header_list, string, nat) sup_env" where
  "demo_sys_env = demo_sup_env\<lparr>pv_bind_tcp := (\<lambda>a n. (True, n + 1))\<rparr>"

lemma demo_sys_order: "mset (pv_order demo_sys_env m) = mset m"
  by (simp add: demo_sys_env_def demo_sup_env_def)

lemma spawn_all_total:
  assumes "\<And>x s. \<exists>l. fst (f x s) = Some l"
  shows "\<exists>ls s'. spawn_all f xs s = (Some ls, s')"
proof (induction xs arbitrary: s)
  case (Cons x xs)
  obtain l s1 where "f x s = (Some l, s1)" using assms[of x s] by (metis prod.collapse)
  then show ?case using Cons[of s1] by auto
qed simp

lemma demo_started:
  obtains rt sv s' where "reachable demo_sys_env ''/m'' (sys_init sv)" "read_config (pv_app demo_sys_env 0) (pv_fuel demo_sys_env) ''/m'' = Inr rt"
    "sup_http sv = map (fresh_http 0) (rt_listeners rt)" "sup_generation sv = 0"
    "lc_addr ` set (rt_listeners rt) = (\<lambda>n. \<lparr>sa_ip = V4 [0, 0, 0, 0], sa_port = n\<rparr>) ` {81, 82, 83}"
proof -
  have same: "pv_app demo_sys_env = pv_app demo_sup_env" "pv_fuel demo_sys_env = pv_fuel demo_sup_env" by (simp_all add: demo_sys_env_def)
  obtain rt where rt: "read_config (pv_app demo_sys_env 0) (pv_fuel demo_sys_env) ''/m'' = Inr rt"
    "lc_addr ` set (rt_listeners rt) = (\<lambda>n. \<lparr>sa_ip = V4 [0, 0, 0, 0], sa_port = n\<rparr>) ` {81, 82, 83}"
    unfolding same by (rule demo_reads)
  have "\<exists>l. fst (spawn_http demo_sys_env 0 cfg n) = Some l" "\<exists>l. fst (spawn_stream demo_sys_env 0 server n) = Some l" for cfg server n
    by (simp_all add: spawn_http_answer spawn_stream_answer) (simp_all add: demo_sys_env_def demo_sup_env_def)
  note bound = this
  obtain ls s1 where r1: "spawn_all (spawn_http demo_sys_env 0) (rt_listeners rt) 0 = (Some ls, s1)"
    using spawn_all_total[of "spawn_http demo_sys_env 0"] bound(1) by blast
  obtain ls' s2 where r2: "spawn_all (spawn_stream demo_sys_env 0) (rt_stream_servers rt) s1 = (Some ls', s2)"
    using spawn_all_total[of "spawn_stream demo_sys_env 0"] bound(2) by blast
  obtain sv where sv: "sup_start demo_sys_env rt 0 = (Some sv, s2)" by (simp add: sup_start_def r1 r2)
  from that[OF Start[OF rt(1) sv] rt(1) _ _ rt(2)] start_listeners[OF sv] show thesis by blast
qed

text \<open>C8: Whatever reloads, connections and steps of other listeners came before, as long as the server is not stopping every listener the supervisor
  counts as running is running: its loop has not ended, it serves its own address with the configuration and the
  certificates the supervisor last sent, which are of the current generation, and both its channels are open, so the next reload reaches it.\<close>

theorem system_serves_current:
  assumes "reachable env path y" and "\<And>m. mset (pv_order env m) = mset m" and "\<not> sy_stopping y" and "l \<in> set (sup_http (sy_sup y))"
  shows "\<exists>st. map_of (sy_http y) (hl_key l) = Some st \<and> ls_phase st = Running \<and> ls_cfg st = hl_cfg l \<and> ls_tls st = hl_tls l \<and>
    lc_addr (snd (ls_cfg st)) = hl_addr l \<and> fst (ls_cfg st) = sup_generation (sy_sup y) \<and> hl_cfg_live l \<and> hl_tls_live l"
proof -
  have ok: "sys_ok y" by (rule reachable_ok[OF assms(1,2)])
  then have "hl_cfg_live l \<and> hl_tls_live l" "fst (hl_cfg l) = sup_generation (sy_sup y)" "lc_addr (snd (hl_cfg l)) = hl_addr l"
    using assms(4) by (auto simp: sys_ok_def sup_ok_def all_http_def)
  then show ?thesis using serves_running[OF ok assms(3,4)] unfolding http_task_ok_def by metis
qed

theorem system_serves_current_witness:
  "\<exists>y l st. reachable demo_sys_env ''/m'' y \<and> sup_generation (sy_sup y) = 1 \<and> l \<in> set (sup_http (sy_sup y)) \<and> sa_port (hl_addr l) = 81 \<and>
     map_of (sy_http y) (hl_key l) = Some st \<and> ls_phase st = Running \<and> fst (ls_cfg st) = 1"
proof -
  obtain rt sv where sv: "reachable demo_sys_env ''/m'' (sys_init sv)" "sup_http sv = map (fresh_http 0) (rt_listeners rt)" "sup_generation sv = 0"
    and rt: "read_config (pv_app demo_sys_env 0) (pv_fuel demo_sys_env) ''/m'' = Inr rt"
      "lc_addr ` set (rt_listeners rt) = (\<lambda>n. \<lparr>sa_ip = V4 [0, 0, 0, 0], sa_port = n\<rparr>) ` {81, 82, 83}"
    by (rule demo_started)
  let ?sv = "fst (reload demo_sys_env ''/m'' sv 0)"
  let ?y = "set_sup ?sv (sys_init sv)"
  have "sy_sup (sys_init sv) = sv" "\<not> sy_stopping (sys_init sv)" by (simp_all add: sys_init_def)
  then have y: "reachable demo_sys_env ''/m'' ?y" using Step[OF sv(1) Reload, of 0] by simp
  have "sys_ok (sys_init sv)" by (rule reachable_ok[OF sv(1) demo_sys_order])
  then have d: "distinct (map hl_addr (sup_http sv))" by (simp add: sys_ok_def sup_ok_def sys_init_def)
  have "\<lparr>sa_ip = V4 [0, 0, 0, 0], sa_port = 81\<rparr> \<in> lc_addr ` set (rt_listeners rt)" unfolding rt(2) by simp
  then obtain c where c: "c \<in> set (rt_listeners rt)" "\<lparr>sa_ip = V4 [0, 0, 0, 0], sa_port = 81\<rparr> = lc_addr c" by blast
  obtain cfg where l: "push_http (sup_generation sv + 1) cfg (fresh_http 0 c) \<in> set (sup_http ?sv)"
    using reload_keeps[OF rt(1) d, of "fresh_http 0 c"] c(1) by (auto simp: sv(2) fresh_http_def)
  define l where "l = push_http (sup_generation sv + 1) cfg (fresh_http 0 c)"
  have port: "sa_port (hl_addr l) = 81" by (simp add: l_def http_keep.push_addr fresh_http_def flip: c(2))
  have now: "\<not> sy_stopping ?y" "sy_sup ?y = ?sv" by (simp_all add: set_sup_def sys_init_def)
  have gen: "sup_generation (sy_sup ?y) = 1"
    using rt(1) sv(3) unfolding now by (auto simp: reload_def reload_http_def reload_stream_def Let_def split: prod.splits)
  have mem: "l \<in> set (sup_http (sy_sup ?y))" unfolding now l_def by (rule l)
  from system_serves_current[OF y demo_sys_order now(1) mem]
  obtain st where "map_of (sy_http ?y) (hl_key l) = Some st" "ls_phase st = Running" "fst (ls_cfg st) = 1"
    unfolding gen by blast
  with y port gen mem show ?thesis by (intro exI[of _ ?y] exI[of _ l] exI[of _ st]) simp
qed

text \<open>C9: Every connection of every HTTP and HTTP/3 listener, at any moment, is served with a configuration of the listener's own address
  that is no older than the listener and no newer than the present; and the connections of a listener, in the order they were accepted, never go back to
  an older configuration.\<close>

theorem system_connections:
  assumes "reachable env path y" and "\<And>m. mset (pv_order env m) = mset m" and "(k, st) \<in> set (sy_http y) \<union> set (sy_h3 y)"
  shows "(\<forall>t \<in> snd ` set (ls_tasks st). lc_addr (snd (ct_cfg t)) = snd k \<and> fst k \<le> fst (ct_cfg t) \<and>
      fst (ct_cfg t) \<le> sup_generation (sy_sup y)) \<and> sorted (map (fst \<circ> ct_cfg \<circ> snd) (ls_tasks st))"
proof -
  have ok: "sys_ok y" by (rule reachable_ok[OF assms(1,2)])
  from task_of_member[OF ok assms(3)] obtain l where "task_ok k st" "ls_cfg st = hl_cfg l" "l \<in> set (all_http (sy_sup y))" by blast
  moreover from this have "fst (hl_cfg l) \<le> sup_generation (sy_sup y)" using ok by (auto simp: sys_ok_def sup_ok_def)
  ultimately show ?thesis by (auto simp: task_ok_def)
qed

theorem system_connections_witness:
  "\<exists>y k st t. reachable demo_sys_env ''/m'' y \<and> (k, st) \<in> set (sy_http y) \<and> t \<in> snd ` set (ls_tasks st) \<and>
     lc_addr (snd (ct_cfg t)) = snd k \<and> fst (ct_cfg t) \<le> sup_generation (sy_sup y)"
proof -
  obtain rt sv where sv: "reachable demo_sys_env ''/m'' (sys_init sv)" "read_config (pv_app demo_sys_env 0) (pv_fuel demo_sys_env) ''/m'' = Inr rt"
    "sup_http sv = map (fresh_http 0) (rt_listeners rt)" "sup_generation sv = 0"
    "lc_addr ` set (rt_listeners rt) = (\<lambda>n. \<lparr>sa_ip = V4 [0, 0, 0, 0], sa_port = n\<rparr>) ` {81, 82, 83}"
    by (rule demo_started)
  have "\<lparr>sa_ip = V4 [0, 0, 0, 0], sa_port = 81\<rparr> \<in> lc_addr ` set (rt_listeners rt)" unfolding sv(5) by simp
  then obtain c where "c \<in> set (rt_listeners rt)" by blast
  then obtain l where "l \<in> set (sup_http (sy_sup (sys_init sv)))" by (auto simp: sys_init_def sv(3))
  then obtain st where st: "map_of (sy_http (sys_init sv)) (hl_key l) = Some st" "http_task_ok l st" "ls_phase st = Running"
    using serves_running[OF reachable_ok[OF sv(1) demo_sys_order]] by (auto simp: sys_init_def)
  let ?t = "\<lparr>ct_peer = demo_client, ct_cfg = ls_cfg st, ct_acceptor = ls_tls st, ct_phase = Spawned\<rparr>"
  obtain st' where st': "listen_step (Accept demo_client) st = Some st'" "?t \<in> snd ` set (ls_tasks st')" using st(3) by simp
  let ?y = "(sys_init sv)\<lparr>sy_http := AList.update (hl_key l) st' (sy_http (sys_init sv))\<rparr>"
  have y: "reachable demo_sys_env ''/m'' ?y" by (rule Step[OF sv(1)]) (rule Http[OF st(1) _ st'(1)], simp)
  have m: "(hl_key l, st') \<in> set (sy_http ?y)" by (simp add: map_of_SomeD update_conv)
  from system_connections[OF y demo_sys_order UnI1[OF m]] st'(2) y m show ?thesis
    by (intro exI[of _ ?y] exI[of _ "hl_key l"] exI[of _ st'] exI[of _ ?t]) blast
qed

text \<open>C10: The server can always be brought to a stop: from every state it can reach, the request to shut down, unless it was made before, and steps of the listeners alone
  lead to a state where every HTTP and HTTP/3 loop, those of listeners closed by earlier reloads included, has returned.\<close>

theorem system_stops:
  assumes "reachable env path y" and "\<And>m. mset (pv_order env m) = mset m"
  shows "\<exists>y'. (sys_step env path)\<^sup>*\<^sup>* y y' \<and> sy_sup y' = (if sy_stopping y then sy_sup y else sup_shutdown (sy_sup y)) \<and>
    sy_stopping y' \<and> list_all (\<lambda>(k, st). ls_phase st = Returned) (sy_http y' @ sy_h3 y')"
proof (cases "sy_stopping y")
  case True
  then show ?thesis using stop_run[OF assms(2) reachable_ok[OF assms]] by simp
next
  case False
  let ?y = "(set_sup (sup_shutdown (sy_sup y)) y)\<lparr>sy_stopping := True\<rparr>"
  have stop: "sys_step env path y ?y" by (rule Stop[OF False])
  have "sy_sup ?y = sup_shutdown (sy_sup y)" "sy_stopping ?y" by (simp_all add: set_sup_def)
  with stop_run[OF assms(2) sys_step_ok[OF stop reachable_ok[OF assms] assms(2)]] False stop show ?thesis
    by (metis converse_rtranclp_into_rtranclp)
qed

theorem system_stops_witness:
  "\<exists>sv y'. reachable demo_sys_env ''/m'' (sys_init sv) \<and> (sys_step demo_sys_env ''/m'')\<^sup>*\<^sup>* (sys_init sv) y' \<and>
     list_all (\<lambda>(k, st). ls_phase st = Returned) (sy_http y' @ sy_h3 y')"
  using demo_started system_stops[OF _ demo_sys_order] by metis

end
