(* ===== verification/Tests_Config.thy ===== *)
theory Tests_Config
  imports Config_Build
begin

text \<open>
  The unit tests of the configuration (\<^verbatim>\<open>tests\<close> in \<^verbatim>\<open>src/src/config/mod.rs\<close>), run on the model: each definition is one test, with its source text
  and its assertions, and the lemma at the end evaluates them all. An assertion about the wording of an error is one
  about the constructor that stands for it. A panic, such as \<^verbatim>\<open>unwrap\<close> of an error or an index out of range, fails the test. The two tests of includes get the files they
  write as a file system.
\<close>

section \<open>Assertions\<close>

definition unwrapped :: "'e + 'a \<Rightarrow> ('a \<Rightarrow> bool) \<Rightarrow> bool" where
  "unwrapped r p = (case r of Inr x \<Rightarrow> p x | Inl _ \<Rightarrow> False)"

definition unwrapped_err :: "'e + 'a \<Rightarrow> ('e \<Rightarrow> bool) \<Rightarrow> bool" where
  "unwrapped_err r p = (case r of Inl e \<Rightarrow> p e | Inr _ \<Rightarrow> False)"

definition present :: "'a option \<Rightarrow> ('a \<Rightarrow> bool) \<Rightarrow> bool" where
  "present x p = (case x of Some y \<Rightarrow> p y | None \<Rightarrow> False)"

definition item :: "'a list \<Rightarrow> nat \<Rightarrow> ('a \<Rightarrow> bool) \<Rightarrow> bool" where
  "item xs i p = (case drop i xs of x # _ \<Rightarrow> p x | [] \<Rightarrow> False)"

fun unlines :: "string list \<Rightarrow> string" where
  "unlines [] = []"
| "unlines [l] = l"
| "unlines (l # ls) = l @ newline # unlines ls"

section \<open>The tests\<close>

definition test_parses_minimal_return :: bool where
  "test_parses_minimal_return \<longleftrightarrow>
     (let src = ''http { server { listen 8080; location / { return 200 \"hi\"; } } }''
      in unwrapped (parse_str src) (\<lambda>cfg. present (cfg_http cfg) (\<lambda>http.
     length (http_servers http) = 1 \<and> item (http_servers http) 0 (\<lambda>s. length (srv_locations s) = 1))))"

definition test_parses_upstream_and_proxy :: bool where
  "test_parses_upstream_and_proxy \<longleftrightarrow>
     (let src = unlines [
       '''',
       ''            http {'',
       ''                upstream app {'',
       ''                    server 127.0.0.1:3000 weight=2;'',
       ''                    server 127.0.0.1:3001;'',
       ''                }'',
       ''                server {'',
       ''                    listen 8080;'',
       ''                    location / { proxy_pass http://app; }'',
       ''                }'',
       ''            }'',
       ''        '']
      in unwrapped (parse_str src) (\<lambda>cfg. present (cfg_http cfg) (\<lambda>http.
     length (http_upstreams http) = 1 \<and> item (http_upstreams http) 0 (\<lambda>u. length (up_servers u) = 2 \<and>
     item (up_servers u) 0 (\<lambda>s. us_weight s = 2)))))"

definition test_exact_match_location_parses :: bool where
  "test_exact_match_location_parses \<longleftrightarrow>
     (let src = unlines [
       ''http { server { listen 8080;'',
       ''                  location = /healthz { return 200 \"ok\"; }'',
       ''                  location / { return 404; }'',
       ''               } }'']
      in unwrapped (parse_str src) (\<lambda>cfg. present (cfg_http cfg) (\<lambda>http.
     item (http_servers http) 0 (\<lambda>server.
     length (srv_locations server) = 2 \<and> item (srv_locations server) 0 (\<lambda>l. loc_kind l = Exact \<and> loc_path l = ''/healthz'') \<and>
     item (srv_locations server) 1 (\<lambda>l. loc_kind l = Prefix)))))"

definition test_server_root_cascades_into_location :: bool where
  "test_server_root_cascades_into_location \<longleftrightarrow>
     (let src = unlines [
       ''http { server { listen 8080; root /var/www;'',
       ''                  location / { }'',
       ''               } }'']
      in unwrapped (parse_str src) (\<lambda>cfg. present (cfg_http cfg) (\<lambda>http.
     item (http_servers http) 0 (\<lambda>server.
     item (srv_locations server) 0 (\<lambda>loc.
     case loc_action loc of Root dir \<Rightarrow> dir = ''/var/www'' | _ \<Rightarrow> False)))))"

definition test_proxy_set_header_collected :: bool where
  "test_proxy_set_header_collected \<longleftrightarrow>
     (let src = unlines [
       ''http { server { listen 8080;'',
       ''                  location / {'',
       ''                      proxy_pass http://127.0.0.1:3000;'',
       ''                      proxy_set_header Host $host;'',
       ''                      proxy_set_header X-Real-IP $remote_addr;'',
       ''                  }'',
       ''               } }'']
      in unwrapped (parse_str src) (\<lambda>cfg. present (cfg_http cfg) (\<lambda>http.
     item (http_servers http) 0 (\<lambda>server.
     item (srv_locations server) 0 (\<lambda>loc.
     length (loc_set_headers loc) = 2 \<and> item (loc_set_headers loc) 0 (\<lambda>h. fst h = ''Host''))))))"

definition test_server_level_add_header_collected :: bool where
  "test_server_level_add_header_collected \<longleftrightarrow>
     (let src = unlines [
       ''http { server { listen 8080;'',
       ''                  add_header Strict-Transport-Security \"max-age=31536000\";'',
       ''                  add_header X-Frame-Options \"DENY\";'',
       ''                  location / { return 200 \"ok\"; }'',
       ''               } }'']
      in unwrapped (parse_str src) (\<lambda>cfg. present (cfg_http cfg) (\<lambda>http.
     item (http_servers http) 0 (\<lambda>server.
     length (srv_add_headers server) = 2 \<and> item (srv_add_headers server) 0 (\<lambda>h. fst h = ''Strict-Transport-Security'') \<and>
     item (srv_add_headers server) 1 (\<lambda>h. fst h = ''X-Frame-Options'')))))"

definition test_add_header_collected :: bool where
  "test_add_header_collected \<longleftrightarrow>
     (let src = unlines [
       ''http { server { listen 8080;'',
       ''                  location / {'',
       ''                      return 200 \"ok\";'',
       ''                      add_header X-Powered-By \"elrond\";'',
       ''                  }'',
       ''               } }'']
      in unwrapped (parse_str src) (\<lambda>cfg. present (cfg_http cfg) (\<lambda>http.
     item (http_servers http) 0 (\<lambda>server.
     item (srv_locations server) 0 (\<lambda>loc.
     length (loc_add_headers loc) = 1 \<and> item (loc_add_headers loc) 0 (\<lambda>h. fst h = ''X-Powered-By''))))))"

definition test_upstream_lb_methods_parse :: bool where
  "test_upstream_lb_methods_parse \<longleftrightarrow>
     (let src = unlines [
       ''http {'',
       ''                upstream a { least_conn; server 127.0.0.1:1; }'',
       ''                upstream b { ip_hash; server 127.0.0.1:2; }'',
       ''                upstream c { server 127.0.0.1:3; }'',
       ''                server { listen 8080; location / { proxy_pass http://a; } }'',
       ''            }'']
      in unwrapped (parse_str src) (\<lambda>cfg. present (cfg_http cfg) (\<lambda>http.
     item (http_upstreams http) 0 (\<lambda>u. up_method u = LeastConn) \<and> item (http_upstreams http) 1 (\<lambda>u. up_method u = IpHash) \<and>
     item (http_upstreams http) 2 (\<lambda>u. up_method u = RoundRobin))))"

definition test_upstream_server_flags_parse :: bool where
  "test_upstream_server_flags_parse \<longleftrightarrow>
     (let src = unlines [
       ''http {'',
       ''                upstream u {'',
       ''                    server 10.0.0.1:80 weight=3 max_fails=5 fail_timeout=30s;'',
       ''                    server 10.0.0.2:80 backup;'',
       ''                    server 10.0.0.3:80 down;'',
       ''                }'',
       ''                server { listen 8080; location / { proxy_pass http://u; } }'',
       ''            }'']
      in unwrapped (parse_str src) (\<lambda>cfg. present (cfg_http cfg) (\<lambda>http.
     item (http_upstreams http) 0 (\<lambda>u. let s = up_servers u in
     item s 0 (\<lambda>p. us_weight p = 3 \<and> us_max_fails p = 5 \<and> us_fail_timeout p = from_secs 30) \<and>
     item s 1 us_backup \<and> item s 2 us_down))))"

definition test_upstream_duration_units :: bool where
  "test_upstream_duration_units \<longleftrightarrow>
     (let src = unlines [
       ''http {'',
       ''                upstream u {'',
       ''                    server 10.0.0.1:80 fail_timeout=500ms;'',
       ''                    server 10.0.0.2:80 fail_timeout=2m;'',
       ''                    server 10.0.0.3:80 fail_timeout=1h;'',
       ''                    server 10.0.0.4:80 fail_timeout=5;'',
       ''                }'',
       ''                server { listen 8080; location / { proxy_pass http://u; } }'',
       ''            }'']
      in unwrapped (parse_str src) (\<lambda>cfg. present (cfg_http cfg) (\<lambda>http.
     item (http_upstreams http) 0 (\<lambda>u. let s = up_servers u in
     item s 0 (\<lambda>p. us_fail_timeout p = from_millis 500) \<and> item s 1 (\<lambda>p. us_fail_timeout p = from_secs 120) \<and>
     item s 2 (\<lambda>p. us_fail_timeout p = from_secs 3600) \<and> item s 3 (\<lambda>p. us_fail_timeout p = from_secs 5)))))"

definition test_alias_action_parses :: bool where
  "test_alias_action_parses \<longleftrightarrow>
     (let src = unlines [
       ''http { server { listen 8080;'',
       ''                  location /assets/ { alias /var/assets/; }'',
       ''               } }'']
      in unwrapped (parse_str src) (\<lambda>cfg. present (cfg_http cfg) (\<lambda>http.
     item (http_servers http) 0 (\<lambda>server.
     item (srv_locations server) 0 (\<lambda>loc.
     case loc_action loc of Alias dir \<Rightarrow> dir = ''/var/assets/'' | _ \<Rightarrow> False)))))"

definition test_comments_and_strings_are_handled :: bool where
  "test_comments_and_strings_are_handled \<longleftrightarrow>
     (let src = unlines [
       '''',
       ''            # a comment'',
       ''            http {'',
       ''                server {'',
       ''                    listen 8080; # inline comment'',
       ''                    location / { return 200 \"line one'' @ [CHR 0x5C] @ ''nline two\"; }'',
       ''                }'',
       ''            }'',
       ''        '']
      in unwrapped (parse_str src) (\<lambda>cfg. cfg_http cfg \<noteq> None))"

definition test_rejects_unknown_directive :: bool where
  "test_rejects_unknown_directive \<longleftrightarrow>
     (let src = ''http { bogus_directive 1; }''
      in unwrapped_err (parse_str src) (\<lambda>e. case e of Build_error (Unknown_directive _ name _) \<Rightarrow> name = ''bogus_directive'' | _ \<Rightarrow> False))"

definition test_rejects_unclosed_block :: bool where
  "test_rejects_unclosed_block \<longleftrightarrow>
     (let src = ''http { server { listen 8080; ''
      in unwrapped_err (parse_str src) (\<lambda>e. case e of Text_error Missing_close_brace \<Rightarrow> True | Text_error (Unexpected_eof_in_directive _ _) \<Rightarrow> True | _ \<Rightarrow> False))"

definition test_tls_listen_requires_cert_paths :: bool where
  "test_tls_listen_requires_cert_paths \<longleftrightarrow>
     (let src = ''http { server { listen 443 ssl; location / { return 200; } } }''
      in unwrapped_err (parse_str src) (\<lambda>e. case e of Build_error (Tls_needs_certificate _) \<Rightarrow> True | _ \<Rightarrow> False))"

definition test_tls_listen_accepted_with_paths :: bool where
  "test_tls_listen_accepted_with_paths \<longleftrightarrow>
     (let src = unlines [
       ''http { server {'',
       ''                listen 443 ssl;'',
       ''                ssl_certificate /tmp/cert.pem;'',
       ''                ssl_certificate_key /tmp/key.pem;'',
       ''                location / { return 200; }'',
       ''            } }'']
      in unwrapped (parse_str src) (\<lambda>cfg. present (cfg_http cfg) (\<lambda>http.
     item (http_servers http) 0 (\<lambda>server.
     srv_tls server \<and> srv_ssl_certificate server = Some ''/tmp/cert.pem'' \<and> srv_ssl_certificate_key server = Some ''/tmp/key.pem''))))"

definition test_parses_regex_location :: bool where
  "test_parses_regex_location \<longleftrightarrow>
     (let src = unlines [
       ''http { server { listen 8080;'',
       ''                  location ~ \"'' @ [CHR 0x5C] @ ''.php$\" { return 200 \"php\"; }'',
       ''                  location ~* \"'' @ [CHR 0x5C] @ ''.JPG$\" { return 200 \"jpg\"; }'',
       ''               } }'']
      in unwrapped (parse_str src) (\<lambda>cfg. present (cfg_http cfg) (\<lambda>http.
     item (http_servers http) 0 (\<lambda>server.
     length (srv_locations server) = 2 \<and>
     item (srv_locations server) 0 (\<lambda>l. case loc_kind l of Regex _ ci \<Rightarrow> \<not> ci | _ \<Rightarrow> False) \<and>
     item (srv_locations server) 1 (\<lambda>l. case loc_kind l of Regex _ ci \<Rightarrow> ci | _ \<Rightarrow> False)))))"

definition test_rejects_location_without_action :: bool where
  "test_rejects_location_without_action \<longleftrightarrow>
     (let src = ''http { server { listen 8080; location / { } } }''
      in unwrapped_err (parse_str src) (\<lambda>e. case e of Build_error (No_action _ _) \<Rightarrow> True | _ \<Rightarrow> False))"

definition test_stream_block_parses :: bool where
  "test_stream_block_parses \<longleftrightarrow>
     (let src = unlines [
       ''stream {'',
       ''                upstream db {'',
       ''                    server 127.0.0.1:5432 weight=2;'',
       ''                    server 127.0.0.1:5433;'',
       ''                }'',
       ''                server { listen 15432; proxy_pass db; }'',
       ''            }'']
      in unwrapped (parse_str src) (\<lambda>cfg. present (cfg_stream cfg) (\<lambda>s.
     length (st_upstreams s) = 1 \<and> item (st_upstreams s) 0 (\<lambda>u. length (up_servers u) = 2) \<and>
     length (st_servers s) = 1 \<and> item (st_servers s) 0 (\<lambda>server. ss_proxy_pass server = Some ''db''))))"

definition test_stream_server_requires_listen_and_proxy_pass :: bool where
  "test_stream_server_requires_listen_and_proxy_pass \<longleftrightarrow>
     unwrapped_err (parse_str ''stream { server { listen 5000; } }'') (\<lambda>e. case e of Build_error (Missing_directive _ d) \<Rightarrow> d = ''proxy_pass'' | _ \<Rightarrow> False) \<and>
     unwrapped_err (parse_str ''stream { server { proxy_pass x; } }'') (\<lambda>e. case e of Build_error (Missing_directive _ d) \<Rightarrow> d = ''listen'' | _ \<Rightarrow> False)"

definition test_stream_udp_listener_parses :: bool where
  "test_stream_udp_listener_parses \<longleftrightarrow>
     (let src = ''stream { server { listen 5000 udp; proxy_pass dns; } }''
      in unwrapped (parse_str src) (\<lambda>cfg. present (cfg_stream cfg) (\<lambda>s. item (st_servers s) 0 ss_udp)))"

definition test_http_and_stream_coexist :: bool where
  "test_http_and_stream_coexist \<longleftrightarrow>
     (let src = unlines [
       '''',
       ''            http {'',
       ''                server { listen 8080; location / { return 200; } }'',
       ''            }'',
       ''            stream {'',
       ''                upstream db { server 127.0.0.1:5432; }'',
       ''                server { listen 15432; proxy_pass db; }'',
       ''            }'',
       ''            '']
      in unwrapped (parse_str src) (\<lambda>cfg. cfg_http cfg \<noteq> None \<and> cfg_stream cfg \<noteq> None))"

definition test_include_expansion_via_load :: bool where
  "test_include_expansion_via_load \<longleftrightarrow>
     (let inc = ''location /from-include { return 200 \"included\"; }'' @ [newline];
          main = ''http { server { listen 8080; include inc.conf; location / { return 200 \"root\"; } } }'' @ [newline];
          fs = \<lparr>canonicalize = Some, read_to_string = map_of [(''/tmp/t/inc.conf'', inc), (''/tmp/t/main.conf'', main)]\<rparr>
      in unwrapped (load fs 2 ''/tmp/t/main.conf'') (\<lambda>cfg. present (cfg_http cfg) (\<lambda>http. item (http_servers http) 0 (\<lambda>server.
           length (srv_locations server) = 2 \<and> list_ex (\<lambda>l. loc_path l = ''/from-include'') (srv_locations server)))))"

definition test_include_cycle_detected :: bool where
  "test_include_cycle_detected \<longleftrightarrow>
     (let a = ''include b.conf;'' @ [newline]; b = ''include a.conf;'' @ [newline];
          main = ''http { include a.conf; server { listen 8080; location / { return 200; } } }'' @ [newline];
          fs = \<lparr>canonicalize = Some, read_to_string = map_of [(''/tmp/t/a.conf'', a), (''/tmp/t/b.conf'', b), (''/tmp/t/main.conf'', main)]\<rparr>
      in unwrapped_err (load fs 3 ''/tmp/t/main.conf'') (\<lambda>e. case e of Text_error (Include_cycle _ _) \<Rightarrow> True | _ \<Rightarrow> False))"

section \<open>The model passes them\<close>

definition config_tests :: "bool list" where
  "config_tests = [test_parses_minimal_return, test_parses_upstream_and_proxy, test_exact_match_location_parses, test_server_root_cascades_into_location, test_proxy_set_header_collected, test_server_level_add_header_collected, test_add_header_collected, test_upstream_lb_methods_parse, test_upstream_server_flags_parse, test_upstream_duration_units, test_alias_action_parses, test_comments_and_strings_are_handled, test_rejects_unknown_directive, test_rejects_unclosed_block, test_tls_listen_requires_cert_paths, test_tls_listen_accepted_with_paths, test_parses_regex_location, test_rejects_location_without_action, test_stream_block_parses, test_stream_server_requires_listen_and_proxy_pass, test_stream_udp_listener_parses, test_http_and_stream_coexist, test_include_expansion_via_load, test_include_cycle_detected]"

lemma config_tests_pass: "list_all (\<lambda>t. t) config_tests"
  by code_simp

end
