(* ===== verification/Tests_Units.thy ===== *)
theory Tests_Units
  imports Tests_Config Static_Files Gzip Http_Date Privilege
begin

text \<open>
  The unit tests of the other modules, run on the model, one definition per test as in \<open>Tests_Config\<close>. The header map is the list instance of its interface; the operations of
  libraries and of the system that a test exercises are instantiated by a function that does what the test relies on. Times are given where
  the code asks the clock.
\<close>

section \<open>Access rules (\<^verbatim>\<open>access.rs\<close>)\<close>

definition v4 :: "u8 \<Rightarrow> u8 \<Rightarrow> u8 \<Rightarrow> u8 \<Rightarrow> ip_addr" where
  "v4 a b c d = V4 [a, b, c, d]"

definition test_parse_all :: bool where
  "test_parse_all \<longleftrightarrow> unwrapped (parse_target ''all'') (\<lambda>t. case t of All \<Rightarrow> True | _ \<Rightarrow> False)"

definition test_parse_ip_and_match :: bool where
  "test_parse_ip_and_match \<longleftrightarrow> unwrapped (parse_target ''10.0.0.1'') (\<lambda>t.
     target_matches t (v4 10 0 0 1) \<and> \<not> target_matches t (v4 10 0 0 2))"

definition test_parse_cidr_v4_and_match :: bool where
  "test_parse_cidr_v4_and_match \<longleftrightarrow> unwrapped (parse_target ''10.0.0.0/8'') (\<lambda>t.
     target_matches t (v4 10 1 2 3) \<and> \<not> target_matches t (v4 11 1 2 3))"

definition test_parse_cidr_v4_partial_byte :: bool where
  "test_parse_cidr_v4_partial_byte \<longleftrightarrow> unwrapped (parse_target ''192.168.1.0/25'') (\<lambda>t.
     target_matches t (v4 192 168 1 0) \<and> target_matches t (v4 192 168 1 127) \<and> \<not> target_matches t (v4 192 168 1 128))"

definition test_parse_cidr_v6_and_match :: bool where
  "test_parse_cidr_v6_and_match \<longleftrightarrow> unwrapped (parse_target ''2001:db8::/32'') (\<lambda>t.
     present (parse_ip_addr ''2001:db8:1::1'') (\<lambda>inside. present (parse_ip_addr ''2001:db9::1'') (\<lambda>outside.
     target_matches t inside \<and> \<not> target_matches t outside)))"

definition test_first_match_wins :: bool where
  "test_first_match_wins \<longleftrightarrow> unwrapped (parse_target ''10.0.0.0/8'') (\<lambda>net. unwrapped (parse_target ''all'') (\<lambda>every.
     let rules = [rule_allow net, rule_deny every]
     in check rules (v4 10 1 2 3) \<and> \<not> check rules (v4 192 168 1 1)))"

definition test_no_rules_allows :: bool where
  "test_no_rules_allows \<longleftrightarrow> check [] (v4 1 2 3 4)"

definition test_rejects_bad_input :: bool where
  "test_rejects_bad_input \<longleftrightarrow> list_all (\<lambda>s. unwrapped_err (parse_target s) (\<lambda>_. True)) [''nope'', ''10.0.0.0/99'', ''10.0.0.0/abc'']"

lemma access_tests_pass:
  "list_all (\<lambda>t. t) [test_parse_all, test_parse_ip_and_match, test_parse_cidr_v4_and_match, test_parse_cidr_v4_partial_byte,
     test_parse_cidr_v6_and_match, test_first_match_wins, test_no_rules_allows, test_rejects_bad_input]"
  by code_simp

section \<open>Basic authentication (\<^verbatim>\<open>auth.rs\<close>)\<close>

definition write_htpasswd :: "string \<Rightarrow> file_system" where
  "write_htpasswd contents = \<lparr>canonicalize = Some, read_to_string = (\<lambda>p. Some contents)\<rparr>"

definition test_rejects_plaintext_entries :: bool where
  "test_rejects_plaintext_entries \<longleftrightarrow>
     unwrapped_err (auth_load (write_htpasswd (''alice:swordfish'' @ [newline])) ''elrond-auth-plain.htpasswd'' ''r'')
       (\<lambda>e. case e of Auth_non_bcrypt _ _ _ \<Rightarrow> True | _ \<Rightarrow> False)"

definition test_rejects_apr1_entries :: bool where
  "test_rejects_apr1_entries \<longleftrightarrow>
     unwrapped_err (auth_load (write_htpasswd (''bob:$apr1$saltsalt$abcdefghijklmnopqrstuv'' @ [newline])) ''elrond-auth-apr1.htpasswd'' ''r'')
       (\<lambda>e. case e of Auth_non_bcrypt _ _ _ \<Rightarrow> True | _ \<Rightarrow> False)"

text \<open>The hash of the test is a parameter, and so are the two libraries.\<close>

definition test_loads_bcrypt_and_verifies :: "crypto_ops \<Rightarrow> (string \<Rightarrow> string) \<Rightarrow> string \<Rightarrow> bool" where
  "test_loads_bcrypt_and_verifies C encode hash \<longleftrightarrow>
     (let text = ''alice:'' @ hash @ [newline] @ ''# a comment'' @ [newline, newline]
      in unwrapped (auth_load (write_htpasswd text) ''elrond-auth-bcrypt.htpasswd'' ''secret'') (\<lambda>auth.
        au_realm auth = ''secret'' \<and> length (au_users auth) = 1 \<and>
        unwrapped (auth_check list_headers C auth [(''authorization'', ''Basic '' @ encode ''alice:swordfish'')]) (\<lambda>_. True) \<and>
        unwrapped_err (auth_check list_headers C auth [(''authorization'', ''Basic '' @ encode ''alice:wrong'')]) (\<lambda>resp.
          rs_status resp = 401 \<and> (case hm_get list_headers (rs_headers resp) ''www-authenticate'' of
            Some v \<Rightarrow> split_once_str ''Basic'' v \<noteq> None | None \<Rightarrow> False)) \<and>
        unwrapped_err (auth_check list_headers C auth []) (\<lambda>_. True)))"

definition test_rejects_empty_file :: bool where
  "test_rejects_empty_file \<longleftrightarrow>
     unwrapped_err (auth_load (write_htpasswd (''# only comments'' @ [newline])) ''elrond-auth-empty.htpasswd'' ''r'')
       (\<lambda>e. case e of Auth_empty _ \<Rightarrow> True | _ \<Rightarrow> False)"

definition toy_crypto :: crypto_ops where
  "toy_crypto = \<lparr>b64_decode = (\<lambda>s. Some (rev s)), bcrypt_verify = (\<lambda>pw hash. Some (hash = ''$2b$04$'' @ pw))\<rparr>"

lemma auth_tests_pass:
  "list_all (\<lambda>t. t) [test_rejects_plaintext_entries, test_rejects_apr1_entries,
     test_loads_bcrypt_and_verifies toy_crypto rev ''$2b$04$swordfish'', test_rejects_empty_file]"
  by code_simp

section \<open>Compression (\<^verbatim>\<open>gzip.rs\<close>)\<close>

definition req_with_accept :: "string \<Rightarrow> header_list" where
  "req_with_accept v = hm_insert list_headers [] ''accept-encoding'' v"

definition test_accept_detection :: bool where
  "test_accept_detection \<longleftrightarrow> client_accepts_gzip list_headers (req_with_accept ''gzip'') \<and>
     client_accepts_gzip list_headers (req_with_accept ''br, gzip;q=0.9'') \<and> client_accepts_gzip list_headers (req_with_accept ''*'') \<and>
     \<not> client_accepts_gzip list_headers (req_with_accept ''br'') \<and> \<not> client_accepts_gzip list_headers []"

definition test_content_type_check :: bool where
  "test_content_type_check \<longleftrightarrow> content_type_eligible list_headers [(''content-type'', ''text/html; charset=utf-8'')] [] \<and>
     \<not> content_type_eligible list_headers [(''content-type'', ''image/png'')] [] \<and>
     content_type_eligible list_headers [(''content-type'', ''image/png'')] [''image/png'']"

definition test_small_body_is_not_compressed :: "(string \<Rightarrow> string option) \<Rightarrow> bool" where
  "test_small_body_is_not_compressed gz \<longleftrightarrow>
     (let resp = full_response \<lparr>rs_status = 200, rs_headers = [(''content-type'', ''text/plain'')], rs_body = ''tiny''\<rparr>;
          out = maybe_compress list_headers gz (req_with_accept ''gzip'') True [] None 20 resp
      in \<not> hm_contains_key list_headers (rs_headers out) ''content-encoding'')"

definition test_eligible_body_is_compressed :: "(string \<Rightarrow> string option) \<Rightarrow> bool" where
  "test_eligible_body_is_compressed gz \<longleftrightarrow>
     (let payload = ''<!doctype html><html><body>'' @ concat (replicate 64 ''hello '') @ ''</body></html>'';
          resp = full_response \<lparr>rs_status = 200, rs_headers = [(''content-type'', ''text/html; charset=utf-8'')], rs_body = payload\<rparr>;
          out = maybe_compress list_headers gz (req_with_accept ''gzip'') True [] None 20 resp
      in hm_get list_headers (rs_headers out) ''content-encoding'' = Some ''gzip'' \<and>
         present (hm_get list_headers (rs_headers out) ''vary'') (\<lambda>v. split_once_str ''accept-encoding'' (to_ascii_lowercase v) \<noteq> None) \<and>
         present (Option.bind (hm_get list_headers (rs_headers out) ''content-length'') parse_usize) (\<lambda>cl. cl < length payload))"

lemma gzip_tests_pass:
  "list_all (\<lambda>t. t) [test_accept_detection, test_content_type_check, test_small_body_is_not_compressed (\<lambda>_. Some ''gz''),
     test_eligible_body_is_compressed (\<lambda>_. Some ''gz'')]"
  by code_simp

section \<open>Dates (\<^verbatim>\<open>http_date.rs\<close>) and ranges (\<^verbatim>\<open>static_files.rs\<close>)\<close>

definition test_epoch_format :: bool where
  "test_epoch_format \<longleftrightarrow> format_date 0 = ''Thu, 01 Jan 1970 00:00:00 GMT''"

definition test_known_dates :: bool where
  "test_known_dates \<longleftrightarrow> format_date 1000000000 = ''Sun, 09 Sep 2001 01:46:40 GMT'' \<and>
     format_date 1709209896 = ''Thu, 29 Feb 2024 12:31:36 GMT''"

definition test_full_range :: bool where
  "test_full_range \<longleftrightarrow> parse_single_range ''bytes=0-9'' 100 = Some (0, 9)"

definition test_open_end :: bool where
  "test_open_end \<longleftrightarrow> parse_single_range ''bytes=50-'' 100 = Some (50, 99)"

definition test_suffix :: bool where
  "test_suffix \<longleftrightarrow> parse_single_range ''bytes=-20'' 100 = Some (80, 99)"

definition test_clamp_end :: bool where
  "test_clamp_end \<longleftrightarrow> parse_single_range ''bytes=10-999'' 100 = Some (10, 99)"

definition test_out_of_range_rejected :: bool where
  "test_out_of_range_rejected \<longleftrightarrow> parse_single_range ''bytes=200-300'' 100 = None"

definition test_multi_range_rejected_for_now :: bool where
  "test_multi_range_rejected_for_now \<longleftrightarrow> parse_single_range ''bytes=0-9,20-29'' 100 = None"

definition test_invalid_prefix_rejected :: bool where
  "test_invalid_prefix_rejected \<longleftrightarrow> parse_single_range ''rows=0-9'' 100 = None"

lemma date_and_range_tests_pass:
  "list_all (\<lambda>t. t) [test_epoch_format, test_known_dates, test_full_range, test_open_end, test_suffix, test_clamp_end,
     test_out_of_range_rejected, test_multi_range_rejected_for_now, test_invalid_prefix_rejected]"
  by code_simp

section \<open>Privileges (\<^verbatim>\<open>privilege.rs\<close>)\<close>

definition test_resolve_missing_user_errors :: "unix_ops \<Rightarrow> bool" where
  "test_resolve_missing_user_errors U \<longleftrightarrow>
     unwrapped_err (resolve_user U ''definitely-no-such-user-12345'' None) (\<lambda>e. case e of User_not_found _ \<Rightarrow> True | _ \<Rightarrow> False)"

definition test_resolve_missing_group_errors :: "unix_ops \<Rightarrow> bool" where
  "test_resolve_missing_group_errors U \<longleftrightarrow>
     unwrapped_err (resolve_user U ''root'' (Some ''definitely-no-such-group-12345'')) (\<lambda>e. case e of Group_not_found _ \<Rightarrow> True | _ \<Rightarrow> False)"

definition test_raise_nofile_clamps_to_hard_cap :: "unix_ops \<Rightarrow> nat \<times> nat \<Rightarrow> bool" where
  "test_raise_nofile_clamps_to_hard_cap U limits \<longleftrightarrow>
     (case fst (raise_nofile U (2 ^ 64 - 1) limits) of
        Inr (_, new) \<Rightarrow> 0 < new
      | Inl e \<Rightarrow> e \<in> {Getrlimit_failed, Setrlimit_failed})"

text \<open>These hold on every system: for every one where the user and the group are missing and the first is found, and for every hard limit that is not zero.\<close>

lemma privilege_tests_pass:
  assumes "ux_getpwnam U ''definitely-no-such-user-12345'' = None" and "ux_getpwnam U ''root'' = Some ids"
    and "ux_getgrnam U ''definitely-no-such-group-12345'' = None" and "\<And>l. ux_getrlimit U l = Some l" and "0 < snd limits"
  shows "test_resolve_missing_user_errors U \<and> test_resolve_missing_group_errors U \<and> test_raise_nofile_clamps_to_hard_cap U limits"
  using assms
  by (auto simp: test_resolve_missing_user_errors_def test_resolve_missing_group_errors_def test_raise_nofile_clamps_to_hard_cap_def
      resolve_user_def c_string_def unwrapped_err_def raise_nofile_def Let_def split: prod.splits)

end
