(* ===== verification/Tests_Runtime.thy ===== *)
theory Tests_Runtime
  imports Tests_Config Cache Limit Balancer
begin

text \<open>
  The unit tests of the templates, the metrics, the limits, the cache and the balancer, run on the model as in \<open>Tests_Config\<close>. The state the code shares
  between the calls of a test is passed on from each to the next.
\<close>

section \<open>Templates (\<^verbatim>\<open>template.rs\<close>)\<close>

definition tmpl_ctx :: "string \<Rightarrow> http_uri \<Rightarrow> header_list \<Rightarrow> socket_addr \<Rightarrow> string option \<Rightarrow> string smap \<Rightarrow> header_list request_ctx" where
  "tmpl_ctx mthd uri headers peer server_name user_vars =
     \<lparr>ctx_peer = peer, ctx_server_name = server_name, ctx_method = mthd, ctx_uri = uri, ctx_headers = headers, ctx_scheme = ''http'',
      ctx_user_vars = user_vars\<rparr>"

text \<open>The URI as the HTTP library parses it: a path and a query.\<close>

definition uri_of :: "string \<Rightarrow> string option \<Rightarrow> http_uri" where
  "uri_of path query = \<lparr>u_path = path, u_query = query,
     u_path_and_query = Some (path @ (case query of Some q \<Rightarrow> ''?'' @ q | None \<Rightarrow> [])), u_authority = None\<rparr>"

definition local_peer :: socket_addr where
  "local_peer = \<lparr>sa_ip = V4 [127, 0, 0, 1], sa_port = 1\<rparr>"

definition test_pure_literal :: bool where
  "test_pure_literal \<longleftrightarrow>
     (let t = template_parse ''hello world''
      in is_literal t \<and> render list_headers (tmpl_ctx ''GET'' (uri_of ''/'' None) [] local_peer None []) t = ''hello world'')"

definition test_standard_variables :: bool where
  "test_standard_variables \<longleftrightarrow>
     render list_headers (tmpl_ctx ''GET'' (uri_of ''/path'' (Some ''a=1'')) [(''host'', ''example.test'')]
         \<lparr>sa_ip = V4 [10, 0, 0, 1], sa_port = 443\<rparr> (Some ''srv'') []) (template_parse ''$scheme://$host$request_uri'') =
       ''http://example.test/path?a=1''"

definition test_host_falls_back_to_server_name :: bool where
  "test_host_falls_back_to_server_name \<longleftrightarrow>
     render list_headers (tmpl_ctx ''GET'' (uri_of ''/'' None) [] local_peer (Some ''fallback'') []) (template_parse ''$host'') = ''fallback''"

definition test_user_var_resolves_through_template :: bool where
  "test_user_var_resolves_through_template \<longleftrightarrow>
     render list_headers (tmpl_ctx ''GET'' (uri_of ''/'' None) [] local_peer None [(''tier'', ''gold'')]) (template_parse ''hello $tier'') =
       ''hello gold''"

definition test_query_args :: bool where
  "test_query_args \<longleftrightarrow>
     render list_headers (tmpl_ctx ''GET'' (uri_of ''/'' (Some ''name=alice&id=2'')) [] local_peer None []) (template_parse ''hello $arg_name!'') =
       ''hello alice!''"

definition test_http_header_underscore_mapping :: bool where
  "test_http_header_underscore_mapping \<longleftrightarrow>
     render list_headers (tmpl_ctx ''GET'' (uri_of ''/'' None) [(''user-agent'', ''elrond-test/1'')] local_peer None [])
       (template_parse ''$http_user_agent'') = ''elrond-test/1''"

definition test_braced_and_unknown_var :: bool where
  "test_braced_and_unknown_var \<longleftrightarrow>
     render list_headers (tmpl_ctx ''POST'' (uri_of ''/'' None) [] local_peer None []) (template_parse ''a=${request_method} b=$nope c=$$'') =
       ''a=POST b= c=$$''"

definition test_cookie_lookup :: bool where
  "test_cookie_lookup \<longleftrightarrow>
     render list_headers (tmpl_ctx ''GET'' (uri_of ''/'' None) [(''cookie'', ''a=1; session=abc; b=2'')] local_peer None [])
       (template_parse ''$cookie_session'') = ''abc''"

lemma template_tests_pass:
  "list_all (\<lambda>t. t) [test_pure_literal, test_standard_variables, test_host_falls_back_to_server_name, test_user_var_resolves_through_template,
     test_query_args, test_http_header_underscore_mapping, test_braced_and_unknown_var, test_cookie_lookup]"
  by code_simp

section \<open>Metrics (\<^verbatim>\<open>metrics.rs\<close>)\<close>

definition contains :: "string \<Rightarrow> string \<Rightarrow> bool" where
  "contains s p \<longleftrightarrow> split_once_str p s \<noteq> None"

definition last_word :: "string \<Rightarrow> string" where
  "last_word l = last (split_char (CHR '' '') l)"

definition test_render_emits_required_metrics :: bool where
  "test_render_emits_required_metrics \<longleftrightarrow>
     (let m = record_proxy_failure (record_proxy_attempt (record_proxy_attempt
                (record_request 502 (record_request 404 (record_request 200 initial_metrics)))));
          s = metrics_render ''0'' ''test-1.2.3'' m;
          class = (\<lambda>c. ''elrond_responses_total{status_class='' @ [CHR 0x22] @ c @ [CHR 0x22] @ ''}'')
      in contains s (''elrond_build_info{version='' @ [CHR 0x22] @ ''test-1.2.3'' @ [CHR 0x22] @ ''} 1'') \<and>
         contains s ''elrond_requests_total'' \<and> contains s (class ''2xx'') \<and> contains s (class ''4xx'') \<and> contains s (class ''5xx'') \<and>
         contains s ''elrond_proxy_attempts_total'' \<and> contains s ''elrond_proxy_failures_total'' \<and> contains s ''elrond_active_connections'' \<and>
         list_all (\<lambda>line. last_word line \<in> {''counter'', ''gauge'', ''histogram'', ''summary''})
           (filter (\<lambda>l. starts_with l ''# TYPE '') (split_char newline s)))"

text \<open>The exposition is long, so the test is not evaluated but follows from the shape of its lines.\<close>

lemma contains_iff: "contains s p \<longleftrightarrow> (\<exists>a b. s = a @ p @ b)"
proof (induction s)
  case (Cons c s)
  have "contains (c # s) p \<longleftrightarrow> strip_prefix p (c # s) \<noteq> None \<or> contains s p"
    by (auto simp: contains_def split: option.splits)
  also have "\<dots> \<longleftrightarrow> (\<exists>b. c # s = p @ b) \<or> (\<exists>a b. s = a @ p @ b)" by (auto simp: Cons strip_prefix_iff)
  also have "\<dots> \<longleftrightarrow> (\<exists>a b. c # s = a @ p @ b)"
  proof (intro iffI; elim disjE exE)
    fix a b assume "c # s = a @ p @ b"
    then show "(\<exists>b. c # s = p @ b) \<or> (\<exists>a b. s = a @ p @ b)" by (cases a) auto
  qed (force intro: exI[of _ "[]"] exI[of _ "c # _"])+
  finally show ?case .
qed (auto simp: contains_def)

lemma contains_parts:
  "contains p p" "contains b p \<Longrightarrow> contains (a @ b) p" "contains a p \<Longrightarrow> contains (a @ b) p"
proof -
  show "contains p p" unfolding contains_iff by (intro exI[of _ "[]"]) simp
next
  assume "contains b p"
  then obtain x y where "a @ b = (a @ x) @ p @ y" by (auto simp: contains_iff)
  then show "contains (a @ b) p" unfolding contains_iff by blast
next
  assume "contains a p"
  then obtain x y where "a @ b = x @ p @ (y @ b)" by (auto simp: contains_iff)
  then show "contains (a @ b) p" unfolding contains_iff by blast
qed

lemma contains_concat: "w \<in> set ws \<Longrightarrow> contains w p \<Longrightarrow> contains (concat ws) p"
  by (induction ws) (auto intro: contains_parts)

lemma split_char_at: "split_char c (a @ c # b) = split_char c a @ split_char c b"
  by (induction a) (auto split: list.splits)

definition typed :: "string \<Rightarrow> bool" where
  "typed s \<longleftrightarrow> list_all (\<lambda>line. last_word line \<in> {''counter'', ''gauge'', ''histogram'', ''summary''})
     (filter (\<lambda>l. starts_with l ''# TYPE '') (split_char newline s))"

lemma typed_writeln:
  assumes "newline \<notin> set l"
  shows "typed (writeln l @ r) \<longleftrightarrow> (starts_with l ''# TYPE '' \<longrightarrow> last_word l \<in> {''counter'', ''gauge'', ''histogram'', ''summary''}) \<and> typed r"
  using assms by (auto simp: typed_def writeln_def split_char_append newline_def)

lemma no_newline: "newline \<notin> set (show_u64 v)"
  using show_nat_digits[of "unat v"] by (auto simp: show_u64_def newline_def list_all_iff is_ascii_digit_def)

lemma last_word_append: "CHR '' '' \<notin> set w \<Longrightarrow> last_word (a @ '' '' @ w) = w"
  by (simp add: last_word_def split_char_at split_char_absent)

lemma typed_gauge:
  assumes "newline \<notin> set (name @ help @ v)" and "\<not> starts_with (name @ '' '' @ v) ''# TYPE ''"
  shows "typed (render_gauge name help v @ r) \<longleftrightarrow> typed r"
proof -
  have "last_word (''# TYPE '' @ name @ '' gauge'') = ''gauge''" using last_word_append[of "''gauge''" "''# TYPE '' @ name"] by simp
  then show ?thesis using assms by (simp add: render_gauge_def typed_writeln starts_with_def newline_def)
qed

lemma typed_counter:
  assumes "newline \<notin> set (name @ help)" and "\<not> starts_with (name @ '' '' @ show_u64 v) ''# TYPE ''"
  shows "typed (render_counter (name, v, help) @ r) \<longleftrightarrow> typed r"
proof -
  have "last_word (''# TYPE '' @ name @ '' counter'') = ''counter''" using last_word_append[of "''counter''" "''# TYPE '' @ name"] by simp
  then show ?thesis using assms no_newline[of v] by (simp add: render_counter_def typed_writeln starts_with_def newline_def)
qed

lemma typed_class:
  assumes "newline \<notin> set c"
  shows "typed (class_line c v @ r) \<longleftrightarrow> typed r"
  using assms no_newline[of v] by (simp add: class_line_def typed_writeln starts_with_def newline_def)

lemma typed_counters: "typed (concat (map render_counter (counter_table m)) @ r) \<longleftrightarrow> typed r"
  by (simp add: counter_table_def typed_counter starts_with_def newline_def)

lemma typed_render: "typed (metrics_render ''0'' ''test-1.2.3'' m)"
proof -
  have "typed []" by (simp add: typed_def starts_with_def)
  moreover have "last_word ''# TYPE elrond_build_info gauge'' = ''gauge''" "last_word ''# TYPE elrond_responses_total counter'' = ''counter''"
    by code_simp+
  ultimately show ?thesis
    using no_newline typed_gauge[where r = "[]"]
    by (simp add: metrics_render_def typed_counters typed_class typed_gauge typed_writeln starts_with_def newline_def)
qed

lemma help_named: "contains (''# HELP '' @ name @ '' '' @ help) name"
  by (rule contains_parts(2), rule contains_parts(3), rule contains_parts(1))

lemma counter_named:
  assumes "(name, n, help) \<in> set (counter_table m)"
  shows "contains (metrics_render u v m) name"
proof -
  have "contains (''# HELP '' @ name @ '' '' @ help) name" by (rule help_named)
  then have "contains (render_counter (name, n, help)) name"
    unfolding render_counter_def writeln_def prod.case by (rule contains_parts(3)[OF contains_parts(3)])
  then have "contains (concat (map render_counter (counter_table m))) name" using assms by (force intro: contains_concat)
  then show ?thesis unfolding metrics_render_def by (fast intro: contains_parts(2,3))
qed

lemma class_named:
  "contains (class_line c v) (''elrond_responses_total{status_class='' @ [CHR 0x22] @ c @ [CHR 0x22] @ ''}'')"
  unfolding contains_iff class_line_def writeln_def by (intro exI[of _ "[]"] exI[of _ "'' '' @ show_u64 v @ [CHR 0x0A]"]) simp

lemma gauge_named: "contains (render_gauge name help v) name"
proof -
  have "contains (''# HELP '' @ name @ '' '' @ help) name" by (rule help_named)
  then show ?thesis unfolding render_gauge_def writeln_def by (rule contains_parts(3)[OF contains_parts(3)])
qed

lemma classes_named:
  "contains (metrics_render u v m) (''elrond_responses_total{status_class='' @ [CHR 0x22] @ ''2xx'' @ [CHR 0x22] @ ''}'')"
  "contains (metrics_render u v m) (''elrond_responses_total{status_class='' @ [CHR 0x22] @ ''4xx'' @ [CHR 0x22] @ ''}'')"
  "contains (metrics_render u v m) (''elrond_responses_total{status_class='' @ [CHR 0x22] @ ''5xx'' @ [CHR 0x22] @ ''}'')"
  "contains (metrics_render u v m) ''elrond_active_connections''"
  unfolding metrics_render_def by (fast intro: contains_parts(2,3) class_named gauge_named)+

lemma build_named: "contains (metrics_render u v m) (''elrond_build_info{version='' @ [CHR 0x22] @ v @ [CHR 0x22] @ ''} 1'')"
proof -
  have "contains (writeln (''elrond_build_info{version='' @ [CHR 0x22] @ v @ [CHR 0x22] @ ''} 1'')) (''elrond_build_info{version='' @ [CHR 0x22] @ v @ [CHR 0x22] @ ''} 1'')"
    unfolding writeln_def by (rule contains_parts(3), rule contains_parts(1))
  then show ?thesis unfolding metrics_render_def by (fast intro: contains_parts(2,3))
qed

lemma metrics_test_passes: "test_render_emits_required_metrics"
proof -
  have "contains (metrics_render u v m) ''elrond_requests_total''" "contains (metrics_render u v m) ''elrond_proxy_attempts_total''"
    "contains (metrics_render u v m) ''elrond_proxy_failures_total''" for u v m
    by (rule counter_named, simp add: counter_table_def)+
  then show ?thesis unfolding test_render_emits_required_metrics_def Let_def
    by (intro conjI classes_named build_named typed_render[unfolded typed_def])
qed

section \<open>Limits (\<^verbatim>\<open>limit.rs\<close>)\<close>

definition test_zone :: "rat \<Rightarrow> limit_req_zone \<times> metrics" where
  "test_zone rate = (limit_req_zone_new ''t'' (template_parse ''$remote_addr'') rate 128, initial_metrics)"

text \<open>The answers to a sequence of calls, each with its time, its key and its burst.\<close>

fun allows :: "(nat \<times> string \<times> nat) list \<Rightarrow> limit_req_zone \<times> metrics \<Rightarrow> bool list \<times> limit_req_zone \<times> metrics" where
  "allows [] s = ([], s)"
| "allows ((now, key, burst) # calls) s =
     (let (ok, s1) = allow (\<lambda>xs. xs) now key burst s; (oks, s2) = allows calls s1 in (ok # oks, s2))"

definition test_allows_first_burst_immediately :: bool where
  "test_allows_first_burst_immediately \<longleftrightarrow> fst (allows (replicate 5 (0, ''client-a'', 4)) (test_zone 1)) = replicate 5 True"

definition test_denies_after_burst_drained :: bool where
  "test_denies_after_burst_drained \<longleftrightarrow>
     fst (allows (replicate 6 (0, ''client-a'', 4)) (test_zone (1 / 10000))) = replicate 5 True @ [False]"

definition test_separate_keys_have_separate_buckets :: bool where
  "test_separate_keys_have_separate_buckets \<longleftrightarrow>
     fst (allows (replicate 4 (0, ''client-a'', 2) @ replicate 3 (0, ''client-b'', 2)) (test_zone (1 / 10000))) =
       replicate 3 True @ [False] @ replicate 3 True"

definition test_refill_replenishes_tokens :: bool where
  "test_refill_replenishes_tokens \<longleftrightarrow>
     fst (allows (replicate 6 (0, ''client-a'', 4) @ [(20000000, ''client-a'', 4)]) (test_zone 1000)) = replicate 5 True @ [False, True]"

definition test_parses_rate_specs :: bool where
  "test_parses_rate_specs \<longleftrightarrow> parse_rate ''5r/s'' = Some 5 \<and> parse_rate ''60r/m'' = Some 1 \<and> parse_rate ''100r/s '' = Some 100 \<and>
     parse_rate ''nonsense'' = None \<and> parse_rate ''5r/h'' = None"

definition test_limit_conn_basic :: bool where
  "test_limit_conn_basic \<longleftrightarrow>
     (let z = (limit_conn_zone_new ''c'' (template_parse ''$remote_addr'') 128, initial_metrics);
          (g1, z1) = try_acquire (\<lambda>xs. xs) ''alice'' 2 z;
          (g2, z2) = try_acquire (\<lambda>xs. xs) ''alice'' 2 z1;
          (third, z3) = try_acquire (\<lambda>xs. xs) ''alice'' 2 z2;
          z4 = (conn_guard_release ''alice'' (fst z3), snd z3);
          (g3, z5) = try_acquire (\<lambda>xs. xs) ''alice'' 2 z4;
          (other, z6) = try_acquire (\<lambda>xs. xs) ''bob'' 2 z5
      in g1 \<and> g2 \<and> \<not> third \<and> g3 \<and> other)"

definition test_eviction_caps_entries :: bool where
  "test_eviction_caps_entries \<longleftrightarrow>
     (let z = (limit_req_zone_new ''t'' (template_parse ''$remote_addr'') (1 / 10000) 3, initial_metrics);
          (_, z', _) = allows (map (\<lambda>i. (i, ''k'' @ show_nat i, 0)) [0..<10]) z
      in length (z_buckets z') \<le> 3)"

lemma limit_tests_pass:
  "list_all (\<lambda>t. t) [test_allows_first_burst_immediately, test_denies_after_burst_drained, test_separate_keys_have_separate_buckets,
     test_refill_replenishes_tokens, test_parses_rate_specs, test_limit_conn_basic, test_eviction_caps_entries]"
  by code_simp

section \<open>Cache (\<^verbatim>\<open>cache.rs\<close>)\<close>

definition rules_for_200 :: "nat \<Rightarrow> (nat list \<times> duration) list" where
  "rules_for_200 s = [([200], from_secs s)]"

definition test_entry :: "nat \<Rightarrow> string \<Rightarrow> string list \<Rightarrow> header_list \<Rightarrow> cache_entry" where
  "test_entry now body vary req =
     \<lparr>e_status = 200, e_headers = [], e_body = body, e_expires_at = now + 60 * 10 ^ 9, e_vary_headers = vary,
      e_vary_signature = build_signature list_headers req vary\<rparr>"

definition bypassed :: "cache_decision \<Rightarrow> bool" where
  "bypassed d = (case d of Bypass _ \<Rightarrow> True | _ \<Rightarrow> False)"

definition test_non_get_is_bypassed :: bool where
  "test_non_get_is_bypassed \<longleftrightarrow> bypassed (decide_caching list_headers ''POST'' [] 200 10 (rules_for_200 60))"

definition test_set_cookie_blocks_caching :: bool where
  "test_set_cookie_blocks_caching \<longleftrightarrow> bypassed (decide_caching list_headers ''GET'' [(''set-cookie'', ''sid=abc'')] 200 10 (rules_for_200 60))"

definition test_vary_star_is_bypassed :: bool where
  "test_vary_star_is_bypassed \<longleftrightarrow>
     (case decide_caching list_headers ''GET'' [(''vary'', ''*'')] 200 10 (rules_for_200 60) of Bypass s \<Rightarrow> contains s ''Vary'' | _ \<Rightarrow> False)"

definition test_cc_no_store_blocks_caching :: bool where
  "test_cc_no_store_blocks_caching \<longleftrightarrow> bypassed (decide_caching list_headers ''GET'' [(''cache-control'', ''no-store'')] 200 10 (rules_for_200 60))"

definition test_missing_valid_rule_bypasses :: bool where
  "test_missing_valid_rule_bypasses \<longleftrightarrow> bypassed (decide_caching list_headers ''GET'' [] 404 10 (rules_for_200 60))"

definition test_matching_status_stores :: bool where
  "test_matching_status_stores \<longleftrightarrow>
     (case decide_caching list_headers ''GET'' [] 200 10 (rules_for_200 60) of Store d \<Rightarrow> d = from_secs 60 | _ \<Rightarrow> False)"

definition test_store :: "cache_store \<times> metrics" where
  "test_store = (cache_store_new ''t'' (1024 * 1024), initial_metrics)"

definition test_vary_variants_kept_separately :: bool where
  "test_vary_variants_kept_separately \<longleftrightarrow>
     (let gz = [(''accept-encoding'', ''gzip'')]; idn = [(''accept-encoding'', ''identity'')];
          s1 = cache_put (\<lambda>xs. xs) ''k'' (test_entry 0 ''GZIPPED'' [''accept-encoding''] gz) test_store;
          s2 = cache_put (\<lambda>xs. xs) ''k'' (test_entry 0 ''PLAIN'' [''accept-encoding''] idn) s1;
          (hit, s3) = cache_get list_headers 1 ''k'' gz s2;
          (hit', s4) = cache_get list_headers 2 ''k'' idn s3
      in present hit (\<lambda>e. e_body e = ''GZIPPED'') \<and> present hit' (\<lambda>e. e_body e = ''PLAIN''))"

definition test_vary_request_without_matching_variant_misses :: bool where
  "test_vary_request_without_matching_variant_misses \<longleftrightarrow>
     (let s1 = cache_put (\<lambda>xs. xs) ''k'' (test_entry 0 ''GZIPPED'' [''accept-encoding''] [(''accept-encoding'', ''gzip'')]) test_store
      in fst (cache_get list_headers 1 ''k'' [(''accept-encoding'', ''br'')] s1) = None)"

definition test_store_drops_expired_on_read :: bool where
  "test_store_drops_expired_on_read \<longleftrightarrow>
     (let now = 10 ^ 9; e = (test_entry now ''x'' [] [])\<lparr>e_expires_at := now - 10 ^ 6\<rparr>
      in fst (cache_get list_headers now ''k'' [] (cache_put (\<lambda>xs. xs) ''k'' e test_store)) = None)"

lemma cache_tests_pass:
  "list_all (\<lambda>t. t) [test_non_get_is_bypassed, test_set_cookie_blocks_caching, test_vary_star_is_bypassed, test_cc_no_store_blocks_caching,
     test_missing_valid_rule_bypasses, test_matching_status_stores, test_vary_variants_kept_separately,
     test_vary_request_without_matching_variant_misses, test_store_drops_expired_on_read]"
  by code_simp

section \<open>Balancer (\<^verbatim>\<open>app.rs\<close>)\<close>

definition test_peer :: "string \<Rightarrow> u32 \<Rightarrow> peer" where
  "test_peer addr weight = \<lparr>p_addr = addr, p_weight = weight, p_max_fails = 1, p_fail_timeout = from_secs 10, p_backup = False,
     p_down = False, p_in_flight = 0, p_consecutive_failures = 0, p_failed_until_ms = 0\<rparr>"

definition clone_for_test :: "peer \<Rightarrow> peer" where
  "clone_for_test p = p\<lparr>p_in_flight := 0, p_consecutive_failures := 0, p_failed_until_ms := 0\<rparr>"

definition test_balancer :: "string \<Rightarrow> lb_method \<Rightarrow> peer list \<Rightarrow> balancer" where
  "test_balancer name meth peers =
     \<lparr>bal_name = name, bal_method = meth, bal_peers = peers, bal_scheme = ''http'', bal_rr_counter = 0\<rparr>"

definition mk_ctx :: "ip_addr \<Rightarrow> nat \<Rightarrow> header_list request_ctx" where
  "mk_ctx ip port = tmpl_ctx ''GET'' (uri_of ''/'' None) [] \<lparr>sa_ip = ip, sa_port = port\<rparr> None []"

text \<open>The addresses of a number of picks in a row at one time.\<close>

fun picked :: "(ip_addr \<Rightarrow> u64) \<Rightarrow> u64 \<Rightarrow> header_list request_ctx \<Rightarrow> nat \<Rightarrow> balancer \<Rightarrow> string option list" where
  "picked hash now ctx 0 b = []"
| "picked hash now ctx (Suc n) b =
     (let (i, b') = pick hash now ctx b in map_option (\<lambda>i. p_addr (bal_peers b ! i)) i # picked hash now ctx n b')"

definition test_weighted_rr_respects_weights :: bool where
  "test_weighted_rr_respects_weights \<longleftrightarrow>
     (let ps = picked (\<lambda>_. 0) 1 (mk_ctx (V4 [127, 0, 0, 1]) 1) 30 (test_balancer ''t'' RoundRobin [test_peer ''a'' 2, test_peer ''b'' 1])
      in count_list ps (Some ''a'') = 20 \<and> count_list ps (Some ''b'') = 10)"

definition test_ip_hash_is_stable_per_client :: "(ip_addr \<Rightarrow> u64) \<Rightarrow> bool" where
  "test_ip_hash_is_stable_per_client hash \<longleftrightarrow>
     (let b = test_balancer ''t'' IpHash [test_peer ''a'' 1, test_peer ''b'' 1, test_peer ''c'' 1];
          ps = picked hash 1 (mk_ctx (V4 [10, 0, 0, 1]) 5000) 11 b
      in hd ps \<noteq> None \<and> list_all (\<lambda>p. p = hd ps) ps \<and> fst (pick hash 1 (mk_ctx (V4 [10, 0, 0, 2]) 5000) b) \<noteq> None)"

definition test_least_conn_prefers_idle_peer :: bool where
  "test_least_conn_prefers_idle_peer \<longleftrightarrow>
     picked (\<lambda>_. 0) 1 (mk_ctx (V4 [127, 0, 0, 1]) 1) 1
       (test_balancer ''t'' LeastConn [(test_peer ''a'' 1)\<lparr>p_in_flight := 2\<rparr>, test_peer ''b'' 1]) = [Some ''b'']"

definition test_failed_peer_is_skipped_until_timeout :: bool where
  "test_failed_peer_is_skipped_until_timeout \<longleftrightarrow>
     (let now = 1000; a = record_failure now (test_peer ''a'' 1)
      in \<not> is_available (now + 1) a \<and>
         picked (\<lambda>_. 0) now (mk_ctx (V4 [127, 0, 0, 1]) 1) 5 (test_balancer ''t'' RoundRobin [a, test_peer ''b'' 1]) = replicate 5 (Some ''b''))"

definition test_backup_used_only_when_primaries_unavailable :: bool where
  "test_backup_used_only_when_primaries_unavailable \<longleftrightarrow>
     (let now = 1000; primary = record_failure now (test_peer ''primary'' 1); backup = (test_peer ''backup'' 1)\<lparr>p_backup := True\<rparr>;
          b = test_balancer ''t'' RoundRobin [primary, backup]; ctx = mk_ctx (V4 [127, 0, 0, 1]) 1;
          (i, b1) = pick (\<lambda>_. 0) now ctx b
      in map_option (\<lambda>i. p_addr (bal_peers b ! i)) i = Some ''backup'' \<and>
         picked (\<lambda>_. 0) now ctx 1 (on_peer 0 record_success b1) = [Some ''primary''])"

definition test_down_peer_is_never_picked :: bool where
  "test_down_peer_is_never_picked \<longleftrightarrow>
     picked (\<lambda>_. 0) 1 (mk_ctx (V4 [127, 0, 0, 1]) 1) 5
       (test_balancer ''t'' RoundRobin [(clone_for_test (test_peer ''down'' 1))\<lparr>p_down := True\<rparr>, test_peer ''alive'' 1]) = replicate 5 (Some ''alive'')"

lemma balancer_tests_pass:
  "list_all (\<lambda>t. t) [test_weighted_rr_respects_weights, test_ip_hash_is_stable_per_client (\<lambda>ip. of_nat (length (octets ip)) + 3),
     test_least_conn_prefers_idle_peer, test_failed_peer_is_skipped_until_timeout, test_backup_used_only_when_primaries_unavailable,
     test_down_peer_is_never_picked]"
  by code_simp

end
