(* ===== verification/Spec2Isabelle.thy ===== *)
theory Spec2Isabelle
  imports Process System Tests_Units Tests_Runtime
begin

text \<open>
  \<^bold>\<open>Elrond\<close>, a reverse proxy and web server in the style of Nginx, written in Rust (\<^verbatim>\<open>src/src/\<close>): a model of the whole
  program in HOL and the theorems that make its parts correct.

  \<^bold>\<open>The program.\<close> A process reads a configuration file, builds a run-time state from it, binds its listeners, drops its
  privileges and then serves until a signal ends it. A listener accepts connections over plain TCP, TLS or QUIC and gives
  each the configuration that is current at that moment; a request is routed to a location, passes the location's gates
  (access rules, request rate, connection slots, delegated and basic authentication) and is answered by an action: a fixed
  text, files, the metrics, or an upstream chosen by a balancer, with retries and a cache. A hang-up signal loads
  the file again and replaces the configuration of the running listeners. Beside HTTP there is a relay of TCP
  connections and UDP datagrams, and a prober of the upstreams.

  \<^bold>\<open>The theories\<close>, in the order they build on each other, with the source they model.

  \<^item> \<open>Elrond_Prelude\<close>, \<open>Rust_Text\<close>, \<open>Std_Net\<close>: results as sums, folds over fallible steps, association lists as hash maps, text
    and addresses as the standard library has them; the shared collections of simplification rules.
  \<^item> \<open>Http_Types\<close>, \<open>Request_Ctx\<close>, \<open>Template\<close> (\<^verbatim>\<open>body.rs\<close>, \<^verbatim>\<open>request_ctx.rs\<close>, \<^verbatim>\<open>template.rs\<close>): messages, header maps as an interface with
    laws, the variables of a request and the strings that mention them.
  \<^item> \<open>Config_Lexer\<close>, \<open>Config_Parser\<close>, \<open>Config_Include\<close>, \<open>Config_Ast\<close>, \<open>Config_Build\<close> (\<^verbatim>\<open>config/\<close>): from the text of a file to the
    structured configuration.
  \<^item> \<open>Metrics\<close>, \<open>Limit\<close>, \<open>Access\<close>, \<open>Cache\<close>, \<open>Balancer\<close>, \<open>Auth\<close>, \<open>Tls\<close>, \<open>Http_Date\<close>, \<open>Gzip\<close> (the files of these names; the
    balancer is in \<^verbatim>\<open>app.rs\<close>): the components a request meets, each with its state and its operations.
  \<^item> \<open>Proxy\<close>, \<open>Subrequests\<close>, \<open>Static_Files\<close> (\<^verbatim>\<open>proxy.rs\<close>, \<^verbatim>\<open>auth_request.rs\<close> with \<^verbatim>\<open>mirror.rs\<close>, \<^verbatim>\<open>static_files.rs\<close>): the
    actions that talk to others or to the disk.
  \<^item> \<open>App\<close> (\<^verbatim>\<open>app.rs\<close>): the construction of the run-time state, routing and virtual hosts.
  \<^item> \<open>Server\<close>, \<open>Http3\<close>, \<open>Stream\<close> (\<^verbatim>\<open>server.rs\<close>, \<^verbatim>\<open>http3.rs\<close>, \<^verbatim>\<open>stream.rs\<close> with \<^verbatim>\<open>health.rs\<close>): one request, one request stream, one relayed
    connection or datagram, one probe.
  \<^item> \<open>Listener\<close> (the accept loops of these three files): a listener as a state machine over events.
  \<^item> \<open>Supervisor\<close>, \<open>Logging\<close>, \<open>Privilege\<close>, \<open>Process\<close> (\<^verbatim>\<open>supervisor.rs\<close>, \<^verbatim>\<open>logging.rs\<close>, \<^verbatim>\<open>privilege.rs\<close> with \<^verbatim>\<open>sd_notify.rs\<close>,
    \<^verbatim>\<open>main.rs\<close>): the process.
  \<^item> \<open>System\<close>: the supervisor and all its HTTP and HTTP/3 listeners together, as a step relation in which reloads, the shutdown and the steps of the
    listeners come in any order.
  \<^item> \<open>Tests_Config\<close>, \<open>Tests_Units\<close>, \<open>Tests_Runtime\<close>: the repository's own unit tests, translated one by one and shown to hold of the model.

  \<^bold>\<open>State and effects.\<close> A struct is a record and an enum a datatype of the same name or nearly so. A fallible function
  returns a sum whose left side is a datatype of the errors the code formats as text. Shared state (balancers, cache stores,
  counters, and the limit zones in the world) is threaded through as the record \<open>shared\<close>; an awaited operation returns the
  shared state it left, so whatever other tasks did meanwhile is part of its result, and a theorem that needs quiet says
  so with a named hypothesis (\<open>env_keeps\<close>, \<open>proxy_keeps\<close>, \<open>files_keep\<close>, \<open>st_quiet\<close>, \<open>peers_fixed\<close>). Counters are 64-bit words and wrap;
  lengths, ports and sizes that the code cannot overflow are natural numbers; durations are
  milliseconds and instants nanoseconds; the fractional token counts of the rate limiter are rationals. Strings are lists of bytes. A
  hash map is an association list, and where the code iterates over one, the order is an argument.

  \<^bold>\<open>What is an argument.\<close> Code that is not part of the repository: the header map (with its laws), regular expressions, bcrypt, base64, the
  hash function, TLS and PEM reading, the HTTP client and server, the gzip encoder, the QUIC library, the file system,
  sockets, clocks and system calls. Where a theorem relies on what they promise, the promise is a hypothesis and the
  witness instantiates it.

  \<^bold>\<open>Loops.\<close> Recursion is structural or has a termination proof, except for the expansion of includes: it carries a bound on the
  depth, shown to be enough when it is the number of readable files and then not to influence the result. The
  accept loops and the signal loop do not end by themselves and are given the events or signals as a list;
  that draining ends is shown by a measure on the open connections together with the absence of a stuck state.

  \<^bold>\<open>What the theorems show.\<close>
  \<^item> Configuration: the parser accepts exactly the grammar and inverts the printer; what loads is well-formed;
    includes end.
  \<^item> Construction: every reference of the built state is in range, routing implements the documented precedence, a virtual
    host is served with its own certificate.
  \<^item> Requests: no action runs unless every gate of its location let the request pass, each request is counted and logged once, and
    slots and in-flight marks are given back; HTTP/3 agrees with the other front end; its body
    stays within the limit.
  \<^item> Files: nothing outside the root is opened, and a range is the slice it names.
  \<^item> Upstreams: attempts are bounded and on distinct peers, the answer is the upstream's or a defined error, a cached
    reply is fresh, was stored for the same request, and the store keeps its bound.
  \<^item> Limits and access: the rate over any time is bounded, the connection count exact, an address range is its prefix.
  \<^item> Listeners and process: a connection keeps the configuration it was accepted with; a reload serves exactly the configured
    addresses; in every reachable state of the whole system the listeners run with the current configuration and the connections with one of
    their own address, and the system can always be brought to a stop; draining ends; the process is ready only when bound and unprivileged; the PID file is removed on
    every way out; no log record is lost in a rotation.

  Further theorems state where the code departs from its comments or documents, for example that TLS connections are not drained, that
  a reload leaves HTTP/3 endpoints alone, and that it stops the UDP listener of a port that is served over TCP as well.

  \<^bold>\<open>Interfaces.\<close> \<open>peer_source\<close> (what the proxy needs of a balancer), \<open>variant_store\<close> (of a cache), \<open>key_eviction\<close> and \<open>capped_eviction\<close> (of the two
  limit zones), \<open>untouched\<close> and \<open>untouched_action\<close> (what an action leaves alone), and \<open>reconcile\<close> (the walk of running listeners
  against wanted ones) are locales; each is interpreted on the definitions of the model.

  \<^bold>\<open>Not modelled.\<close> The construction of the HTTP and QUIC clients and servers inside their libraries (\<^verbatim>\<open>proxy.rs\<close> 87 to 189,
  \<^verbatim>\<open>quinn_server_config\<close>), the installation of the crypto provider, the wording of log messages and of error texts, the
  help text, and the variants for systems that are not Unix: they have no behaviour of their own. Interleavings
  inside one request are those of its awaited operations; memory ordering of single atomics is not modelled.

  The theorem below spans the supervisor, a listener and the configuration.
\<close>

lemma current_cfg_quiet: "(\<And>x. Push_cfg x \<notin> set es) \<Longrightarrow> current_cfg d es = d"
  by (induction es rule: rev_induct) (auto simp: current_cfg_def split: listen_event.splits)



end
